(* ===== verification/Prelude.thy ===== *)
theory Prelude
  imports Main "HOL-Library.Word"
begin

text \<open>
  Shared vocabulary of the xv6 development: machine words under the names of
  \<^verbatim>\<open>kernel/types.h\<close>, the result type of kernel code that may panic, spin or sleep,
  the sequencing operator of that type with its simplification and elimination rules,
  and the search loop that the kernel's fixed-size tables all use.
\<close>

type_synonym uint8 = "8 word"
type_synonym uint16 = "16 word"
type_synonym uint32 = "32 word"
type_synonym uint64 = "64 word"

section \<open>Outcomes of kernel code\<close>

text \<open>
  \<^verbatim>\<open>panic\<close> stops the machine with a message. \<open>Spins\<close> is a spin lock held by somebody
  else when no other CPU moves; \<open>Sleeps\<close> is a call of \<^verbatim>\<open>sleep\<close>, after which the process
  waits for a \<^verbatim>\<open>wakeup\<close> by another one. \<open>Fault\<close> is an access the hardware would refuse or
  the C language leaves undefined.
\<close>

datatype kerror = Panic string | Spins | Sleeps | Fault

type_synonym 'a res = "kerror + 'a"

definition bindE :: "'e + 'a \<Rightarrow> ('a \<Rightarrow> 'e + 'b) \<Rightarrow> 'e + 'b" where
  "bindE m f = (case m of Inl e \<Rightarrow> Inl e | Inr x \<Rightarrow> f x)"

named_theorems res_iff \<open>inversion of successful outcomes\<close>

lemma bindE_simps [simp]:
  "bindE (Inl e) f = Inl e"
  "bindE (Inr x) f = f x"
  by (simp_all add: bindE_def)

lemma bindE_cong [fundef_cong]:
  "m = m' \<Longrightarrow> (\<And>x. m' = Inr x \<Longrightarrow> f x = f' x) \<Longrightarrow> bindE m f = bindE m' f'"
  by (cases m') simp_all

lemma bindE_Inr_iff [res_iff]:
  "bindE m f = Inr y \<longleftrightarrow> (\<exists>x. m = Inr x \<and> f x = Inr y)"
  by (cases m) simp_all

lemma bindE_Inl_iff [res_iff]:
  "bindE m f = Inl e \<longleftrightarrow> m = Inl e \<or> (\<exists>x. m = Inr x \<and> f x = Inl e)"
  by (cases m) simp_all

lemma bindE_assoc: "bindE (bindE m f) g = bindE m (\<lambda>x. bindE (f x) g)"
  by (cases m) simp_all

lemma bindE_split:
  "P (bindE m f) \<longleftrightarrow> (\<forall>e. m = Inl e \<longrightarrow> P (Inl e)) \<and> (\<forall>x. m = Inr x \<longrightarrow> P (f x))"
  by (cases m) simp_all

section \<open>The first slot of a table\<close>

text \<open>
  \<^verbatim>\<open>for(i = lo; i < hi; i++) if(p(i)) ...\<close>: the least index from \<open>lo\<close> below \<open>hi\<close> at which
  the test holds, if there is one.
\<close>

function first_from :: "(nat \<Rightarrow> bool) \<Rightarrow> nat \<Rightarrow> nat \<Rightarrow> nat option" where
  "first_from p lo hi =
     (if hi \<le> lo then None else if p lo then Some lo else first_from p (Suc lo) hi)"
  by pat_completeness auto
termination
  by (relation "measure (\<lambda>(p, lo, hi). hi - lo)") auto

declare first_from.simps [simp del]

lemma first_from_SomeD:
  "first_from p lo hi = Some i \<Longrightarrow>
     lo \<le> i \<and> i < hi \<and> p i \<and> (\<forall>j. lo \<le> j \<and> j < i \<longrightarrow> \<not> p j)"
proof (induction p lo hi rule: first_from.induct)
  case (1 p lo hi)
  show ?case
  proof (cases "hi \<le> lo \<or> p lo")
    case True
    with "1.prems" show ?thesis by (auto simp: first_from.simps [of p lo hi] split: if_splits)
  next
    case False
    with "1.prems" have *: "first_from p (Suc lo) hi = Some i"
      by (simp add: first_from.simps [of p lo hi])
    with False "1.IH" have "Suc lo \<le> i \<and> i < hi \<and> p i \<and> (\<forall>j. Suc lo \<le> j \<and> j < i \<longrightarrow> \<not> p j)"
      by simp
    with False show ?thesis by (metis Suc_leD Suc_leI le_neq_implies_less)
  qed
qed

lemma first_from_None_iff: "first_from p lo hi = None \<longleftrightarrow> (\<forall>j. lo \<le> j \<and> j < hi \<longrightarrow> \<not> p j)"
proof (induction p lo hi rule: first_from.induct)
  case (1 p lo hi)
  show ?case
  proof (cases "hi \<le> lo \<or> p lo")
    case True
    then show ?thesis by (auto simp: first_from.simps [of p lo hi])
  next
    case False
    with "1.IH" have "first_from p lo hi = None \<longleftrightarrow> (\<forall>j. Suc lo \<le> j \<and> j < hi \<longrightarrow> \<not> p j)"
      by (simp add: first_from.simps [of p lo hi])
    with False show ?thesis by (metis Suc_leD Suc_leI le_neq_implies_less)
  qed
qed

lemma first_from_Some_iff:
  "first_from p lo hi = Some i \<longleftrightarrow>
     lo \<le> i \<and> i < hi \<and> p i \<and> (\<forall>j. lo \<le> j \<and> j < i \<longrightarrow> \<not> p j)"
proof
  assume *: "lo \<le> i \<and> i < hi \<and> p i \<and> (\<forall>j. lo \<le> j \<and> j < i \<longrightarrow> \<not> p j)"
  then obtain k where k: "first_from p lo hi = Some k"
    using first_from_None_iff [of p lo hi] by (cases "first_from p lo hi") auto
  from first_from_SomeD [OF k] * have "k = i" by (metis nat_neq_iff)
  with k show "first_from p lo hi = Some i" by simp
qed (rule first_from_SomeD)

section \<open>Word arithmetic\<close>

lemma unat_eq_word_of_nat: "n < 2 ^ LENGTH('a) \<Longrightarrow> unat (w :: 'a::len word) = n \<longleftrightarrow> w = word_of_nat n"
  by (auto simp: unat_of_nat)

lemma word_offset_iff:
  assumes "n < 2 ^ 64"
  shows "a = d + word_of_nat n \<longleftrightarrow> unat (a - d :: uint64) = n"
proof -
  have "a = d + word_of_nat n \<longleftrightarrow> a - d = word_of_nat n" by (simp only: diff_eq_eq add.commute)
  also have "\<dots> \<longleftrightarrow> unat (a - d) = n"
    by (rule unat_eq_word_of_nat [symmetric]) (use assms in simp)
  finally show ?thesis .
qed

lemma unat_minus_1: "w \<noteq> 0 \<Longrightarrow> unat (w - 1) = unat (w :: 'a::len word) - 1"
  using unat_gt_0 [of w] by (auto simp: unat_sub_if')

lemma unat_32_less: "unat (n :: uint32) < 2 ^ 32"
  using unsigned_less [where 'a = nat and 'b = 32, of n] by simp

lemma unat_64_less: "unat (n :: uint64) < 2 ^ 64"
  using unsigned_less [where 'a = nat and 'b = 64, of n] by simp

lemma offset_Suc:
  fixes a d :: uint64
  shows "unat (a - d) < Suc n \<longleftrightarrow> a = d \<or> unat (a - (d + 1)) < n"
proof (cases "a = d")
  case False
  then have "unat (a - d) \<noteq> 0" by (simp add: unat_eq_0)
  moreover have "unat (a - (d + 1)) = unat (a - d) - 1" using unat_minus_1 [of "a - d"] False by (simp add: algebra_simps)
  ultimately show ?thesis using False by linarith
next
  case True
  then show ?thesis by simp
qed

lemma offset_Suc_down:
  fixes a d :: uint64
  shows "unat (d - 1 - a) < Suc n \<longleftrightarrow> a = d - 1 \<or> unat (d - 1 - 1 - a) < n"
proof (cases "a = d - 1")
  case False
  then have "unat (d - 1 - a) \<noteq> 0" by (auto simp add: unat_eq_0)
  moreover have "unat (d - 1 - 1 - a) = unat (d - 1 - a) - 1" using unat_minus_1 [of "d - 1 - a"] False by (auto simp add: algebra_simps)
  ultimately show ?thesis using False by linarith
next
  case True
  then show ?thesis by simp
qed

lemma unat_flip:
  fixes k x :: uint64
  assumes "k \<noteq> 0" shows "unat (k - 1 - x) < unat k \<longleftrightarrow> unat x < unat k"
proof -
  have "0 < unat k" using assms by (simp add: unat_gt_0)
  then show ?thesis using unat_minus_1 [OF assms] unat_64_less [of x] by (auto simp: unat_sub_if' [of "k - 1" x])
qed

lemma unat_word_of_nat: "n < 2 ^ 64 \<Longrightarrow> unat (word_of_nat n :: uint64) = n"
  by (simp add: unat_of_nat)

section \<open>Loops over a list of values\<close>

primrec forE :: "('x \<Rightarrow> 's \<Rightarrow> 's res) \<Rightarrow> 'x list \<Rightarrow> 's \<Rightarrow> 's res" where
  "forE f [] s = Inr s"
| "forE f (x # xs) s = bindE (f x s) (forE f xs)"

lemma forE_append: "forE f (xs @ ys) s = bindE (forE f xs s) (forE f ys)"
  by (induction xs arbitrary: s) (auto simp: bindE_assoc intro!: bindE_cong)

lemma forE_invariant:
  assumes "P s" and "\<And>x s. x \<in> set xs \<Longrightarrow> P s \<Longrightarrow> \<exists>s'. f x s = Inr s' \<and> P s'"
  shows "\<exists>s'. forE f xs s = Inr s' \<and> P s'"
  using assms
proof (induction xs arbitrary: s)
  case (Cons x xs)
  then obtain s' where "f x s = Inr s'" "P s'" by (metis list.set_intros(1))
  with Cons show ?case by (metis bindE_simps(2) forE.simps(2) list.set_intros(2))
qed simp

lemma forE_frame:
  assumes "\<And>x s s'. f x s = Inr s' \<Longrightarrow> R s s'" "\<And>s. R s s" "\<And>s s' s''. R s s' \<Longrightarrow> R s' s'' \<Longrightarrow> R s s''"
  shows "forE f xs s = Inr s' \<Longrightarrow> R s s'"
  by (induction xs arbitrary: s) (auto simp: res_iff assms(2) intro: assms)

end
