(* ===== verification/Machine.thy ===== *)
theory Machine
  imports Prelude
begin

text \<open>
  The machine state that every kernel component extends: the hart that executes, the
  per-CPU records, interrupt enabling, spin locks and the process table. The operations of
  \<^verbatim>\<open>kernel/spinlock.c\<close> are here, together with \<^verbatim>\<open>cpuid\<close>, \<^verbatim>\<open>mycpu\<close> and \<^verbatim>\<open>myproc\<close> of
  \<^verbatim>\<open>kernel/proc.c\<close>. An operation is a function of the state as one CPU executes it; the
  interleaving of several CPUs at the atomic instructions is the subject of theory
  \<open>LockProtocol\<close>. State records are extensible: each component adds its own fields and the
  operations of the lower ones apply unchanged.
\<close>

section \<open>Parameters (\<^verbatim>\<open>kernel/param.h\<close>)\<close>

definition NPROC :: nat where "NPROC = 64"
definition NCPU :: nat where "NCPU = 8"
definition NOFILE :: nat where "NOFILE = 200"
definition NFILE :: nat where "NFILE = 100"
definition NINODE :: nat where "NINODE = 200"
definition NDEV :: nat where "NDEV = 10"
definition ROOTDEV :: uint32 where "ROOTDEV = 1"
definition MAXARG :: nat where "MAXARG = 32"
definition MAXOPBLOCKS :: nat where "MAXOPBLOCKS = 10"
definition LOGSIZE :: nat where "LOGSIZE = MAXOPBLOCKS * 3"
definition NBUF :: nat where "NBUF = MAXOPBLOCKS * 3"
definition FSSIZE :: nat where "FSSIZE = 2000"
definition MAXPATH :: nat where "MAXPATH = 128"
definition USERSTACK :: nat where "USERSTACK = 1"

section \<open>Kernel objects\<close>

text \<open>
  Locks and wait channels are addresses of kernel variables in C. The model names the
  variables: \<open>L_kmem\<close> is \<^verbatim>\<open>&kmem.lock\<close>, \<open>L_proc i\<close> is \<^verbatim>\<open>&proc[i].lock\<close>, \<open>L_pipe a\<close> is the
  lock of the pipe at address \<open>a\<close>, \<open>L_sleep k\<close> the spin lock inside a sleep lock, and so
  on for channels.
\<close>

datatype sleeplock_id = SL_buf nat | SL_inode nat

datatype lock_id = L_kmem | L_pid | L_wait | L_proc nat | L_bcache | L_log | L_itable | L_ftable
  | L_pipe uint64 | L_cons | L_uart_tx | L_pr | L_ticks | L_vdisk | L_sleep sleeplock_id

datatype chan_id = Ch_log | Ch_proc nat | Ch_sleep sleeplock_id | Ch_nread uint64 | Ch_nwrite uint64
  | Ch_ticks | Ch_cons_r | Ch_uart_tx_r | Ch_buf nat | Ch_disk_free

record spinlock =
  locked :: uint32
  lk_name :: string
  lk_cpu :: "nat option"

record proc_context =
  ctx_ra :: uint64
  ctx_sp :: uint64
  ctx_s0 :: uint64
  ctx_s1 :: uint64
  ctx_s2 :: uint64
  ctx_s3 :: uint64
  ctx_s4 :: uint64
  ctx_s5 :: uint64
  ctx_s6 :: uint64
  ctx_s7 :: uint64
  ctx_s8 :: uint64
  ctx_s9 :: uint64
  ctx_s10 :: uint64
  ctx_s11 :: uint64

definition zero_context :: proc_context where
  "zero_context = \<lparr>ctx_ra = 0, ctx_sp = 0, ctx_s0 = 0, ctx_s1 = 0, ctx_s2 = 0, ctx_s3 = 0, ctx_s4 = 0,
     ctx_s5 = 0, ctx_s6 = 0, ctx_s7 = 0, ctx_s8 = 0, ctx_s9 = 0, ctx_s10 = 0, ctx_s11 = 0\<rparr>"

record cpu =
  cpu_proc :: "nat option"
  cpu_context :: proc_context
  noff :: int
  intena :: bool

datatype procstate = UNUSED | USED | SLEEPING | RUNNABLE | RUNNING | ZOMBIE

text \<open>
  \<^verbatim>\<open>struct proc\<close>. Pointers to kernel table entries are indices into the tables, with
  \<open>None\<close> for the null pointer; page table and trapframe are physical addresses.
\<close>

record proc =
  p_state :: procstate
  p_chan :: "chan_id option"
  p_killed :: int
  p_xstate :: int
  p_pid :: int
  p_parent :: "nat option"
  p_kstack :: uint64
  p_sz :: uint64
  p_pagetable :: uint64
  p_trapframe :: uint64
  p_context :: proc_context
  p_ofile :: "nat \<Rightarrow> nat option"
  p_cwd :: "nat option"
  p_name :: "uint8 list"

text \<open>The static tables start as zero bytes.\<close>

definition zero_cpu :: cpu where
  "zero_cpu = \<lparr>cpu_proc = None, cpu_context = zero_context, noff = 0, intena = False\<rparr>"

definition zero_lock :: spinlock where
  "zero_lock = \<lparr>locked = 0, lk_name = [], lk_cpu = None\<rparr>"

definition zero_proc :: proc where
  "zero_proc = \<lparr>p_state = UNUSED, p_chan = None, p_killed = 0, p_xstate = 0, p_pid = 0, p_parent = None,
     p_kstack = 0, p_sz = 0, p_pagetable = 0, p_trapframe = 0, p_context = zero_context,
     p_ofile = (\<lambda>_. None), p_cwd = None, p_name = replicate 16 0\<rparr>"

record machine =
  hart :: nat
  sie :: "nat \<Rightarrow> bool"
  cpus :: "nat \<Rightarrow> cpu"
  locks :: "lock_id \<Rightarrow> spinlock"
  procs :: "nat \<Rightarrow> proc"

section \<open>Interrupts and the current CPU\<close>

definition intr_get :: "'a machine_scheme \<Rightarrow> bool" where
  "intr_get s = sie s (hart s)"

definition intr_on :: "'a machine_scheme \<Rightarrow> 'a machine_scheme" where
  "intr_on s = s\<lparr>sie := (sie s)(hart s := True)\<rparr>"

definition intr_off :: "'a machine_scheme \<Rightarrow> 'a machine_scheme" where
  "intr_off s = s\<lparr>sie := (sie s)(hart s := False)\<rparr>"

definition cpuid :: "'a machine_scheme \<Rightarrow> nat" where
  "cpuid s = hart s"

definition mycpu :: "'a machine_scheme \<Rightarrow> cpu" where
  "mycpu s = cpus s (cpuid s)"

definition set_mycpu :: "cpu \<Rightarrow> 'a machine_scheme \<Rightarrow> 'a machine_scheme" where
  "set_mycpu c s = s\<lparr>cpus := (cpus s)(cpuid s := c)\<rparr>"

section \<open>Spin locks (\<^verbatim>\<open>kernel/spinlock.c\<close>)\<close>

definition initlock :: "lock_id \<Rightarrow> string \<Rightarrow> 'a machine_scheme \<Rightarrow> 'a machine_scheme" where
  "initlock lk name s =
     s\<lparr>locks := (locks s)(lk := (locks s lk)\<lparr>lk_name := name, locked := 0, lk_cpu := None\<rparr>)\<rparr>"

definition holding :: "lock_id \<Rightarrow> 'a machine_scheme \<Rightarrow> bool" where
  "holding lk s \<longleftrightarrow> locked (locks s lk) \<noteq> 0 \<and> lk_cpu (locks s lk) = Some (cpuid s)"

definition push_off :: "'a machine_scheme \<Rightarrow> 'a machine_scheme" where
  "push_off s =
     (let old = intr_get s;
          s = intr_off s;
          s = (if noff (mycpu s) = 0 then set_mycpu ((mycpu s)\<lparr>intena := old\<rparr>) s else s)
      in set_mycpu ((mycpu s)\<lparr>noff := noff (mycpu s) + 1\<rparr>) s)"

definition pop_off :: "'a machine_scheme \<Rightarrow> 'a machine_scheme res" where
  "pop_off s =
     (if intr_get s then Inl (Panic ''pop_off - interruptible'')
      else if noff (mycpu s) < 1 then Inl (Panic ''pop_off'')
      else let s = set_mycpu ((mycpu s)\<lparr>noff := noff (mycpu s) - 1\<rparr>) s in
           Inr (if noff (mycpu s) = 0 \<and> intena (mycpu s) then intr_on s else s))"

text \<open>
  The atomic swap \<^verbatim>\<open>__sync_lock_test_and_set(&lk->locked, 1)\<close>: the old value and the
  state with the lock word set.
\<close>

definition test_and_set :: "lock_id \<Rightarrow> 'a machine_scheme \<Rightarrow> uint32 \<times> 'a machine_scheme" where
  "test_and_set lk s =
     (locked (locks s lk), s\<lparr>locks := (locks s)(lk := (locks s lk)\<lparr>locked := 1\<rparr>)\<rparr>)"

definition set_lk_cpu :: "lock_id \<Rightarrow> nat option \<Rightarrow> 'a machine_scheme \<Rightarrow> 'a machine_scheme" where
  "set_lk_cpu lk c s = s\<lparr>locks := (locks s)(lk := (locks s lk)\<lparr>lk_cpu := c\<rparr>)\<rparr>"

definition lock_release_word :: "lock_id \<Rightarrow> 'a machine_scheme \<Rightarrow> 'a machine_scheme" where
  "lock_release_word lk s = s\<lparr>locks := (locks s)(lk := (locks s lk)\<lparr>locked := 0\<rparr>)\<rparr>"

text \<open>
  The spin loop either gets the lock at its first swap or, with no other CPU moving,
  repeats the swap for ever.
\<close>

definition acquire :: "lock_id \<Rightarrow> 'a machine_scheme \<Rightarrow> 'a machine_scheme res" where
  "acquire lk s =
     (let s = push_off s in
      if holding lk s then Inl (Panic ''acquire'')
      else let (old, s) = test_and_set lk s in
           if old \<noteq> 0 then Inl Spins
           else Inr (set_lk_cpu lk (Some (cpuid s)) s))"

definition release :: "lock_id \<Rightarrow> 'a machine_scheme \<Rightarrow> 'a machine_scheme res" where
  "release lk s =
     (if \<not> holding lk s then Inl (Panic ''release'')
      else let s = set_lk_cpu lk None s;
               s = lock_release_word lk s in
           pop_off s)"

definition myproc :: "'a machine_scheme \<Rightarrow> (nat option \<times> 'a machine_scheme) res" where
  "myproc s =
     (let s = push_off s;
          p = cpu_proc (mycpu s) in
      bindE (pop_off s) (\<lambda>s. Inr (p, s)))"

lemmas machine_defs = intr_get_def intr_on_def intr_off_def cpuid_def mycpu_def set_mycpu_def
  test_and_set_def set_lk_cpu_def lock_release_word_def holding_def

section \<open>Bracketed critical sections\<close>

text \<open>
  The effect of \<^verbatim>\<open>push_off\<close> on the CPU table is \<open>entered\<close>, the effect of \<^verbatim>\<open>acquire\<close> on a
  lock is \<open>taken\<close>. While no lock is held the saved interrupt flag is dead: \<open>settled\<close> is the
  CPU table with that flag refreshed, which is all that a matched pair of \<^verbatim>\<open>push_off\<close> and
  \<^verbatim>\<open>pop_off\<close> leaves behind. \<open>free_lock\<close> describes a lock nobody holds and \<open>cpu_sane\<close> a
  nesting depth that agrees with the interrupt flag.
\<close>

definition entered :: "nat \<Rightarrow> (nat \<Rightarrow> bool) \<Rightarrow> (nat \<Rightarrow> cpu) \<Rightarrow> nat \<Rightarrow> cpu" where
  "entered h i c = c(h := (c h)\<lparr>noff := noff (c h) + 1,
                                intena := if noff (c h) = 0 then i h else intena (c h)\<rparr>)"

definition settled :: "nat \<Rightarrow> (nat \<Rightarrow> bool) \<Rightarrow> (nat \<Rightarrow> cpu) \<Rightarrow> nat \<Rightarrow> cpu" where
  "settled h i c = (if noff (c h) = 0 then c(h := (c h)\<lparr>intena := i h\<rparr>) else c)"

definition taken :: "nat \<Rightarrow> spinlock \<Rightarrow> spinlock" where
  "taken h l = l\<lparr>locked := 1, lk_cpu := Some h\<rparr>"

definition free_lock :: "spinlock \<Rightarrow> bool" where
  "free_lock l \<longleftrightarrow> locked l = 0 \<and> lk_cpu l = None"

definition cpu_sane :: "nat \<Rightarrow> (nat \<Rightarrow> bool) \<Rightarrow> (nat \<Rightarrow> cpu) \<Rightarrow> bool" where
  "cpu_sane h i c \<longleftrightarrow> 0 \<le> noff (c h) \<and> (0 < noff (c h) \<longrightarrow> \<not> i h)"

abbreviation lock_free :: "lock_id \<Rightarrow> 'a machine_scheme \<Rightarrow> bool" where
  "lock_free lk s \<equiv> free_lock (locks s lk)"

abbreviation cpu_ok :: "'a machine_scheme \<Rightarrow> bool" where
  "cpu_ok s \<equiv> cpu_sane (hart s) (sie s) (cpus s)"

lemmas section_defs = entered_def settled_def taken_def free_lock_def cpu_sane_def

lemma settled_idem [simp]: "settled h i (settled h i c) = settled h i c"
  by (simp add: section_defs)

lemma cpu_proc_settled [simp]: "cpu_proc (settled h i c h') = cpu_proc (c h')"
  by (simp add: section_defs)

lemma cpu_proc_entered [simp]: "cpu_proc (entered h i c h') = cpu_proc (c h')"
  by (simp add: section_defs)

lemma cpu_sane_settled [simp]: "cpu_sane h i (settled h i c) = cpu_sane h i c"
  by (simp add: section_defs)

lemma cpu_sane_entered [simp]:
  "cpu_sane h i c \<Longrightarrow> cpu_sane h (i(h := False)) (entered h i c)"
  by (simp add: section_defs)

lemma settled_entered [simp]:
  "cpu_sane h i c \<Longrightarrow> settled h j (entered h i c) = entered h i c"
  by (simp add: section_defs)

lemma entered_settled [simp]: "entered h i (settled h i c) = entered h i c"
  by (auto simp: section_defs)

lemma taken_not_free [simp]: "\<not> free_lock (taken h l)"
  by (simp add: section_defs)

lemma free_unlocked [simp]: "free_lock l \<Longrightarrow> l\<lparr>locked := 0, lk_cpu := None\<rparr> = l"
  by (cases l) (simp add: section_defs)

lemma push_off_eq:
  "push_off s = s\<lparr>sie := (sie s)(hart s := False), cpus := entered (hart s) (sie s) (cpus s)\<rparr>"
  by (rule machine.equality) (simp_all add: push_off_def machine_defs section_defs Let_def fun_eq_iff)

lemma pop_off_eq:
  assumes "cpus s = entered (hart s) i c" "sie s = i(hart s := False)" "cpu_sane (hart s) i c"
  shows "pop_off s = Inr (s\<lparr>sie := i, cpus := settled (hart s) i c\<rparr>)"
proof -
  have "(c(h := (c h)\<lparr>noff := 0, intena := b\<rparr>)) = c(h := (c h)\<lparr>intena := b\<rparr>)"
    if "noff (c h) = 0" for h b
    using that by (cases "c h") simp
  moreover have "c(h := (c h)\<lparr>noff := noff (c h), intena := intena (c h)\<rparr>) = c" for h
    by (cases "c h") (auto simp: fun_eq_iff)
  ultimately show ?thesis
    using assms
    by (auto simp: pop_off_def machine_defs section_defs Let_def fun_upd_idem_iff)
qed

text \<open>
  A lock nobody holds is taken at the first swap; the matching release, with any change to
  the rest of the state in between, gives back the lock, the interrupt flag and the
  nesting depth.
\<close>

lemma acquire_free:
  assumes "lock_free lk s"
  shows "acquire lk s = Inr (s\<lparr>sie := (sie s)(hart s := False),
           cpus := entered (hart s) (sie s) (cpus s),
           locks := (locks s)(lk := taken (hart s) (locks s lk))\<rparr>)"
  using assms by (simp add: acquire_def push_off_eq machine_defs taken_def free_lock_def Let_def)

lemma release_taken:
  assumes "locks s lk = taken (hart s) l" "free_lock l"
    and "cpus s = entered (hart s) i c" "sie s = i(hart s := False)" "cpu_sane (hart s) i c"
  shows "release lk s = Inr (s\<lparr>locks := (locks s)(lk := l), sie := i, cpus := settled (hart s) i c\<rparr>)"
proof -
  have "(taken h l)\<lparr>lk_cpu := None, locked := 0\<rparr> = l" "locked (taken h l) = 1"
    "lk_cpu (taken h l) = Some h" for h
    using assms(2) by (cases l; simp add: taken_def free_lock_def)+
  then have "release lk s = pop_off (s\<lparr>locks := (locks s)(lk := l)\<rparr>)"
    using assms(1) by (simp add: release_def machine_defs Let_def)
  also have "\<dots> = Inr (s\<lparr>locks := (locks s)(lk := l), sie := i, cpus := settled (hart s) i c\<rparr>)"
    using assms by (subst pop_off_eq) simp_all
  finally show ?thesis .
qed

lemma acquire_held: "locked (locks s lk) \<noteq> 0 \<Longrightarrow>
    acquire lk s = Inl (if lk_cpu (locks s lk) = Some (hart s) then Panic ''acquire'' else Spins)"
  by (simp add: acquire_def push_off_eq machine_defs Let_def)

lemma release_not_holding: "\<not> holding lk s \<Longrightarrow> release lk s = Inl (Panic ''release'')"
  by (simp add: release_def)

lemma myproc_eq [simp]:
  "cpu_ok s \<Longrightarrow> myproc s = Inr (cpu_proc (cpus s (hart s)),
     s\<lparr>cpus := settled (hart s) (sie s) (cpus s)\<rparr>)"
  by (simp add: myproc_def push_off_eq pop_off_eq Let_def machine_defs)

lemmas critical = acquire_free release_taken

end
