(* ===== verification/LockProtocol.thy ===== *)
theory LockProtocol
  imports Machine
begin

text \<open>
  Spin locks under interleaving. The code of \<^verbatim>\<open>acquire\<close> and \<^verbatim>\<open>release\<close> is cut at its atomic
  instructions and any number of CPUs execute the pieces in any order; each piece is the
  operation of theory \<open>Machine\<close>. The locale \<open>mutex\<close> is the contract a lock offers to its
  users: every run shows a history of the abstract machine in which a lock has at most one owner.
\<close>

section \<open>The abstract mutex and its contract\<close>

text \<open>
  The events of a mutex: a lock is taken, the taker proceeds as its owner, the owner starts to give
  it back, the lock is dropped. \<open>mutex_run\<close> replays a history on a map from locks to owners; it is
  undefined as soon as the history takes a lock that is owned or uses one that is not.
\<close>

datatype ('i, 'k) mevent = Take 'i 'k | Acquired 'i 'k | Releasing 'i 'k | Drop 'i 'k

fun mutex_event :: "('i, 'k) mevent \<Rightarrow> ('k \<rightharpoonup> 'i) \<Rightarrow> ('k \<rightharpoonup> 'i) option" where
  "mutex_event (Take i k) own = (if own k = None then Some (own(k \<mapsto> i)) else None)"
| "mutex_event (Acquired i k) own = (if own k = Some i then Some own else None)"
| "mutex_event (Releasing i k) own = (if own k = Some i then Some own else None)"
| "mutex_event (Drop i k) own = (if own k = Some i then Some (own(k := None)) else None)"

fun mutex_run :: "('i, 'k) mevent list \<Rightarrow> ('k \<rightharpoonup> 'i) \<Rightarrow> ('k \<rightharpoonup> 'i) option" where
  "mutex_run [] own = Some own"
| "mutex_run (e # es) own = Option.bind (mutex_event e own) (mutex_run es)"

lemma mutex_run_append: "mutex_run (es @ fs) own = Option.bind (mutex_run es own) (mutex_run fs)"
  by (induction es arbitrary: own) (auto split: Option.bind_splits)

text \<open>A run of an implementation: a schedule of actions, with the events it shows.\<close>

fun sched_run :: "('a \<Rightarrow> 's \<Rightarrow> 's option) \<Rightarrow> ('a \<Rightarrow> 's \<Rightarrow> 'e list) \<Rightarrow> 'a list \<Rightarrow> 's \<Rightarrow> ('e list \<times> 's) option" where
  "sched_run act ev [] s = Some ([], s)"
| "sched_run act ev (a # as) s =
     Option.bind (act a s) (\<lambda>t. Option.bind (sched_run act ev as t) (\<lambda>(es, u). Some (ev a s @ es, u)))"

locale mutex =
  fixes rel :: "('k \<rightharpoonup> 'i) \<Rightarrow> 's \<Rightarrow> bool"
    and act :: "'a \<Rightarrow> 's \<Rightarrow> 's option"
    and ev :: "'a \<Rightarrow> 's \<Rightarrow> ('i, 'k) mevent list"
    and holds :: "'s \<Rightarrow> 'i \<Rightarrow> 'k \<Rightarrow> bool"
  assumes simulates: "\<lbrakk>rel own s; act a s = Some t\<rbrakk> \<Longrightarrow> \<exists>own'. mutex_run (ev a s) own = Some own' \<and> rel own' t"
    and holds_owner: "\<lbrakk>rel own s; holds s i k\<rbrakk> \<Longrightarrow> own k = Some i"
begin

lemma refines:
  assumes "rel own s" "sched_run act ev as s = Some (es, t)"
  shows "\<exists>own'. mutex_run es own = Some own' \<and> rel own' t"
  using assms
proof (induction "as" arbitrary: own s es)
  case (Cons a "as")
  then obtain u fs where u: "act a s = Some u" "sched_run act ev as u = Some (fs, t)" "es = ev a s @ fs"
    by (auto split: Option.bind_splits)
  from simulates [OF Cons.prems(1) u(1)] Cons.IH [OF _ u(2)] show ?case
    unfolding u(3) mutex_run_append by fastforce
qed simp

lemma exclusive: "\<lbrakk>rel own s; holds s i k; holds s j k\<rbrakk> \<Longrightarrow> i = j"
  by (metis holds_owner option.inject)

end

section \<open>The interleaved machine\<close>

text \<open>
  Where a CPU stands: outside both functions, in the spin loop of \<^verbatim>\<open>acquire\<close>, between the
  successful swap and the assignment to \<^verbatim>\<open>lk->cpu\<close>, in \<^verbatim>\<open>release\<close> after \<^verbatim>\<open>lk->cpu = 0\<close>, in
  \<^verbatim>\<open>release\<close> before \<^verbatim>\<open>pop_off()\<close>, or stopped by a panic. \<open>held\<close> records the locks whose
  \<^verbatim>\<open>acquire\<close> returned to the CPU's program and that it has not begun to release.
\<close>

datatype lctl = Ready | Spin lock_id | Got lock_id | Cleared lock_id | Unlocked | Panicked string

record lock_sys = machine +
  ctl :: "nat \<Rightarrow> lctl"
  held :: "nat \<Rightarrow> lock_id set"

definition goto :: "nat \<Rightarrow> lctl \<Rightarrow> lock_sys \<Rightarrow> lock_sys" where
  "goto i c s = s\<lparr>ctl := (ctl s)(i := c)\<rparr>"

definition acquire_enter :: "nat \<Rightarrow> lock_id \<Rightarrow> lock_sys \<Rightarrow> lock_sys" where
  "acquire_enter i lk s =
     (let s = push_off (s\<lparr>hart := i\<rparr>) in
      if holding lk s then goto i (Panicked ''acquire'') s else goto i (Spin lk) s)"

definition acquire_swap :: "nat \<Rightarrow> lock_id \<Rightarrow> lock_sys \<Rightarrow> lock_sys" where
  "acquire_swap i lk s =
     (let (old, s) = test_and_set lk (s\<lparr>hart := i\<rparr>) in
      if old \<noteq> 0 then s else goto i (Got lk) s)"

definition acquire_owner :: "nat \<Rightarrow> lock_id \<Rightarrow> lock_sys \<Rightarrow> lock_sys" where
  "acquire_owner i lk s =
     (let s = s\<lparr>hart := i\<rparr>;
          s = set_lk_cpu lk (Some (cpuid s)) s in
      goto i Ready (s\<lparr>held := (held s)(i := insert lk (held s i))\<rparr>))"

definition release_clear :: "nat \<Rightarrow> lock_id \<Rightarrow> lock_sys \<Rightarrow> lock_sys" where
  "release_clear i lk s =
     (let s = s\<lparr>hart := i\<rparr> in
      if \<not> holding lk s then goto i (Panicked ''release'') s
      else let s = set_lk_cpu lk None s in
           goto i (Cleared lk) (s\<lparr>held := (held s)(i := held s i - {lk})\<rparr>))"

definition release_word :: "nat \<Rightarrow> lock_id \<Rightarrow> lock_sys \<Rightarrow> lock_sys" where
  "release_word i lk s = goto i Unlocked (lock_release_word lk (s\<lparr>hart := i\<rparr>))"

definition release_pop :: "nat \<Rightarrow> lock_sys \<Rightarrow> lock_sys" where
  "release_pop i s =
     (case pop_off (s\<lparr>hart := i\<rparr>) of
        Inr s \<Rightarrow> goto i Ready s
      | Inl (Panic m) \<Rightarrow> goto i (Panicked m) (s\<lparr>hart := i\<rparr>)
      | Inl _ \<Rightarrow> s\<lparr>hart := i\<rparr>)"

text \<open>
  One step of one CPU. A program releases only what it holds and does not acquire a lock it
  already holds; outside critical sections it may switch interrupts on or off.
\<close>

inductive lstep :: "lock_sys \<Rightarrow> lock_sys \<Rightarrow> bool" where
  Enter: "\<lbrakk>ctl s i = Ready; lk \<notin> held s i\<rbrakk> \<Longrightarrow> lstep s (acquire_enter i lk s)"
| Swap: "ctl s i = Spin lk \<Longrightarrow> lstep s (acquire_swap i lk s)"
| Owner: "ctl s i = Got lk \<Longrightarrow> lstep s (acquire_owner i lk s)"
| Clear: "\<lbrakk>ctl s i = Ready; lk \<in> held s i\<rbrakk> \<Longrightarrow> lstep s (release_clear i lk s)"
| Word: "ctl s i = Cleared lk \<Longrightarrow> lstep s (release_word i lk s)"
| Pop: "ctl s i = Unlocked \<Longrightarrow> lstep s (release_pop i s)"
| On: "\<lbrakk>ctl s i = Ready; noff (cpus s i) = 0\<rbrakk> \<Longrightarrow> lstep s (intr_on (s\<lparr>hart := i\<rparr>))"
| Off: "\<lbrakk>ctl s i = Ready; noff (cpus s i) = 0\<rbrakk> \<Longrightarrow> lstep s (intr_off (s\<lparr>hart := i\<rparr>))"

definition lock_sys_init :: "lock_sys \<Rightarrow> bool" where
  "lock_sys_init s \<longleftrightarrow> (\<forall>lk. lock_free lk s) \<and>
     (\<forall>i. noff (cpus s i) = 0 \<and> ctl s i = Ready \<and> held s i = {})"

text \<open>
  The same steps named by actions, so that a schedule determines the run. An action shows an event
  when a swap leaves the spin loop, when \<^verbatim>\<open>acquire\<close> returns, when \<^verbatim>\<open>release\<close> is entered and when the lock
  word has been given back.
\<close>

datatype laction =
    A_enter nat lock_id | A_swap nat | A_owner nat | A_clear nat lock_id | A_word nat | A_pop nat | A_on nat | A_off nat

fun perform :: "laction \<Rightarrow> lock_sys \<Rightarrow> lock_sys option" where
  "perform (A_enter i lk) s = (if ctl s i = Ready \<and> lk \<notin> held s i then Some (acquire_enter i lk s) else None)"
| "perform (A_swap i) s = (case ctl s i of Spin lk \<Rightarrow> Some (acquire_swap i lk s) | _ \<Rightarrow> None)"
| "perform (A_owner i) s = (case ctl s i of Got lk \<Rightarrow> Some (acquire_owner i lk s) | _ \<Rightarrow> None)"
| "perform (A_clear i lk) s = (if ctl s i = Ready \<and> lk \<in> held s i then Some (release_clear i lk s) else None)"
| "perform (A_word i) s = (case ctl s i of Cleared lk \<Rightarrow> Some (release_word i lk s) | _ \<Rightarrow> None)"
| "perform (A_pop i) s = (if ctl s i = Unlocked then Some (release_pop i s) else None)"
| "perform (A_on i) s = (if ctl s i = Ready \<and> noff (cpus s i) = 0 then Some (intr_on (s\<lparr>hart := i\<rparr>)) else None)"
| "perform (A_off i) s = (if ctl s i = Ready \<and> noff (cpus s i) = 0 then Some (intr_off (s\<lparr>hart := i\<rparr>)) else None)"

fun shown :: "laction \<Rightarrow> lock_sys \<Rightarrow> (nat, lock_id) mevent list" where
  "shown (A_swap i) s = (case ctl s i of Spin lk \<Rightarrow> if ctl (acquire_swap i lk s) i = Got lk then [Take i lk] else [] | _ \<Rightarrow> [])"
| "shown (A_owner i) s = (case ctl s i of Got lk \<Rightarrow> [Acquired i lk] | _ \<Rightarrow> [])"
| "shown (A_clear i lk) s = [Releasing i lk]"
| "shown (A_word i) s = (case ctl s i of Cleared lk \<Rightarrow> [Drop i lk] | _ \<Rightarrow> [])"
| "shown _ s = []"

abbreviation lock_run :: "laction list \<Rightarrow> lock_sys \<Rightarrow> ((nat, lock_id) mevent list \<times> lock_sys) option" where
  "lock_run \<equiv> sched_run perform shown"

lemma lstep_iff_perform: "lstep s t \<longleftrightarrow> (\<exists>a. perform a s = Some t)"
proof
  assume "lstep s t"
  then show "\<exists>a. perform a s = Some t"
  proof cases
    case (Enter i lk) then show ?thesis by (intro exI [of _ "A_enter i lk"]) simp
  next
    case (Swap i lk) then show ?thesis by (intro exI [of _ "A_swap i"]) simp
  next
    case (Owner i lk) then show ?thesis by (intro exI [of _ "A_owner i"]) simp
  next
    case (Clear i lk) then show ?thesis by (intro exI [of _ "A_clear i lk"]) simp
  next
    case (Word i lk) then show ?thesis by (intro exI [of _ "A_word i"]) simp
  next
    case (Pop i) then show ?thesis by (intro exI [of _ "A_pop i"]) simp
  next
    case (On i) then show ?thesis by (intro exI [of _ "A_on i"]) simp
  next
    case (Off i) then show ?thesis by (intro exI [of _ "A_off i"]) simp
  qed
next
  assume "\<exists>a. perform a s = Some t"
  then obtain a where "perform a s = Some t" ..
  then show "lstep s t" by (cases a) (auto intro: lstep.intros split: if_splits lctl.splits)
qed

section \<open>The simulation\<close>

definition pending :: "lctl \<Rightarrow> nat" where
  "pending c = (if c = Ready then 0 else 1)"

definition owns :: "lctl \<Rightarrow> lock_id set \<Rightarrow> lock_id \<Rightarrow> bool" where
  "owns c H lk \<longleftrightarrow> lk \<in> H \<or> c = Got lk \<or> c = Cleared lk"

definition hart_inv :: "lctl \<Rightarrow> lock_id set \<Rightarrow> cpu \<Rightarrow> bool \<Rightarrow> bool" where
  "hart_inv c H k on \<longleftrightarrow> finite H \<and> (\<forall>lk. c \<in> {Spin lk, Got lk, Cleared lk} \<longrightarrow> lk \<notin> H) \<and>
     noff k = int (card H) + int (pending c) \<and> (0 < noff k \<longrightarrow> \<not> on) \<and> (\<forall>m. c \<noteq> Panicked m)"

definition lock_rel :: "(lock_id \<rightharpoonup> nat) \<Rightarrow> lock_sys \<Rightarrow> bool" where
  "lock_rel own s \<longleftrightarrow>
     (\<forall>lk. locked (locks s lk) \<noteq> 0 \<longleftrightarrow> own lk \<noteq> None) \<and>
     (\<forall>i lk. owns (ctl s i) (held s i) lk \<longleftrightarrow> own lk = Some i) \<and>
     (\<forall>i lk. lk_cpu (locks s lk) = Some i \<longleftrightarrow> lk \<in> held s i) \<and>
     (\<forall>i. hart_inv (ctl s i) (held s i) (cpus s i) (sie s i))"

lemma lock_rel_hart [simp]: "lock_rel own (s\<lparr>hart := i\<rparr>) = lock_rel own s"
  by (simp add: lock_rel_def)

lemma lock_rel_init: "lock_sys_init s \<Longrightarrow> lock_rel Map.empty s"
  by (simp add: lock_sys_init_def lock_rel_def owns_def hart_inv_def pending_def free_lock_def)

lemmas protocol_defs = goto_def acquire_enter_def acquire_swap_def acquire_owner_def
  release_clear_def release_word_def release_pop_def

lemma owns_simps [simp]:
  "owns Ready H lk \<longleftrightarrow> lk \<in> H" "owns (Spin k) H lk \<longleftrightarrow> lk \<in> H" "owns Unlocked H lk \<longleftrightarrow> lk \<in> H"
  "owns (Got k) H lk \<longleftrightarrow> lk \<in> H \<or> k = lk" "owns (Cleared k) H lk \<longleftrightarrow> lk \<in> H \<or> k = lk"
  by (auto simp: owns_def)

lemma lock_relD:
  assumes "lock_rel own s"
  shows "locked (locks s lk) \<noteq> 0 \<longleftrightarrow> own lk \<noteq> None"
    and "owns (ctl s i) (held s i) lk \<longleftrightarrow> own lk = Some i"
    and "lk_cpu (locks s lk) = Some i \<longleftrightarrow> lk \<in> held s i"
    and "hart_inv (ctl s i) (held s i) (cpus s i) (sie s i)"
  using assms by (simp_all add: lock_rel_def)

text \<open>
  A piece of code that touches one CPU's records and one lock keeps the relation when it
  does so for that CPU and that lock.
\<close>

lemma lock_rel_upd:
  assumes rel: "lock_rel own s"
    and same: "\<And>j. j \<noteq> i \<Longrightarrow> ctl t j = ctl s j \<and> held t j = held s j \<and> cpus t j = cpus s j \<and> sie t j = sie s j"
    and locks: "\<And>k. k \<noteq> lk \<Longrightarrow> locks t k = locks s k"
    and own: "\<And>k. k \<noteq> lk \<Longrightarrow> own' k = own k"
    and kept: "\<And>k. k \<noteq> lk \<Longrightarrow> owns (ctl t i) (held t i) k = owns (ctl s i) (held s i) k \<and>
                  (k \<in> held t i \<longleftrightarrow> k \<in> held s i)"
    and word: "locked (locks t lk) \<noteq> 0 \<longleftrightarrow> own' lk \<noteq> None"
    and owner: "\<And>j. owns (ctl t j) (held t j) lk \<longleftrightarrow> own' lk = Some j"
    and cpu: "\<And>j. lk_cpu (locks t lk) = Some j \<longleftrightarrow> lk \<in> held t j"
    and hart: "hart_inv (ctl t i) (held t i) (cpus t i) (sie t i)"
  shows "lock_rel own' t"
  unfolding lock_rel_def
proof (intro conjI allI)
  fix j k
  show "locked (locks t k) \<noteq> 0 \<longleftrightarrow> own' k \<noteq> None"
    using word locks own lock_relD(1) [OF rel] by (cases "k = lk") auto
  show "owns (ctl t j) (held t j) k \<longleftrightarrow> own' k = Some j"
  proof (cases "k = lk")
    case False
    then show ?thesis using own kept same lock_relD(2) [OF rel] by (cases "j = i") auto
  qed (simp add: owner)
  show "lk_cpu (locks t k) = Some j \<longleftrightarrow> k \<in> held t j"
  proof (cases "k = lk")
    case False
    then show ?thesis using locks kept same lock_relD(3) [OF rel] by (cases "j = i") auto
  qed (simp add: cpu)
  show "hart_inv (ctl t j) (held t j) (cpus t j) (sie t j)"
    using hart same lock_relD(4) [OF rel] by (cases "j = i") auto
qed

lemma enter_rel:
  assumes "lock_rel own s" "ctl s i = Ready" "lk \<notin> held s i"
  shows "lock_rel own (acquire_enter i lk s)"
proof -
  note r = lock_relD [OF assms(1)]
  have oi: "k \<in> held s i \<longleftrightarrow> own k = Some i" for k using r(2) [of i k] assms(2) by simp
  have nh: "lk_cpu (locks s lk) \<noteq> Some i" using r(3) assms(3) by simp
  have "hart_inv Ready (held s i) (cpus s i) (sie s i)" using r(4) [of i] assms(2) by simp
  then have "hart_inv (Spin lk) (held s i) (entered i (sie s) (cpus s) i) False"
    using assms(3) by (simp add: hart_inv_def pending_def entered_def)
  then show ?thesis
    using nh assms r oi
    by (intro lock_rel_upd [OF assms(1), where i = i and lk = lk])
      (auto simp: protocol_defs push_off_eq holding_def cpuid_def Let_def entered_def)
qed

lemma swap_rel:
  assumes "lock_rel own s" "ctl s i = Spin lk"
  shows "lock_rel (if own lk = None then own(lk \<mapsto> i) else own) (acquire_swap i lk s)"
proof -
  note r = lock_relD [OF assms(1)]
  have oi: "k \<in> held s i \<longleftrightarrow> own k = Some i" for k using r(2) [of i k] assms(2) by simp
  have h: "hart_inv (Spin lk) (held s i) (cpus s i) (sie s i)" using r(4) [of i] assms(2) by simp
  then have "hart_inv (Got lk) (held s i) (cpus s i) (sie s i)"
    by (simp add: hart_inv_def pending_def)
  moreover have "lk \<notin> held s i" using h by (simp add: hart_inv_def)
  ultimately show ?thesis
    using assms r h oi
    by (intro lock_rel_upd [OF assms(1), where i = i and lk = lk])
      (auto simp: protocol_defs test_and_set_def)
qed

lemma owner_rel:
  assumes "lock_rel own s" "ctl s i = Got lk"
  shows "lock_rel own (acquire_owner i lk s)"
proof -
  note r = lock_relD [OF assms(1)]
  have oi: "k \<in> held s i \<or> lk = k \<longleftrightarrow> own k = Some i" for k using r(2) [of i k] assms(2) by simp
  have h: "hart_inv (Got lk) (held s i) (cpus s i) (sie s i)" using r(4) [of i] assms(2) by simp
  then have "hart_inv Ready (insert lk (held s i)) (cpus s i) (sie s i)"
    by (simp add: hart_inv_def pending_def)
  moreover have o: "own lk = Some i" using r(2) [of i lk] assms(2) by simp
  moreover have "j = i" if "lk \<in> held s j" for j using r(2) [of j lk] that o by (simp add: owns_def)
  ultimately show ?thesis
    using assms r h oi
    by (intro lock_rel_upd [OF assms(1), where i = i and lk = lk])
      (auto simp: protocol_defs set_lk_cpu_def cpuid_def Let_def)
qed

lemma clear_rel:
  assumes "lock_rel own s" "ctl s i = Ready" "lk \<in> held s i"
  shows "lock_rel own (release_clear i lk s)"
proof -
  note r = lock_relD [OF assms(1)]
  have oi: "k \<in> held s i \<longleftrightarrow> own k = Some i" for k using r(2) [of i k] assms(2) by simp
  have h: "hart_inv Ready (held s i) (cpus s i) (sie s i)" using r(4) [of i] assms(2) by simp
  then have "card (held s i) > 0" using assms(3) by (auto simp: hart_inv_def card_gt_0_iff)
  then have "hart_inv (Cleared lk) (held s i - {lk}) (cpus s i) (sie s i)"
    using h assms(3) by (simp add: hart_inv_def pending_def)
  moreover have o: "own lk = Some i" using oi assms(3) by simp
  moreover have no: "\<not> owns (ctl s j) (held s j) lk" "lk \<notin> held s j" if "j \<noteq> i" for j
    using r(2) [of j lk] that o by (auto simp: owns_def)
  moreover have "locked (locks s lk) \<noteq> 0" "lk_cpu (locks s lk) = Some i"
    using r(1) [of lk] r(3) [of lk i] o assms(3) by simp_all
  ultimately show ?thesis
    using assms(2,3)
    by (intro lock_rel_upd [OF assms(1), where i = i and lk = lk])
      (auto simp: protocol_defs set_lk_cpu_def holding_def cpuid_def Let_def)
qed

lemma word_rel:
  assumes "lock_rel own s" "ctl s i = Cleared lk"
  shows "own lk = Some i" "lock_rel (own(lk := None)) (release_word i lk s)"
proof -
  note r = lock_relD [OF assms(1)]
  have oi: "k \<in> held s i \<or> lk = k \<longleftrightarrow> own k = Some i" for k using r(2) [of i k] assms(2) by simp
  have h: "hart_inv (Cleared lk) (held s i) (cpus s i) (sie s i)" using r(4) [of i] assms(2) by simp
  then have "hart_inv Unlocked (held s i) (cpus s i) (sie s i)" "lk \<notin> held s i"
    by (simp_all add: hart_inv_def pending_def)
  moreover show o: "own lk = Some i" using r(2) [of i lk] assms by simp
  moreover have "j = i" if "lk \<in> held s j" for j using r(2) [of j lk] that o by (simp add: owns_def)
  moreover have "\<not> owns (ctl s j) (held s j) lk" if "j \<noteq> i" for j using r(2) [of j lk] that o by simp
  ultimately show "lock_rel (own(lk := None)) (release_word i lk s)"
    using assms r oi
    by (intro lock_rel_upd [OF assms(1), where i = i and lk = lk])
      (auto simp: protocol_defs lock_release_word_def)
qed

lemma pop_rel:
  assumes "lock_rel own s" "ctl s i = Unlocked"
  shows "lock_rel own (release_pop i s)"
proof -
  note r = lock_relD [OF assms(1)]
  have oi: "k \<in> held s i \<longleftrightarrow> own k = Some i" for k using r(2) [of i k] assms(2) by simp
  have h: "hart_inv Unlocked (held s i) (cpus s i) (sie s i)" using r(4) [of i] assms(2) by simp
  then have n: "0 < noff (cpus s i)" "\<not> sie s i" by (simp_all add: hart_inv_def pending_def)
  have "hart_inv Ready (held s i) ((cpus s i)\<lparr>noff := noff (cpus s i) - 1\<rparr>)
      (noff (cpus s i) = 1 \<and> intena (cpus s i))"
    using h by (auto simp: hart_inv_def pending_def)
  then show ?thesis
    using assms r n oi
    by (intro lock_rel_upd [OF assms(1), where i = i and lk = lk])
      (auto simp: protocol_defs pop_off_def machine_defs Let_def)
qed

lemma intr_rel:
  assumes "lock_rel own s" "ctl s i = Ready" "noff (cpus s i) = 0"
  shows "lock_rel own (intr_on (s\<lparr>hart := i\<rparr>))" "lock_rel own (intr_off (s\<lparr>hart := i\<rparr>))"
  using assms lock_relD(4) [OF assms(1), of i]
  by (auto simp: lock_rel_def intr_on_def intr_off_def hart_inv_def)

lemma perform_simulates:
  assumes "lock_rel own s" "perform a s = Some t"
  shows "\<exists>own'. mutex_run (shown a s) own = Some own' \<and> lock_rel own' t"
proof (cases a)
  case (A_enter i lk)
  then show ?thesis using assms(2) enter_rel [OF assms(1), of i lk] by (auto split: if_splits)
next
  case (A_swap i)
  then obtain lk where c: "ctl s i = Spin lk" "t = acquire_swap i lk s" using assms(2) by (auto split: lctl.splits)
  have "ctl t i = Got lk \<longleftrightarrow> own lk = None"
    using lock_relD(1) [OF assms(1), of lk] c by (auto simp: protocol_defs test_and_set_def Let_def)
  then show ?thesis using swap_rel [OF assms(1) c(1)] A_swap c by auto
next
  case (A_owner i)
  then obtain lk where c: "ctl s i = Got lk" "t = acquire_owner i lk s" using assms(2) by (auto split: lctl.splits)
  then have "own lk = Some i" using lock_relD(2) [OF assms(1), of i lk] by simp
  then show ?thesis using owner_rel [OF assms(1) c(1)] A_owner c by simp
next
  case (A_clear i lk)
  then have c: "ctl s i = Ready" "lk \<in> held s i" "t = release_clear i lk s" using assms(2) by (auto split: if_splits)
  then have "own lk = Some i" using lock_relD(2) [OF assms(1), of i lk] by simp
  then show ?thesis using clear_rel [OF assms(1) c(1,2)] A_clear c by simp
next
  case (A_word i)
  then obtain lk where c: "ctl s i = Cleared lk" "t = release_word i lk s" using assms(2) by (auto split: lctl.splits)
  then show ?thesis using word_rel [OF assms(1) c(1)] A_word by simp
qed (use assms(2) pop_rel [OF assms(1)] intr_rel [OF assms(1)] in \<open>auto split: if_splits\<close>)

interpretation spin: mutex lock_rel perform shown "\<lambda>s i lk. lk \<in> held s i"
  by unfold_locales (use perform_simulates in blast, use lock_relD(2) in \<open>fastforce simp: owns_def\<close>)

section \<open>Mutual exclusion\<close>

lemma reachable_rel:
  assumes "lock_sys_init s" "lstep\<^sup>*\<^sup>* s t"
  obtains own where "lock_rel own t"
proof -
  have "\<exists>own. lock_rel own t" using assms(2)
  proof (induction rule: rtranclp_induct)
    case base
    then show ?case using lock_rel_init [OF assms(1)] by blast
  next
    case (step t u)
    then show ?case using perform_simulates lstep_iff_perform by metis
  qed
  then show thesis using that by blast
qed

lemma reachable_held:
  assumes "lock_sys_init s" "lstep\<^sup>*\<^sup>* s t" "lk \<in> held t i"
  shows "holding lk (t\<lparr>hart := i\<rparr>)" "\<not> sie t i"
proof -
  obtain own where r: "lock_rel own t" using reachable_rel [OF assms(1,2)] .
  have "own lk = Some i" "lk_cpu (locks t lk) = Some i" and h: "hart_inv (ctl t i) (held t i) (cpus t i) (sie t i)"
    using lock_relD [OF r] assms(3) by (auto simp: owns_def)
  then show "holding lk (t\<lparr>hart := i\<rparr>)" using lock_relD(1) [OF r, of lk] by (simp add: holding_def cpuid_def)
  have "0 < card (held t i)" using h assms(3) by (auto simp: hart_inv_def card_gt_0_iff)
  then show "\<not> sie t i" using h by (simp add: hart_inv_def)
qed

text \<open>
  C5. However the CPUs interleave the instructions of \<^verbatim>\<open>acquire\<close> and \<^verbatim>\<open>release\<close>, from a state
  with all locks free: two CPUs never hold the same lock; a CPU whose \<^verbatim>\<open>acquire\<close> returned
  passes the \<^verbatim>\<open>holding\<close> test and runs with interrupts off until it releases; and none of the
  panics of \<^verbatim>\<open>acquire\<close>, \<^verbatim>\<open>release\<close> and \<^verbatim>\<open>pop_off\<close> is reached.
\<close>

theorem spinlock_mutual_exclusion:
  assumes "lock_sys_init s" and "lstep\<^sup>*\<^sup>* s t"
  shows "(\<forall>i j lk. lk \<in> held t i \<and> lk \<in> held t j \<longrightarrow> i = j) \<and>
    (\<forall>i lk. lk \<in> held t i \<longrightarrow> holding lk (t\<lparr>hart := i\<rparr>) \<and> \<not> sie t i) \<and>
    (\<forall>i m. ctl t i \<noteq> Panicked m)"
proof -
  obtain own where r: "lock_rel own t" using reachable_rel [OF assms] .
  have "i = j" if "lk \<in> held t i" "lk \<in> held t j" for i j lk using spin.exclusive [OF r that] .
  moreover have "ctl t i \<noteq> Panicked m" for i m using lock_relD(4) [OF r, of i] by (simp add: hart_inv_def)
  ultimately show ?thesis using reachable_held [OF assms] by blast
qed

definition idle_sys :: lock_sys where
  "idle_sys = \<lparr>hart = 0, sie = (\<lambda>_. True), cpus = (\<lambda>_. zero_cpu), locks = (\<lambda>_. zero_lock),
     procs = (\<lambda>_. zero_proc), ctl = (\<lambda>_. Ready), held = (\<lambda>_. {})\<rparr>"

lemma idle_sys_init: "lock_sys_init idle_sys"
  by (simp add: lock_sys_init_def idle_sys_def free_lock_def zero_lock_def zero_cpu_def)

text \<open>CPU 1 takes \<^verbatim>\<open>kmem.lock\<close> while CPU 0 spins on it.\<close>

definition contended_sys :: lock_sys where
  "contended_sys = acquire_owner 1 L_kmem (acquire_swap 0 L_kmem (acquire_swap 1 L_kmem
     (acquire_enter 0 L_kmem (acquire_enter 1 L_kmem idle_sys))))"

lemmas run_simps = idle_sys_def zero_lock_def zero_cpu_def protocol_defs push_off_eq holding_def Let_def test_and_set_def set_lk_cpu_def

lemma contended_sys_reach: "lstep\<^sup>*\<^sup>* idle_sys contended_sys"
proof -
  define s1 s2 s3 s4 where "s1 = acquire_enter 1 L_kmem idle_sys" and "s2 = acquire_enter 0 L_kmem s1"
    and "s3 = acquire_swap 1 L_kmem s2" and "s4 = acquire_swap 0 L_kmem s3"
  have "lstep idle_sys s1" unfolding s1_def by (rule Enter) (simp_all add: run_simps)
  moreover have "lstep s1 s2" unfolding s2_def by (rule Enter) (simp_all add: s1_def run_simps)
  moreover have "lstep s2 s3" unfolding s3_def by (rule Swap) (simp add: s1_def s2_def run_simps)
  moreover have "lstep s3 s4" unfolding s4_def by (rule Swap) (simp add: s1_def s2_def s3_def run_simps)
  moreover have "lstep s4 contended_sys"
    unfolding contended_sys_def s1_def [symmetric] s2_def [symmetric] s3_def [symmetric] s4_def [symmetric]
    by (rule Owner) (simp add: s1_def s2_def s3_def s4_def run_simps)
  ultimately show ?thesis by (meson converse_rtranclp_into_rtranclp rtranclp.rtrancl_refl)
qed

lemma contended_sys_held: "L_kmem \<in> held contended_sys 1" "ctl contended_sys 0 = Spin L_kmem"
  by (simp_all add: contended_sys_def run_simps)

theorem spinlock_mutual_exclusion_witness:
  "\<not> sie contended_sys 1 \<and> L_kmem \<notin> held contended_sys 0 \<and> holding L_kmem (contended_sys\<lparr>hart := 1\<rparr>)"
  using spinlock_mutual_exclusion [OF idle_sys_init contended_sys_reach] contended_sys_held
  by (metis zero_neq_one)

text \<open>
  C7. The spin lock implements the abstract mutex, history by history: for every schedule of the CPUs'
  instructions, replaying the events of the run in order on the abstract mutex is defined, so no
  lock is taken while owned and only owners return from \<^verbatim>\<open>acquire\<close>, enter \<^verbatim>\<open>release\<close> and drop. The owners
  this replay arrives at are the ones in the machine: the lock words are set exactly for the owned
  locks, and what a CPU holds it owns. A lock without an owner is free to be had: the next swap of any
  CPU that spins on it succeeds.
\<close>

theorem spinlock_refines_mutex:
  assumes "lock_sys_init s" and "lock_run as s = Some (es, t)"
  shows "\<exists>own. mutex_run es Map.empty = Some own \<and> (\<forall>lk. locked (locks t lk) \<noteq> 0 \<longleftrightarrow> own lk \<noteq> None) \<and>
    (\<forall>i lk. lk \<in> held t i \<longrightarrow> own lk = Some i) \<and>
    (\<forall>i lk. ctl t i = Spin lk \<and> own lk = None \<longrightarrow> shown (A_swap i) t = [Take i lk])"
proof -
  obtain own where o: "mutex_run es Map.empty = Some own" "lock_rel own t"
    using spin.refines [OF lock_rel_init [OF assms(1)] assms(2)] by blast
  have "shown (A_swap i) t = [Take i lk]" if "ctl t i = Spin lk" "own lk = None" for i lk
    using that lock_relD(1) [OF o(2), of lk] by (simp add: protocol_defs test_and_set_def Let_def)
  then show ?thesis using o spin.holds_owner [OF o(2)] lock_relD(1) [OF o(2)] by blast
qed

text \<open>CPU 1 takes \<^verbatim>\<open>kmem.lock\<close> and gives it back while CPU 0 spins on it.\<close>

definition handover_schedule :: "laction list" where
  "handover_schedule = [A_enter 1 L_kmem, A_enter 0 L_kmem, A_swap 1, A_swap 0, A_owner 1, A_clear 1 L_kmem, A_swap 0, A_word 1]"

lemma handover_run:
  "\<exists>t. lock_run handover_schedule idle_sys = Some ([Take 1 L_kmem, Acquired 1 L_kmem, Releasing 1 L_kmem, Drop 1 L_kmem], t) \<and> ctl t 0 = Spin L_kmem"
  by (simp add: handover_schedule_def run_simps lock_release_word_def cpuid_def)

theorem spinlock_refines_mutex_witness:
  "\<exists>t. lock_run handover_schedule idle_sys = Some ([Take 1 L_kmem, Acquired 1 L_kmem, Releasing 1 L_kmem, Drop 1 L_kmem], t) \<and>
     locked (locks t L_kmem) = 0 \<and> shown (A_swap 0) t = [Take 0 L_kmem]"
proof -
  obtain t where t: "lock_run handover_schedule idle_sys = Some ([Take 1 L_kmem, Acquired 1 L_kmem, Releasing 1 L_kmem, Drop 1 L_kmem], t)"
    "ctl t 0 = Spin L_kmem" using handover_run by blast
  from spinlock_refines_mutex [OF idle_sys_init t(1)] t show ?thesis by auto
qed

end
