(* ===== verification/CString.thy ===== *)
theory CString
  imports Prelude
begin

text \<open>
  \<^verbatim>\<open>kernel/string.c\<close>. Memory is a function from 64-bit addresses to bytes. The functions
  that write through possibly overlapping pointers (\<^verbatim>\<open>memset\<close>, \<^verbatim>\<open>memmove\<close>, \<^verbatim>\<open>memcpy\<close>) act on
  memory; the string functions act on the array a \<^verbatim>\<open>char *\<close> points to, as a function from
  offsets to bytes, so that they also apply to names held in disk blocks. Word accesses to
  memory (little endian) are at the end.
\<close>

unbundle bit_operations_syntax

type_synonym memory = "uint64 \<Rightarrow> uint8"
type_synonym cstring = "nat \<Rightarrow> uint8"

section \<open>Definitions\<close>

definition memset :: "uint64 \<Rightarrow> uint32 \<Rightarrow> uint32 \<Rightarrow> memory \<Rightarrow> memory" where
  "memset dst c n m = fold (\<lambda>i m. m(dst + word_of_nat i := ucast c)) [0..<unat n] m"

fun memcmp_loop :: "memory \<Rightarrow> uint64 \<Rightarrow> uint64 \<Rightarrow> nat \<Rightarrow> int" where
  "memcmp_loop m s1 s2 0 = 0"
| "memcmp_loop m s1 s2 (Suc n) =
     (if m s1 \<noteq> m s2 then uint (m s1) - uint (m s2) else memcmp_loop m (s1 + 1) (s2 + 1) n)"

definition memcmp :: "uint64 \<Rightarrow> uint64 \<Rightarrow> uint32 \<Rightarrow> memory \<Rightarrow> int" where
  "memcmp v1 v2 n m = memcmp_loop m v1 v2 (unat n)"

fun memmove_up :: "uint64 \<Rightarrow> uint64 \<Rightarrow> nat \<Rightarrow> memory \<Rightarrow> memory" where
  "memmove_up d s 0 m = m"
| "memmove_up d s (Suc n) m = memmove_up (d + 1) (s + 1) n (m(d := m s))"

fun memmove_down :: "uint64 \<Rightarrow> uint64 \<Rightarrow> nat \<Rightarrow> memory \<Rightarrow> memory" where
  "memmove_down d s 0 m = m"
| "memmove_down d s (Suc n) m = memmove_down (d - 1) (s - 1) n (m(d - 1 := m (s - 1)))"

definition memmove :: "uint64 \<Rightarrow> uint64 \<Rightarrow> uint32 \<Rightarrow> memory \<Rightarrow> memory" where
  "memmove dst src n m =
     (if n = 0 then m
      else if src < dst \<and> src + ucast n > dst
      then memmove_down (dst + ucast n) (src + ucast n) (unat n) m
      else memmove_up dst src (unat n) m)"

definition memcpy :: "uint64 \<Rightarrow> uint64 \<Rightarrow> uint32 \<Rightarrow> memory \<Rightarrow> memory" where
  "memcpy dst src n m = memmove dst src n m"

fun strncmp_from :: "nat \<Rightarrow> cstring \<Rightarrow> cstring \<Rightarrow> nat \<Rightarrow> int" where
  "strncmp_from i p q 0 = 0"
| "strncmp_from i p q (Suc n) =
     (if p i \<noteq> 0 \<and> p i = q i then strncmp_from (Suc i) p q n else uint (p i) - uint (q i))"

definition strncmp :: "cstring \<Rightarrow> cstring \<Rightarrow> nat \<Rightarrow> int" where
  "strncmp p q n = strncmp_from 0 p q n"

fun strncpy_zero :: "nat \<Rightarrow> cstring \<Rightarrow> nat \<Rightarrow> cstring" where
  "strncpy_zero i s 0 = s"
| "strncpy_zero i s (Suc n) = strncpy_zero (Suc i) (s(i := 0)) n"

fun strncpy_copy :: "nat \<Rightarrow> cstring \<Rightarrow> cstring \<Rightarrow> nat \<Rightarrow> cstring" where
  "strncpy_copy i s t 0 = s"
| "strncpy_copy i s t (Suc n) =
     (let s = s(i := t i) in
      if t i \<noteq> 0 then strncpy_copy (Suc i) s t n else strncpy_zero (Suc i) s n)"

definition strncpy :: "cstring \<Rightarrow> cstring \<Rightarrow> int \<Rightarrow> cstring" where
  "strncpy s t n = strncpy_copy 0 s t (nat n)"

text \<open>
  The loop of \<^verbatim>\<open>safestrcpy\<close> with \<open>k\<close> the value of \<^verbatim>\<open>--n\<close>; the store after the loop hits the
  position behind the last byte written.
\<close>

fun safestrcpy_copy :: "nat \<Rightarrow> cstring \<Rightarrow> cstring \<Rightarrow> nat \<Rightarrow> cstring" where
  "safestrcpy_copy i s t 0 = s(i := 0)"
| "safestrcpy_copy i s t (Suc k) =
     (let s = s(i := t i) in
      if t i \<noteq> 0 then safestrcpy_copy (Suc i) s t k else s(Suc i := 0))"

definition safestrcpy :: "cstring \<Rightarrow> cstring \<Rightarrow> int \<Rightarrow> cstring" where
  "safestrcpy s t n = (if n \<le> 0 then s else safestrcpy_copy 0 s t (nat (n - 1)))"

partial_function (option) strlen_from :: "nat \<Rightarrow> cstring \<Rightarrow> nat option" where
  "strlen_from n s = (if s n = 0 then Some n else strlen_from (Suc n) s)"

definition strlen :: "cstring \<Rightarrow> nat option" where
  "strlen s = strlen_from 0 s"

text \<open>The array at an address.\<close>

definition chars_at :: "memory \<Rightarrow> uint64 \<Rightarrow> cstring" where
  "chars_at m p = (\<lambda>i. m (p + word_of_nat i))"

section \<open>Word accesses\<close>

text \<open>
  A C load or store of an integer of \<open>k\<close> bytes reads or writes its bytes in little-endian
  order: \<open>le_word g k\<close> is the integer whose bytes are \<open>g 0, ..., g (k - 1)\<close>.
\<close>

definition le_word :: "(nat \<Rightarrow> uint8) \<Rightarrow> nat \<Rightarrow> 'a::len word" where
  "le_word g k = foldr (\<lambda>i w. push_bit 8 w OR ucast (g i)) [0..<k] 0"

definition le_byte :: "'a::len word \<Rightarrow> nat \<Rightarrow> uint8" where
  "le_byte v i = ucast (drop_bit (8 * i) v)"

definition load64 :: "memory \<Rightarrow> uint64 \<Rightarrow> uint64" where
  "load64 m a = le_word (chars_at m a) 8"

definition store64 :: "uint64 \<Rightarrow> uint64 \<Rightarrow> memory \<Rightarrow> memory" where
  "store64 a v m = fold (\<lambda>i m. m(a + word_of_nat i := le_byte v i)) [0..<8] m"

section \<open>Memory functions\<close>

lemma store_loop:
  assumes "n < 2 ^ 64"
  shows "fold (\<lambda>i m. m(dst + word_of_nat i := f i)) [0..<n] m a =
    (if unat (a - dst) < n then f (unat (a - dst)) else m (a :: uint64))"
  using assms
proof (induction n)
  case (Suc n)
  then have "a = dst + word_of_nat n \<longleftrightarrow> unat (a - dst) = n" by (intro word_offset_iff) simp
  then show ?case using Suc by (cases "unat (a - dst) = n") (simp_all add: less_Suc_eq)
qed simp

lemma memset_apply:
  "memset dst c n m a = (if unat (a - dst) < unat n then ucast c else m a)"
proof -
  have "unat n < 2 ^ 64" using unat_32_less [of n] by simp
  then show ?thesis unfolding memset_def by (rule store_loop)
qed

lemma memmove_up_apply:
  assumes "n < 2 ^ 64 - 1" and "\<And>k. 0 < k \<Longrightarrow> k < n \<Longrightarrow> s + word_of_nat k \<noteq> d"
  shows "memmove_up d s n m a = (if unat (a - d) < n then m (s + (a - d)) else m a)"
  using assms
proof (induction n arbitrary: d s m)
  case (Suc n)
  have "s + 1 + word_of_nat k \<noteq> d + 1" if "0 < k" "k < n" for k
    using Suc.prems(2) [of k] that by (simp add: algebra_simps)
  then have IH: "memmove_up (d + 1) (s + 1) n m' a =
      (if unat (a - (d + 1)) < n then m' (s + 1 + (a - (d + 1))) else m' a)" for m'
    using Suc.prems(1) by (intro Suc.IH) simp_all
  have ne: "s + (a - d) \<noteq> d" if "a \<noteq> d" "unat (a - (d + 1)) < n" 
  proof -
    have "unat (a - d) < Suc n" using that offset_Suc [of a d n] by simp
    moreover have "unat (a - d) \<noteq> 0" using that by (simp add: unat_eq_0)
    ultimately show ?thesis using Suc.prems(2) [of "unat (a - d)"] by simp
  qed
  have "\<not> unat (a - (d + 1)) < n" if "a = d" using that Suc.prems(1) by (simp add: unsigned_minus_1_eq_mask mask_eq_exp_minus_1)
  then show ?case using IH [of "m(d := m s)"] ne offset_Suc [of a d n]
    by (cases "a = d") (auto simp: algebra_simps)
qed simp

lemma memmove_down_apply:
  assumes "n < 2 ^ 64 - 1" and "\<And>k. 0 < k \<Longrightarrow> k < n \<Longrightarrow> s - word_of_nat k \<noteq> d"
  shows "memmove_down d s n m a = (if unat (d - 1 - a) < n then m (s - (d - a)) else m a)"
  using assms
proof (induction n arbitrary: d s m)
  case (Suc n)
  have "s - 1 - word_of_nat k \<noteq> d - 1" if "0 < k" "k < n" for k
    using Suc.prems(2) [of k] that by (simp add: algebra_simps)
  then have IH: "memmove_down (d - 1) (s - 1) n m' a =
      (if unat (d - 1 - 1 - a) < n then m' (s - 1 - (d - 1 - a)) else m' a)" for m'
    using Suc.prems(1) by (intro Suc.IH) simp_all
  have ne: "s - (d - a) \<noteq> d - 1" if "a \<noteq> d - 1" "unat (d - 1 - 1 - a) < n" 
  proof -
    have "unat (d - 1 - a) < Suc n" using that offset_Suc_down [of d a n] by simp
    moreover have "unat (d - 1 - a) \<noteq> 0" using that by (auto simp add: unat_eq_0)
    ultimately show ?thesis using Suc.prems(2) [of "unat (d - 1 - a)"] by (auto simp: algebra_simps)
  qed
  have "\<not> unat (d - 1 - 1 - a) < n" if "a = d - 1" using that Suc.prems(1) by (simp add: unsigned_minus_1_eq_mask mask_eq_exp_minus_1)
  then show ?case using IH [of "m(d - 1 := m (s - 1))"] ne offset_Suc_down [of d a n] by (auto simp: algebra_simps)
qed simp

text \<open>
  \<^verbatim>\<open>memmove\<close> copies correctly also when the regions overlap, provided neither wraps around
  the address space.
\<close>

lemma memmove_apply:
  assumes "unat src + unat n < 2 ^ 64" "unat dst + unat n < 2 ^ 64"
  shows "memmove dst src n m a = (if unat (a - dst) < unat n then m (src + (a - dst)) else m a)"
proof -
  have n: "unat n < 2 ^ 64 - 1" and u: "unat (ucast n :: uint64) = unat n"
    using unat_32_less [of n] by (simp_all add: unsigned_ucast_eq take_bit_nat_eq_self)
  consider "n = 0" | "n \<noteq> 0" "src < dst" "dst < src + ucast n" | "n \<noteq> 0" "\<not> (src < dst \<and> dst < src + ucast n)" by blast
  then show ?thesis
  proof cases
    case 2
    have "src + ucast n - word_of_nat k \<noteq> dst + ucast n" if "k < unat n" for k
    proof
      assume "src + ucast n - word_of_nat k = dst + ucast n"
      then have "src = dst + word_of_nat k" by (simp add: algebra_simps)
      then have "unat src = unat dst + k" using assms that by (simp add: unat_word_ariths unat_of_nat)
      then show False using 2 by (simp add: word_less_nat_alt)
    qed
    moreover have "unat (dst + ucast n - 1 - a) < unat n \<longleftrightarrow> unat (a - dst) < unat n"
      using unat_flip [of "ucast n" "a - dst"] 2 u by (simp add: algebra_simps unsigned_0 flip: unat_eq_0)
    ultimately show ?thesis using 2 n memmove_down_apply [of "unat n" "src + ucast n" "dst + ucast n" m a]
      by (simp add: memmove_def algebra_simps)
  next
    case 3
    have "src + word_of_nat k \<noteq> dst" if "0 < k" "k < unat n" for k
    proof
      assume d: "src + word_of_nat k = dst"
      then have "unat dst = unat src + k" using assms that by (auto simp: unat_word_ariths unat_of_nat)
      moreover have "unat (src + ucast n) = unat src + unat n" using assms u by (simp add: unat_word_ariths)
      ultimately show False using 3 that by (simp add: word_less_nat_alt)
    qed
    then show ?thesis using 3 n memmove_up_apply [of "unat n" src dst m a]
      by (auto simp add: memmove_def)
  qed (simp add: memmove_def)
qed

section \<open>Loads and stores\<close>

lemma bit_le_word_from:
  "bit (foldr (\<lambda>i w. push_bit 8 w OR ucast (g i :: uint8)) [j..<j + k] (0 :: 'a::len word)) n \<longleftrightarrow>
     n < 8 * k \<and> n < LENGTH('a) \<and> bit (g (j + n div 8)) (n mod 8)"
proof (induction k arbitrary: j n)
  case (Suc k)
  have u: "[j..<j + Suc k] = j # [Suc j..<Suc j + k]" by (simp add: upt_rec [of j] del: upt_Suc)
  have g: "\<not> bit (g j) n" if "8 \<le> n" using bit_imp_le_length [of "g j" n] that by auto
  show ?case unfolding u foldr.simps o_apply bit_or_iff bit_push_bit_iff bit_ucast_iff Suc.IH
    using g by (cases "n < 8") (auto simp: le_div_geq le_mod_geq not_less)
qed simp

lemma bit_le_word:
  "bit (le_word g k :: 'a::len word) n \<longleftrightarrow> n < 8 * k \<and> n < LENGTH('a) \<and> bit (g (n div 8)) (n mod 8)"
  using bit_le_word_from [of g 0 k n] by (simp add: le_word_def)

lemma le_word_bytes:
  assumes "\<And>i. i < k \<Longrightarrow> g i = le_byte v i" and "LENGTH('a) \<le> 8 * k"
  shows "le_word g k = (v :: 'a::len word)"
proof (rule bit_word_eqI)
  fix n assume n: "n < LENGTH('a)"
  then have "n div 8 < k" using assms(2) by linarith
  then show "bit (le_word g k :: 'a word) n = bit v n"
    using n assms by (simp add: bit_le_word le_byte_def bit_ucast_iff bit_drop_bit_eq)
qed

lemma le_word_cong: "(\<And>i. i < k \<Longrightarrow> g i = g' i) \<Longrightarrow> le_word g k = le_word g' k"
  unfolding le_word_def by (rule foldr_cong) auto

lemma le_word_zero: "(\<And>i. i < k \<Longrightarrow> g i = 0) \<Longrightarrow> le_word g k = (0 :: 'a::len word)"
  by (rule bit_word_eqI) (auto simp: bit_le_word)

lemma store64_apply:
  "store64 a v m x = (if unat (x - a) < 8 then le_byte v (unat (x - a)) else m x)"
  unfolding store64_def by (rule store_loop) simp

lemma load64_store64 [simp]: "load64 (store64 a v m) a = v"
  unfolding load64_def chars_at_def by (rule le_word_bytes) (simp_all add: store64_apply unat_of_nat)

lemma load64_cong: "(\<And>i. i < 8 \<Longrightarrow> m (a + word_of_nat i) = m' (a + word_of_nat i)) \<Longrightarrow> load64 m a = load64 m' a"
  unfolding load64_def chars_at_def by (rule le_word_cong) simp

lemma load64_store64_other:
  assumes "\<And>i. i < 8 \<Longrightarrow> 8 \<le> unat (b + word_of_nat i - a)"
  shows "load64 (store64 a v m) b = load64 m b"
  by (rule load64_cong) (use assms leD in \<open>auto simp: store64_apply\<close>)

lemma load64_zero: "(\<And>i. i < 8 \<Longrightarrow> m (a + word_of_nat i) = 0) \<Longrightarrow> load64 m a = 0"
  unfolding load64_def chars_at_def by (rule le_word_zero) simp

section \<open>Strings\<close>

lemma strncmp_from_zero_iff:
  "strncmp_from i p q n = 0 \<longleftrightarrow>
     (\<forall>k < n. p (i + k) = q (i + k) \<or> (\<exists>l < k. p (i + l) = 0 \<and> q (i + l) = 0))"
proof (induction n arbitrary: i)
  case (Suc n)
  have "uint (p i) - uint (q i) = 0 \<longleftrightarrow> p i = q i" by (simp add: word_uint_eq_iff)
  then show ?case unfolding strncmp_from.simps All_less_Suc2 Ex_less_Suc2
    using Suc [of "Suc i"] by (cases "p i = q i") (auto simp: less_Suc_eq_0_disj)
qed simp

lemma strlen_from_eq:
  "\<lbrakk>s n = 0; i \<le> n; \<And>k. i \<le> k \<Longrightarrow> k < n \<Longrightarrow> s k \<noteq> 0\<rbrakk> \<Longrightarrow> strlen_from i s = Some n"
proof (induction "n - i" arbitrary: i)
  case 0
  then show ?case by (simp add: strlen_from.simps)
next
  case (Suc d)
  then show ?case by (subst strlen_from.simps) auto
qed

lemma strlen_from_SomeD:
  "strlen_from i s = Some n \<Longrightarrow> i \<le> n \<and> s n = 0 \<and> (\<forall>k. i \<le> k \<and> k < n \<longrightarrow> s k \<noteq> 0)"
proof (rule strlen_from.raw_induct [of "\<lambda>i s n. i \<le> n \<and> s n = 0 \<and> (\<forall>k. i \<le> k \<and> k < n \<longrightarrow> s k \<noteq> 0)"])
  fix f and i :: nat and s :: cstring and n :: nat
  assume IH: "\<And>i s n. f i s = Some n \<Longrightarrow> i \<le> n \<and> s n = 0 \<and> (\<forall>k. i \<le> k \<and> k < n \<longrightarrow> s k \<noteq> 0)"
    and n: "(if s i = 0 then Some i else f (Suc i) s) = Some n"
  show "i \<le> n \<and> s n = 0 \<and> (\<forall>k. i \<le> k \<and> k < n \<longrightarrow> s k \<noteq> 0)"
  proof (cases "s i = 0")
    case False
    with n IH have "Suc i \<le> n \<and> s n = 0 \<and> (\<forall>k. Suc i \<le> k \<and> k < n \<longrightarrow> s k \<noteq> 0)" by simp
    with False show ?thesis by (metis Suc_leD Suc_leI le_neq_implies_less)
  qed (use n in auto)
qed

lemma strlen_iff: "strlen s = Some n \<longleftrightarrow> s n = 0 \<and> (\<forall>k<n. s k \<noteq> 0)"
proof
  show "strlen s = Some n \<Longrightarrow> s n = 0 \<and> (\<forall>k<n. s k \<noteq> 0)"
    using strlen_from_SomeD [of 0 s n] by (simp add: strlen_def)
qed (simp add: strlen_def strlen_from_eq)

lemma strncpy_zero_apply:
  "strncpy_zero i s n k = (if i \<le> k \<and> k < i + n then 0 else s k)"
  by (induction n arbitrary: i s) auto

text \<open>Position \<open>k\<close> lies behind the end of the source string.\<close>

definition past_end :: "cstring \<Rightarrow> nat \<Rightarrow> nat \<Rightarrow> bool" where
  "past_end t i k \<longleftrightarrow> (\<exists>l. i \<le> l \<and> l < k \<and> t l = 0)"

lemma past_end_step:
  assumes "i < k" shows "past_end t i k \<longleftrightarrow> t i = 0 \<or> past_end t (Suc i) k"
proof -
  have "i \<le> l \<longleftrightarrow> l = i \<or> Suc i \<le> l" for l by auto
  then show ?thesis using assms unfolding past_end_def by metis
qed

lemma past_end_same [simp]: "\<not> past_end t i i"
  by (auto simp: past_end_def)

lemma past_end_first:
  assumes "past_end t 0 k" shows "\<exists>l<k. t l = 0 \<and> \<not> past_end t 0 l"
proof -
  have "\<exists>l. l < k \<and> t l = 0" using assms by (auto simp: past_end_def)
  then obtain l where "l < k \<and> t l = 0" "\<forall>l'<l. \<not> (l' < k \<and> t l' = 0)"
    unfolding exists_least_iff [of "\<lambda>l. l < k \<and> t l = 0"] by blast
  then show ?thesis by (intro exI [of _ l]) (auto simp: past_end_def)
qed

lemma strncpy_copy_apply:
  "strncpy_copy i s t n k = (if i \<le> k \<and> k < i + n then (if past_end t i k then 0 else t k) else s k)"
proof (induction n arbitrary: i s)
  case (Suc n)
  show ?case
  proof (cases "i < k")
    case True
    then show ?thesis using Suc.IH by (simp add: Let_def strncpy_zero_apply past_end_step Suc_le_eq)
  next
    case False
    then show ?thesis using Suc.IH by (cases "i = k") (simp_all add: Let_def strncpy_zero_apply)
  qed
qed auto

lemma safestrcpy_copy_spec:
  "\<exists>e. i \<le> e \<and> e \<le> i + n \<and> safestrcpy_copy i s t n e = 0 \<and> (e = i + n \<or> t e = 0) \<and>
     (\<forall>k. i \<le> k \<and> k < e \<longrightarrow> safestrcpy_copy i s t n k = t k \<and> t k \<noteq> 0) \<and>
     (\<forall>k. k < i \<or> i + n < k \<longrightarrow> safestrcpy_copy i s t n k = s k)"
proof (induction n arbitrary: i s)
  case (Suc n)
  show ?case
  proof (cases "t i = 0")
    case True
    then show ?thesis by (intro exI [of _ i]) (simp add: Let_def)
  next
    case False
    let ?r = "safestrcpy_copy (Suc i) (s(i := t i)) t n"
    obtain e where e: "Suc i \<le> e" "e \<le> Suc i + n" "?r e = 0" "e = Suc i + n \<or> t e = 0"
      "\<forall>k. Suc i \<le> k \<and> k < e \<longrightarrow> ?r k = t k \<and> t k \<noteq> 0"
      "\<forall>k. k < Suc i \<or> Suc i + n < k \<longrightarrow> ?r k = (s(i := t i)) k"
      using Suc.IH [of "Suc i" "s(i := t i)"] by blast
    have "?r k = t k \<and> t k \<noteq> 0" if "i \<le> k" "k < e" for k
      using e(5,6) that False by (cases "k = i") auto
    with e False show ?thesis by (intro exI [of _ e]) (simp add: Let_def)
  qed
qed (auto intro: exI)

section \<open>The string library's promises\<close>

text \<open>
  C10. \<^verbatim>\<open>memmove\<close> (and \<^verbatim>\<open>memcpy\<close>, its alias) copies \<open>n\<close> bytes as if through a temporary
  buffer, whatever the overlap of source and destination, and changes no other byte, for
  regions that do not wrap around the address space.
\<close>

theorem memmove_correct:
  assumes "unat src + unat n < 2 ^ 64" and "unat dst + unat n < 2 ^ 64"
  shows "memmove dst src n m = (\<lambda>a. if unat (a - dst) < unat n then m (src + (a - dst)) else m a) \<and>
    memcpy dst src n m = memmove dst src n m"
  using memmove_apply [OF assms] by (auto simp: memcpy_def)

theorem memmove_correct_witness:
  "memmove 101 100 3 (\<lambda>a. ucast a) 103 = 102 \<and> memmove 100 101 3 (\<lambda>a. ucast a) 102 = 103"
  using memmove_correct [of 100 3 101 "\<lambda>a. ucast a"] memmove_correct [of 101 3 100 "\<lambda>a. ucast a"] by simp

text \<open>
  C15. \<^verbatim>\<open>safestrcpy\<close> with a positive size always leaves a NUL-terminated prefix of the source:
  the whole source if it fits, its first \<open>n - 1\<close> bytes otherwise; nothing at or beyond
  position \<open>n\<close> is written.
\<close>

theorem safestrcpy_terminates:
  assumes "0 < n"
  shows "\<exists>e < nat n. strlen (safestrcpy s t n) = Some e \<and> (\<forall>k<e. safestrcpy s t n k = t k) \<and>
    (e = nat n - 1 \<or> t e = 0) \<and> (\<forall>k \<ge> nat n. safestrcpy s t n k = s k)"
proof -
  obtain e where e: "e \<le> nat (n - 1)" "safestrcpy_copy 0 s t (nat (n - 1)) e = 0" "e = nat (n - 1) \<or> t e = 0"
    "\<forall>k<e. safestrcpy_copy 0 s t (nat (n - 1)) k = t k \<and> t k \<noteq> 0"
    "\<forall>k>nat (n - 1). safestrcpy_copy 0 s t (nat (n - 1)) k = s k"
    using safestrcpy_copy_spec [of 0 "nat (n - 1)" s t] by auto
  have "safestrcpy s t n = safestrcpy_copy 0 s t (nat (n - 1))" using assms by (simp add: safestrcpy_def)
  with e assms show ?thesis by (intro exI [of _ e]) (auto simp: strlen_iff)
qed

theorem safestrcpy_terminates_witness:
  "\<exists>e < 4. strlen (safestrcpy (\<lambda>_. 9) (\<lambda>i. if i < 10 then 7 else 0) 4) = Some e"
  using safestrcpy_terminates [of 4 "\<lambda>_. 9" "\<lambda>i. if i < 10 then 7 else 0"] by auto

text \<open>
  C16. A name stored in a fixed-size field with \<^verbatim>\<open>strncpy\<close> is found again by \<^verbatim>\<open>strncmp\<close> over
  that field, and over a field of that size \<^verbatim>\<open>strncmp\<close> identifies exactly the arrays that
  agree up to their first NUL.
\<close>

theorem strncpy_strncmp:
  "strncmp (strncpy s t (int n)) t n = 0 \<and>
   (strncmp p q n = 0 \<longleftrightarrow> (\<forall>k<n. p k = q k \<or> (\<exists>l<k. p l = 0 \<and> q l = 0)))"
proof (rule conjI)
  show "strncmp (strncpy s t (int n)) t n = 0"
    unfolding strncmp_def strncpy_def strncmp_from_zero_iff
  proof (intro allI impI)
    fix k assume k: "k < n"
    let ?r = "strncpy_copy 0 s t (nat (int n))"
    show "?r (0 + k) = t (0 + k) \<or> (\<exists>l<k. ?r (0 + l) = 0 \<and> t (0 + l) = 0)"
    proof (cases "past_end t 0 k")
      case True
      then obtain l where "l < k" "t l = 0" "\<not> past_end t 0 l" using past_end_first by blast
      with k show ?thesis by (intro disjI2 exI [of _ l]) (simp add: strncpy_copy_apply)
    qed (use k in \<open>simp add: strncpy_copy_apply\<close>)
  qed
qed (simp add: strncmp_def strncmp_from_zero_iff)

theorem strncpy_strncmp_witness:
  "strncmp (strncpy (\<lambda>_. 9) (\<lambda>i. if i < 3 then 65 else 0) 14) (\<lambda>i. if i < 3 then 65 else 0) 14 = 0"
  using strncpy_strncmp [of "\<lambda>_. 9" "\<lambda>i. if i < 3 then 65 else 0" 14 "\<lambda>_. 0" "\<lambda>_. 0"] by simp

end
