(* ===== verification/Riscv.thy ===== *)
theory Riscv
  imports Prelude
begin

text \<open>
  The page and page-table macros of \<^verbatim>\<open>kernel/riscv.h\<close> and the physical and virtual memory
  layout of \<^verbatim>\<open>kernel/memlayout.h\<close>, with the facts about them that the allocator and the
  virtual memory code rely on: rounding, the encoding of page-table entries, and the
  decomposition of a virtual address into three indices and an offset.
\<close>

unbundle bit_operations_syntax

section \<open>Definitions\<close>

definition PGSIZE :: uint64 where "PGSIZE = 4096"
definition PGSHIFT :: nat where "PGSHIFT = 12"

definition PGROUNDUP :: "uint64 \<Rightarrow> uint64" where
  "PGROUNDUP sz = (sz + PGSIZE - 1) AND NOT (PGSIZE - 1)"

definition PGROUNDDOWN :: "uint64 \<Rightarrow> uint64" where
  "PGROUNDDOWN a = a AND NOT (PGSIZE - 1)"

definition PTE_V :: uint64 where "PTE_V = push_bit 0 1"
definition PTE_R :: uint64 where "PTE_R = push_bit 1 1"
definition PTE_W :: uint64 where "PTE_W = push_bit 2 1"
definition PTE_X :: uint64 where "PTE_X = push_bit 3 1"
definition PTE_U :: uint64 where "PTE_U = push_bit 4 1"

definition PA2PTE :: "uint64 \<Rightarrow> uint64" where
  "PA2PTE pa = push_bit 10 (drop_bit 12 pa)"

definition PTE2PA :: "uint64 \<Rightarrow> uint64" where
  "PTE2PA pte = push_bit 12 (drop_bit 10 pte)"

definition PTE_FLAGS :: "uint64 \<Rightarrow> uint64" where
  "PTE_FLAGS pte = pte AND 0x3FF"

definition PXMASK :: uint64 where "PXMASK = 0x1FF"

definition PXSHIFT :: "nat \<Rightarrow> nat" where
  "PXSHIFT level = PGSHIFT + 9 * level"

definition PX :: "nat \<Rightarrow> uint64 \<Rightarrow> uint64" where
  "PX level va = drop_bit (PXSHIFT level) va AND PXMASK"

definition MAXVA :: uint64 where "MAXVA = push_bit (9 + 9 + 9 + 12 - 1) 1"

definition SATP_SV39 :: uint64 where "SATP_SV39 = push_bit 60 8"

definition MAKE_SATP :: "uint64 \<Rightarrow> uint64" where
  "MAKE_SATP pagetable = SATP_SV39 OR drop_bit 12 pagetable"

definition UART0 :: uint64 where "UART0 = 0x10000000"
definition VIRTIO0 :: uint64 where "VIRTIO0 = 0x10001000"
definition PLIC :: uint64 where "PLIC = 0x0c000000"
definition KERNBASE :: uint64 where "KERNBASE = 0x80000000"
definition PHYSTOP :: uint64 where "PHYSTOP = KERNBASE + 128 * 1024 * 1024"
definition TRAMPOLINE :: uint64 where "TRAMPOLINE = MAXVA - PGSIZE"

definition KSTACK :: "uint64 \<Rightarrow> uint64" where
  "KSTACK p = TRAMPOLINE - (p + 1) * 2 * PGSIZE"

definition TRAPFRAME :: uint64 where "TRAPFRAME = TRAMPOLINE - PGSIZE"

section \<open>Rounding\<close>

definition aligned :: "uint64 \<Rightarrow> bool" where
  "aligned a \<longleftrightarrow> a mod PGSIZE = 0"

lemma aligned_iff: "aligned a \<longleftrightarrow> take_bit 12 a = 0"
  by (simp add: aligned_def PGSIZE_def take_bit_eq_mod)

lemma PGROUNDDOWN_eq: "PGROUNDDOWN a = push_bit 12 (drop_bit 12 a)"
proof -
  have "PGSIZE - 1 = mask 12" by (simp add: PGSIZE_def mask_eq_exp_minus_1)
  then show ?thesis
    by (auto simp: PGROUNDDOWN_def bit_and_iff bit_not_iff bit_mask_iff bit_push_bit_iff bit_drop_bit_eq
        intro!: bit_word_eqI)
qed

lemma unat_push_drop: "unat (push_bit 12 (drop_bit 12 a) :: uint64) = unat a div 4096 * 4096"
proof -
  have "unat a div 4096 * 4096 < 2 ^ 64"
    using unat_64_less [of a] div_times_less_eq_dividend [of "unat a" 4096] by linarith
  then have "unat (a div 4096 * 4096) = unat (a div 4096) * unat (4096 :: uint64)"
    by (intro unat_mult_lem [THEN iffD1]) (simp add: unat_div)
  then show ?thesis by (simp add: push_bit_eq_mult drop_bit_eq_div unat_div)
qed

lemma unat_PGROUNDDOWN: "unat (PGROUNDDOWN a) = unat a div 4096 * 4096"
  by (simp add: PGROUNDDOWN_eq unat_push_drop)

lemma PGROUNDUP_eq: "PGROUNDUP a = PGROUNDDOWN (a + 4095)"
  by (simp add: PGROUNDUP_def PGROUNDDOWN_def PGSIZE_def add.commute)

lemma unat_PGROUNDUP:
  assumes "unat a + 4095 < 2 ^ 64"
  shows "unat (PGROUNDUP a) = (unat a + 4095) div 4096 * 4096"
  using assms by (simp add: PGROUNDUP_eq unat_PGROUNDDOWN unat_word_ariths)

lemma aligned_unat: "aligned a \<longleftrightarrow> unat a mod 4096 = 0"
proof -
  have "unat (a mod 4096) = unat a mod 4096" by (simp add: unat_mod)
  then show ?thesis by (simp add: aligned_def PGSIZE_def flip: unat_eq_0)
qed

lemma aligned_PGROUND [simp]: "aligned (PGROUNDDOWN a)" "aligned (PGROUNDUP a)"
  by (simp_all add: aligned_unat unat_PGROUNDDOWN PGROUNDUP_eq)

lemma aligned_add_PGSIZE [simp]: "aligned (a + 4096) \<longleftrightarrow> aligned a"
  by (simp add: aligned_unat unat_word_ariths mod_mod_cancel)

lemma take_bit_small: "w < 2 ^ k \<Longrightarrow> take_bit k w = (w :: uint64)"
  by (simp add: take_bit_eq_mod mod_word_less)

section \<open>Page-table entries\<close>

lemma PTE2PA_PA2PTE:
  assumes "aligned pa" "flags < 1024"
  shows "PTE2PA (PA2PTE pa OR flags) = pa"
proof (rule bit_word_eqI)
  fix n assume "n < LENGTH(64)"
  have "\<not> bit pa n" if "n < 12"
  proof -
    have "bit (take_bit 12 pa) n = bit pa n" using that by (simp add: bit_take_bit_iff)
    then show ?thesis using assms(1) by (simp add: aligned_iff)
  qed
  moreover have "\<not> bit flags k" if "10 \<le> k" for k
  proof -
    have "take_bit 10 flags = flags" using assms(2) by (intro take_bit_small) simp
    then show ?thesis using that by (metis bit_take_bit_iff not_le)
  qed
  ultimately show "bit (PTE2PA (PA2PTE pa OR flags)) n = bit pa n"
    using \<open>n < LENGTH(64)\<close>
    by (cases "n < 12") (auto simp: PTE2PA_def PA2PTE_def bit_push_bit_iff bit_drop_bit_eq bit_or_iff)
qed

lemma aligned_PTE2PA [simp]: "aligned (PTE2PA pte)"
  by (auto simp: aligned_iff PTE2PA_def bit_take_bit_iff bit_push_bit_iff intro!: bit_word_eqI)

lemma PTE_FLAGS_PA2PTE:
  assumes "flags < 1024" shows "PTE_FLAGS (PA2PTE pa OR flags) = flags"
proof -
  have m: "(0x3FF :: uint64) = mask 10" by (simp add: mask_eq_exp_minus_1)
  have "take_bit 10 (PA2PTE pa) = 0"
    by (auto simp: PA2PTE_def bit_take_bit_iff bit_push_bit_iff intro!: bit_word_eqI)
  then show ?thesis
    using assms take_bit_small [of flags 10]
    by (simp add: PTE_FLAGS_def m flip: take_bit_eq_mask)
qed

lemma pte_flag_bits:
  "pte AND PTE_V \<noteq> 0 \<longleftrightarrow> bit pte 0" "pte AND PTE_R \<noteq> 0 \<longleftrightarrow> bit pte 1" "pte AND PTE_W \<noteq> 0 \<longleftrightarrow> bit pte 2"
  "pte AND PTE_X \<noteq> 0 \<longleftrightarrow> bit pte 3" "pte AND PTE_U \<noteq> 0 \<longleftrightarrow> bit pte 4"
proof -
  have "pte AND push_bit k 1 \<noteq> 0 \<longleftrightarrow> bit pte k" for k
    by (simp add: push_bit_eq_mult and_exp_eq_0_iff_not_bit)
  then show "pte AND PTE_V \<noteq> 0 \<longleftrightarrow> bit pte 0" "pte AND PTE_R \<noteq> 0 \<longleftrightarrow> bit pte 1"
    "pte AND PTE_W \<noteq> 0 \<longleftrightarrow> bit pte 2" "pte AND PTE_X \<noteq> 0 \<longleftrightarrow> bit pte 3" "pte AND PTE_U \<noteq> 0 \<longleftrightarrow> bit pte 4"
    unfolding PTE_V_def PTE_R_def PTE_W_def PTE_X_def PTE_U_def by blast+
qed

section \<open>Indices of a virtual address\<close>

lemma PX_eq: "PX l va = take_bit 9 (drop_bit (12 + 9 * l) va)"
proof -
  have "(0x1FF :: uint64) = mask 9" by (simp add: mask_eq_exp_minus_1)
  then show ?thesis by (simp add: PX_def PXMASK_def PXSHIFT_def PGSHIFT_def take_bit_eq_mask)
qed

lemma PX_less: "PX l va < 512"
  using word_mod_less_divisor [of 512 "drop_bit (12 + 9 * l) va"] by (simp add: PX_eq take_bit_eq_mod)

lemma bit_PX: "bit (PX l va) n \<longleftrightarrow> n < 9 \<and> bit va (12 + 9 * l + n)"
  by (simp add: PX_eq bit_take_bit_iff bit_drop_bit_eq)

lemma below_MAXVA: "va < MAXVA \<Longrightarrow> 38 \<le> n \<Longrightarrow> \<not> bit va n"
proof -
  assume "va < MAXVA" "38 \<le> n"
  then have "take_bit 38 va = va" by (intro take_bit_small) (simp add: MAXVA_def)
  then show ?thesis using \<open>38 \<le> n\<close> by (metis bit_take_bit_iff not_le)
qed

text \<open>The three indices determine the page of a virtual address.\<close>

lemma PX_inject:
  assumes "va < MAXVA" "va' < MAXVA" "aligned va" "aligned va'"
    and "\<And>l. l \<le> 2 \<Longrightarrow> PX l va = PX l va'"
  shows "va = va'"
proof (rule bit_word_eqI)
  fix n
  have lo: "\<not> bit a n" if "n < 12" "aligned a" for a
  proof -
    have "bit (take_bit 12 a) n = bit a n" using that by (simp add: bit_take_bit_iff)
    then show ?thesis using that by (simp add: aligned_iff)
  qed
  consider "n < 12" | "12 \<le> n" "n < 39" | "39 \<le> n" by linarith
  then show "bit va n = bit va' n"
  proof cases
    case 2
    define l where "l = (n - 12) div 9"
    have "l \<le> 2" "12 + 9 * l + (n - 12) mod 9 = n" "(n - 12) mod 9 < 9"
      using 2 unfolding l_def by (auto simp: )
    then show ?thesis using assms(5) [of l] bit_PX [of l va "(n - 12) mod 9"] bit_PX [of l va' "(n - 12) mod 9"]
      by simp
  qed (use assms lo below_MAXVA in auto)
qed

end
