(* ===== verification/Kalloc.thy ===== *)
theory Kalloc
  imports Machine CString Riscv
begin

text \<open>
  The physical page allocator, \<^verbatim>\<open>kernel/kalloc.c\<close>. The free list lives in the free pages
  themselves: the first eight bytes of a free page hold the address of the next one. The
  locale \<open>page_allocator\<close> is what the rest of the kernel relies on; its interpretation shows
  that \<^verbatim>\<open>kalloc\<close> and \<^verbatim>\<open>kfree\<close> provide it.
\<close>

section \<open>Definitions\<close>

text \<open>
  \<^verbatim>\<open>mem\<close> is physical memory, \<^verbatim>\<open>freelist\<close> is \<^verbatim>\<open>kmem.freelist\<close>, and \<^verbatim>\<open>kernel_end\<close> the address
  of the linker symbol \<^verbatim>\<open>end\<close>.
\<close>

record phys = machine +
  mem :: memory
  freelist :: uint64
  kernel_end :: uint64

definition kfree :: "uint64 \<Rightarrow> 'a phys_scheme \<Rightarrow> 'a phys_scheme res" where
  "kfree pa s =
     (if pa mod PGSIZE \<noteq> 0 \<or> pa < kernel_end s \<or> PHYSTOP \<le> pa then Inl (Panic ''kfree'')
      else let s = s\<lparr>mem := memset pa 1 (ucast PGSIZE) (mem s)\<rparr> in
        bindE (acquire L_kmem s) (\<lambda>s.
        let s = s\<lparr>mem := store64 pa (freelist s) (mem s)\<rparr>;
            s = s\<lparr>freelist := pa\<rparr> in
        release L_kmem s))"

definition kalloc :: "'a phys_scheme \<Rightarrow> (uint64 \<times> 'a phys_scheme) res" where
  "kalloc s =
     bindE (acquire L_kmem s) (\<lambda>s.
     let r = freelist s;
         s = (if r \<noteq> 0 then s\<lparr>freelist := load64 (mem s) r\<rparr> else s) in
     bindE (release L_kmem s) (\<lambda>s.
     let s = (if r \<noteq> 0 then s\<lparr>mem := memset r 5 (ucast PGSIZE) (mem s)\<rparr> else s) in
     Inr (r, s)))"

lemma kfree_range: "kfree pa s = Inr s' \<Longrightarrow> pa < PHYSTOP"
  by (auto simp: kfree_def not_le split: if_splits)

function freerange_from :: "uint64 \<Rightarrow> uint64 \<Rightarrow> 'a phys_scheme \<Rightarrow> 'a phys_scheme res" where
  "freerange_from p pa_end s =
     (if p + PGSIZE \<le> pa_end
      then bindE (kfree p s) (\<lambda>s. freerange_from (p + PGSIZE) pa_end s)
      else Inr s)"
  by pat_completeness auto

termination
proof (relation "measure (\<lambda>(p, _, _). unat PHYSTOP - unat p)")
  fix p pa_end :: uint64 and s s' :: "'a phys_scheme"
  assume "kfree p s = Inr s'"
  then have "unat p < unat PHYSTOP" using kfree_range word_less_nat_alt by blast
  then show "((p + PGSIZE, pa_end, s'), (p, pa_end, s)) \<in> measure (\<lambda>(p, _, _). unat PHYSTOP - unat p)"
    by (simp add: PHYSTOP_def KERNBASE_def PGSIZE_def unat_word_ariths)
qed simp

definition freerange :: "uint64 \<Rightarrow> uint64 \<Rightarrow> 'a phys_scheme \<Rightarrow> 'a phys_scheme res" where
  "freerange pa_start pa_end s = freerange_from (PGROUNDUP pa_start) pa_end s"

definition kinit :: "'a phys_scheme \<Rightarrow> 'a phys_scheme res" where
  "kinit s =
     (let s = initlock L_kmem ''kmem'' s in
      freerange (kernel_end s) PHYSTOP s)"

section \<open>Pages\<close>

text \<open>The page a byte address lies in, and the address of a byte of a page.\<close>

definition in_page :: "uint64 \<Rightarrow> uint64 \<Rightarrow> bool" where
  "in_page p a \<longleftrightarrow> unat (a - p) < 4096"

definition managed :: "uint64 \<Rightarrow> uint64 \<Rightarrow> bool" where
  "managed e p \<longleftrightarrow> aligned p \<and> e \<le> p \<and> p < PHYSTOP"

lemma memset_page:
  "memset p c (ucast PGSIZE) m a = (if in_page p a then ucast c else m a)"
  by (simp add: memset_apply in_page_def PGSIZE_def)

lemma in_page_iff:
  assumes "aligned p" shows "in_page p a \<longleftrightarrow> PGROUNDDOWN a = p"
proof -
  define k where "k = unat p div 4096"
  have k: "unat p = 4096 * k" using assms mult_div_mod_eq [of 4096 "unat p"] by (simp add: aligned_unat k_def)
  have lt: "k < 4503599627370496" using k unat_64_less [of p] by simp
  have "unat (a - p) < 4096 \<longleftrightarrow> unat a div 4096 = k"
  proof (cases "unat p \<le> unat a")
    case True
    then have "unat (a - p) = unat a - 4096 * k" by (simp add: unat_sub_if' k)
    then show ?thesis using True k mult_div_mod_eq [of 4096 "unat a"] mod_less_divisor [of 4096 "unat a"] by linarith
  next
    case False
    then have "unat (a - p) = unat a + 18446744073709551616 - 4096 * k" by (simp add: unat_sub_if' k)
    then show ?thesis using False k lt mult_div_mod_eq [of 4096 "unat a"] mod_less_divisor [of 4096 "unat a"] by linarith
  qed
  also have "\<dots> \<longleftrightarrow> unat (PGROUNDDOWN a) = unat p" by (simp add: unat_PGROUNDDOWN k)
  also have "\<dots> \<longleftrightarrow> PGROUNDDOWN a = p" by (rule word_unat_eq_iff [symmetric])
  finally show ?thesis by (simp add: in_page_def)
qed

lemma in_page_unique: "\<lbrakk>aligned p; aligned q; in_page p a; in_page q a\<rbrakk> \<Longrightarrow> p = q"
  by (simp add: in_page_iff)

lemma in_page_offset [simp]: "n < 4096 \<Longrightarrow> in_page p (p + word_of_nat n)"
  by (simp add: in_page_def unat_of_nat)

lemma in_page_slot: "off + 8 \<le> 4096 \<Longrightarrow> i < 8 \<Longrightarrow> in_page p (p + word_of_nat off + word_of_nat i)"
  using in_page_offset [of "off + i" p] by (simp add: add.assoc)

lemma load64_page:
  assumes "\<And>a. in_page p a \<Longrightarrow> m a = m' a" and "off + 8 \<le> 4096"
  shows "load64 m (p + word_of_nat off) = load64 m' (p + word_of_nat off)"
  using assms in_page_slot by (intro load64_cong) blast

lemma store64_page:
  assumes "\<not> in_page p a" "off + 8 \<le> 4096"
  shows "store64 (p + word_of_nat off) v m a = m a"
proof -
  have "\<not> unat (a - (p + word_of_nat off)) < 8"
  proof
    assume "unat (a - (p + word_of_nat off)) < 8"
    then have "in_page p (p + word_of_nat off + word_of_nat (unat (a - (p + word_of_nat off))))"
      using assms(2) by (rule in_page_slot [rotated])
    then show False using assms(1) by simp
  qed
  then show ?thesis by (simp add: store64_apply)
qed

lemma load64_store64_slot:
  assumes "i < 512" "j < 512" "i \<noteq> j"
  shows "load64 (store64 (p + word_of_nat (8 * i)) v m) (p + word_of_nat (8 * j)) = load64 m (p + word_of_nat (8 * j))"
proof (rule load64_store64_other)
  fix k :: nat assume k: "k < 8"
  have "p + word_of_nat (8 * j) + word_of_nat k - (p + word_of_nat (8 * i)) = word_of_nat (8 * j + k) - word_of_nat (8 * i)"
    by (simp add: algebra_simps)
  moreover have "unat (word_of_nat (8 * j + k) :: uint64) = 8 * j + k"
    by (rule unat_word_of_nat) (use assms k in simp)
  moreover have "unat (word_of_nat (8 * i) :: uint64) = 8 * i"
    by (rule unat_word_of_nat) (use assms in simp)
  ultimately show "8 \<le> unat (p + word_of_nat (8 * j) + word_of_nat k - (p + word_of_nat (8 * i)))"
    using assms k by (simp only: unat_sub_if') auto
qed

lemma load64_zero_page:
  assumes "\<And>a. in_page p a \<Longrightarrow> m a = 0" "off + 8 \<le> 4096"
  shows "load64 m (p + word_of_nat off) = 0"
  using assms in_page_slot by (intro load64_zero) blast

lemma managed_nonzero: "managed e p \<Longrightarrow> e \<noteq> 0 \<Longrightarrow> p \<noteq> 0"
  by (auto simp: managed_def)

section \<open>The free list\<close>

fun is_freelist :: "memory \<Rightarrow> uint64 \<Rightarrow> uint64 list \<Rightarrow> bool" where
  "is_freelist m p [] \<longleftrightarrow> p = 0"
| "is_freelist m p (q # qs) \<longleftrightarrow> p = q \<and> q \<noteq> 0 \<and> is_freelist m (load64 m q) qs"

definition kmem_inv :: "'a phys_scheme \<Rightarrow> uint64 list \<Rightarrow> bool" where
  "kmem_inv s ps \<longleftrightarrow> is_freelist (mem s) (freelist s) ps \<and> distinct ps \<and>
     (\<forall>p \<in> set ps. managed (kernel_end s) p) \<and> kernel_end s \<noteq> 0 \<and> lock_free L_kmem s \<and> cpu_ok s"

lemma is_freelist_frame:
  assumes "is_freelist m p ps" "\<And>q a. q \<in> set ps \<Longrightarrow> in_page q a \<Longrightarrow> m' a = m a"
  shows "is_freelist m' p ps"
  using assms
proof (induction ps arbitrary: p)
  case (Cons q qs)
  have "load64 m' q = load64 m q" using load64_page [of q m' m 0] Cons.prems(2) by fastforce
  with Cons show ?case by auto
qed simp

lemma kfree_eq:
  assumes "managed (kernel_end s) p" "lock_free L_kmem s" "cpu_ok s"
  shows "kfree p s = Inr (s\<lparr>mem := store64 p (freelist s) (memset p 1 (ucast PGSIZE) (mem s)), freelist := p,
     cpus := settled (hart s) (sie s) (cpus s)\<rparr>)"
proof -
  have "\<not> (p mod PGSIZE \<noteq> 0 \<or> p < kernel_end s \<or> PHYSTOP \<le> p)"
    using assms(1) by (auto simp: managed_def aligned_def)
  then show ?thesis using assms(2,3) by (simp add: kfree_def critical Let_def)
qed

lemma kfree_panics:
  assumes "\<not> managed (kernel_end s) p" shows "kfree p s = Inl (Panic ''kfree'')"
proof -
  have "p mod PGSIZE \<noteq> 0 \<or> p < kernel_end s \<or> PHYSTOP \<le> p"
    using assms unfolding managed_def aligned_def by (meson linorder_not_le)
  then show ?thesis unfolding kfree_def by (rule if_P)
qed

lemma kalloc_eq:
  assumes "lock_free L_kmem s" "cpu_ok s"
  shows "kalloc s = Inr (freelist s,
     if freelist s = 0 then s\<lparr>cpus := settled (hart s) (sie s) (cpus s)\<rparr>
     else s\<lparr>freelist := load64 (mem s) (freelist s), cpus := settled (hart s) (sie s) (cpus s),
            mem := memset (freelist s) 5 (ucast PGSIZE) (mem s)\<rparr>)"
  using assms by (simp add: kalloc_def critical Let_def)

text \<open>Allocation and release as operations on the list of free pages.\<close>

lemma kalloc_inv:
  assumes "kmem_inv s (p # ps)"
  shows "\<exists>s'. kalloc s = Inr (p, s') \<and> kmem_inv s' ps \<and> kernel_end s' = kernel_end s \<and>
    (\<forall>a. mem s' a = (if in_page p a then 5 else mem s a))"
proof -
  have i: "is_freelist (mem s) (load64 (mem s) p) ps" "freelist s = p" "p \<noteq> 0" "distinct (p # ps)"
    "\<forall>q \<in> set (p # ps). managed (kernel_end s) q" "lock_free L_kmem s" "cpu_ok s" "kernel_end s \<noteq> 0"
    using assms by (auto simp: kmem_inv_def)
  have "is_freelist (memset p 5 (ucast PGSIZE) (mem s)) (load64 (mem s) p) ps"
  proof (rule is_freelist_frame [OF i(1)])
    fix q a assume "q \<in> set ps" "in_page q a"
    then show "memset p 5 (ucast PGSIZE) (mem s) a = mem s a"
      using i(4,5) in_page_unique [of q p a] by (auto simp: memset_page managed_def)
  qed
  with i show ?thesis by (simp add: kalloc_eq kmem_inv_def memset_page)
qed

lemma kalloc_empty:
  assumes "kmem_inv s []"
  shows "\<exists>s'. kalloc s = Inr (0, s') \<and> kmem_inv s' [] \<and> kernel_end s' = kernel_end s \<and> mem s' = mem s"
  using assms by (simp add: kmem_inv_def kalloc_eq)

lemma kfree_inv:
  assumes "kmem_inv s ps" "managed (kernel_end s) p" "p \<notin> set ps"
  shows "\<exists>s'. kfree p s = Inr s' \<and> kmem_inv s' (p # ps) \<and> kernel_end s' = kernel_end s \<and>
    (\<forall>a. \<not> in_page p a \<longrightarrow> mem s' a = mem s a)"
proof -
  let ?m = "store64 p (freelist s) (memset p 1 (ucast PGSIZE) (mem s))"
  have frame: "?m a = mem s a" if "\<not> in_page p a" for a
    using that store64_page [of p a 0] by (simp add: memset_page)
  have "is_freelist ?m (freelist s) ps"
  proof (rule is_freelist_frame)
    show "is_freelist (mem s) (freelist s) ps" using assms(1) by (simp add: kmem_inv_def)
    fix q a assume "q \<in> set ps" "in_page q a"
    then have "\<not> in_page p a" using assms in_page_unique [of q p a] by (auto simp: kmem_inv_def managed_def)
    then show "?m a = mem s a" by (rule frame)
  qed
  then show ?thesis using assms frame managed_nonzero by (auto simp add: kmem_inv_def kfree_eq)
qed

section \<open>The allocator's contract\<close>

text \<open>
  What the kernel relies on: \<open>alloc\<close> hands out a free page or reports that there is none, and
  \<open>dealloc\<close> takes any page of the pool that is not free already. A client run is a sequence
  of such calls in which the client gives back only pages it was given.
\<close>

inductive ledger_step ::
  "('s \<Rightarrow> ('p \<times> 's) res) \<Rightarrow> ('p \<Rightarrow> 's \<Rightarrow> 's res) \<Rightarrow> 'p \<Rightarrow> 's \<times> 'p set \<Rightarrow> 's \<times> 'p set \<Rightarrow> bool"
  for alloc dealloc null where
  Got_page: "\<lbrakk>alloc s = Inr (p, s'); p \<noteq> null\<rbrakk> \<Longrightarrow> ledger_step alloc dealloc null (s, U) (s', insert p U)"
| Got_none: "alloc s = Inr (null, s') \<Longrightarrow> ledger_step alloc dealloc null (s, U) (s', U)"
| Gave_back: "\<lbrakk>p \<in> U; dealloc p s = Inr s'\<rbrakk> \<Longrightarrow> ledger_step alloc dealloc null (s, U) (s', U - {p})"

text \<open>The books balance: free pages and pages in use are disjoint and together are all of \<open>T\<close>.\<close>

definition balanced ::
  "('s \<Rightarrow> 'p list \<Rightarrow> bool) \<Rightarrow> ('s \<Rightarrow> 'p \<Rightarrow> bool) \<Rightarrow> 'p \<Rightarrow> 'p set \<Rightarrow> 's \<times> 'p set \<Rightarrow> bool" where
  "balanced free pool null T x \<longleftrightarrow> (\<exists>ps. free (fst x) ps \<and> set ps \<inter> snd x = {} \<and> set ps \<union> snd x = T \<and>
     (\<forall>p \<in> T. pool (fst x) p \<and> p \<noteq> null))"

locale page_allocator =
  fixes free :: "'s \<Rightarrow> 'p list \<Rightarrow> bool"
    and pool :: "'s \<Rightarrow> 'p \<Rightarrow> bool"
    and alloc :: "'s \<Rightarrow> ('p \<times> 's) res"
    and dealloc :: "'p \<Rightarrow> 's \<Rightarrow> 's res"
    and null :: 'p
  assumes free_pool: "\<lbrakk>free s ps; p \<in> set ps\<rbrakk> \<Longrightarrow> pool s p \<and> p \<noteq> null"
    and free_distinct: "free s ps \<Longrightarrow> distinct ps"
    and alloc_some: "free s (p # ps) \<Longrightarrow> \<exists>s'. alloc s = Inr (p, s') \<and> free s' ps \<and> pool s' = pool s"
    and alloc_none: "free s [] \<Longrightarrow> \<exists>s'. alloc s = Inr (null, s') \<and> free s' [] \<and> pool s' = pool s"
    and dealloc_ok: "\<lbrakk>free s ps; pool s p; p \<notin> set ps\<rbrakk> \<Longrightarrow>
      \<exists>s'. dealloc p s = Inr s' \<and> free s' (p # ps) \<and> pool s' = pool s"
begin

lemma alloc_fresh:
  assumes "balanced free pool null T (s, U)"
  shows "\<exists>p s'. alloc s = Inr (p, s') \<and> (p = null \<and> U = T \<or> p \<in> T - U)"
proof -
  obtain ps where ps: "free s ps" "set ps \<inter> U = {}" "set ps \<union> U = T" using assms by (auto simp: balanced_def)
  show ?thesis
  proof (cases ps)
    case Nil
    then show ?thesis using ps alloc_none [of s] by auto
  next
    case (Cons q qs)
    then show ?thesis using ps alloc_some [of s q qs] by auto
  qed
qed

lemma dealloc_used: "\<lbrakk>balanced free pool null T (s, U); p \<in> U\<rbrakk> \<Longrightarrow> \<exists>s'. dealloc p s = Inr s'"
  unfolding balanced_def fst_conv snd_conv by (metis dealloc_ok Un_iff disjoint_iff)

lemma balanced_step:
  assumes "balanced free pool null T x" "ledger_step alloc dealloc null x y"
  shows "balanced free pool null T y"
  using assms(2)
proof cases
  case (Got_page s p s' U)
  obtain ps where ps: "free s ps" "set ps \<inter> U = {}" "set ps \<union> U = T" "\<forall>p \<in> T. pool s p \<and> p \<noteq> null"
    using assms(1) Got_page by (auto simp: balanced_def)
  then obtain qs where "ps = p # qs" "free s' qs" "pool s' = pool s"
    using Got_page alloc_none [of s] by (cases ps) (auto dest: alloc_some)
  with ps free_distinct [OF ps(1)] Got_page show ?thesis unfolding balanced_def by (intro exI [of _ qs]) auto
next
  case (Got_none s s' U)
  obtain ps where ps: "free s ps" "set ps \<inter> U = {}" "set ps \<union> U = T" "\<forall>p \<in> T. pool s p \<and> p \<noteq> null"
    using assms(1) Got_none by (auto simp: balanced_def)
  moreover have "ps = []" using ps Got_none by (cases ps) (auto dest: alloc_some free_pool)
  ultimately show ?thesis using Got_none alloc_none [of s] by (auto simp: balanced_def)
next
  case (Gave_back p U s s')
  obtain ps where ps: "free s ps" "set ps \<inter> U = {}" "set ps \<union> U = T" "\<forall>p \<in> T. pool s p \<and> p \<noteq> null"
    using assms(1) Gave_back by (auto simp: balanced_def)
  then have "free s' (p # ps)" "pool s' = pool s" using dealloc_ok [of s ps p] Gave_back by auto
  with ps Gave_back show ?thesis unfolding balanced_def by (intro exI [of _ "p # ps"]) auto
qed

lemma balanced_run: "\<lbrakk>(ledger_step alloc dealloc null)\<^sup>*\<^sup>* x y; balanced free pool null T x\<rbrakk> \<Longrightarrow> balanced free pool null T y"
  by (induction rule: rtranclp_induct) (auto intro: balanced_step)

lemma balanced_start: "free s ps \<Longrightarrow> balanced free pool null (set ps) (s, {})"
  using free_pool by (auto simp: balanced_def)

end

interpretation kmem: page_allocator kmem_inv "\<lambda>s. managed (kernel_end s)" kalloc kfree 0
proof
  fix s :: "'a phys_scheme" and p ps
  show "managed (kernel_end s) p \<and> p \<noteq> 0" if "kmem_inv s ps" "p \<in> set ps"
    using that managed_nonzero by (auto simp: kmem_inv_def)
  show "distinct ps" if "kmem_inv s ps" using that by (simp add: kmem_inv_def)
  show "\<exists>s'. kalloc s = Inr (p, s') \<and> kmem_inv s' ps \<and> managed (kernel_end s') = managed (kernel_end s)"
    if "kmem_inv s (p # ps)" using kalloc_inv [OF that] by auto
  show "\<exists>s'. kalloc s = Inr (0, s') \<and> kmem_inv s' [] \<and> managed (kernel_end s') = managed (kernel_end s)"
    if "kmem_inv s []" using kalloc_empty [OF that] by auto
  show "\<exists>s'. kfree p s = Inr s' \<and> kmem_inv s' (p # ps) \<and> managed (kernel_end s') = managed (kernel_end s)"
    if "kmem_inv s ps" "managed (kernel_end s) p" "p \<notin> set ps" using kfree_inv [OF that] by auto
qed

section \<open>Initialisation\<close>

lemma unat_PHYSTOP: "unat PHYSTOP = 2281701376"
  by (simp add: PHYSTOP_def KERNBASE_def)

lemma aligned_le:
  assumes "aligned p" "aligned q" "p < PHYSTOP"
  shows "q < p + PGSIZE \<longleftrightarrow> q \<le> p" "p + PGSIZE \<le> PHYSTOP" "p < p + PGSIZE"
proof -
  have p: "unat p = 4096 * (unat p div 4096)" and q: "unat q = 4096 * (unat q div 4096)"
    using assms mult_div_mod_eq [of 4096 "unat p"] mult_div_mod_eq [of 4096 "unat q"] by (simp_all add: aligned_unat)
  have lt: "unat p < 2281701376" using assms(3) by (simp add: word_less_nat_alt unat_PHYSTOP)
  then have u: "unat (p + PGSIZE) = unat p + 4096" by (simp add: PGSIZE_def unat_word_ariths)
  define i j where "i = unat p div 4096" and "j = unat q div 4096"
  have "4096 * j < 4096 * (i + 1) \<longleftrightarrow> 4096 * j \<le> 4096 * i" by auto
  then show "q < p + PGSIZE \<longleftrightarrow> q \<le> p"
    unfolding word_less_nat_alt word_le_nat_alt u using p q by (simp add: i_def j_def add.commute)
  have "4096 * i < 4096 * 557056 \<longleftrightarrow> 4096 * (i + 1) \<le> 4096 * 557056" by auto
  then show "p + PGSIZE \<le> PHYSTOP" unfolding word_le_nat_alt u unat_PHYSTOP using p lt by (simp add: i_def)
  show "p < p + PGSIZE" unfolding word_less_nat_alt u by simp
qed

declare freerange_from.simps [simp del]

lemma freerange_from_all:
  assumes "kmem_inv s ps" "aligned p" "kernel_end s \<le> p" "p \<le> PHYSTOP"
    and "set ps = {q. managed (kernel_end s) q \<and> q < p}"
  shows "\<exists>s' qs. freerange_from p PHYSTOP s = Inr s' \<and> kmem_inv s' qs \<and>
    set qs = {q. managed (kernel_end s) q} \<and> kernel_end s' = kernel_end s"
  using assms
proof (induction p "PHYSTOP" s arbitrary: ps rule: freerange_from.induct)
  case (1 p s)
  show ?case
  proof (cases "p = PHYSTOP")
    case True
    then have "\<not> p + PGSIZE \<le> PHYSTOP" by (simp add: PHYSTOP_def KERNBASE_def PGSIZE_def)
    then have "freerange_from p PHYSTOP s = Inr s" by (simp add: freerange_from.simps)
    moreover have "set ps = {q. managed (kernel_end s) q}" using 1 True by (auto simp: managed_def)
    ultimately show ?thesis using 1 by blast
  next
    case False
    with 1 have p: "p < PHYSTOP" by simp
    note le = aligned_le [OF "1.prems"(2) _ p]
    have m: "managed (kernel_end s) p" "p \<notin> set ps" using 1 p by (simp_all add: managed_def)
    obtain s1 where s1: "kfree p s = Inr s1" "kmem_inv s1 (p # ps)" "kernel_end s1 = kernel_end s"
      using kfree_inv [OF "1.prems"(1) m] by blast
    have "freerange_from p PHYSTOP s = freerange_from (p + PGSIZE) PHYSTOP s1"
      using le(2) [OF "1.prems"(2)] s1 by (simp add: freerange_from.simps [of p])
    moreover have "set (p # ps) = {q. managed (kernel_end s) q \<and> q < p + PGSIZE}"
      using "1.prems"(5) m le(1) by (auto simp: managed_def order.order_iff_strict)
    moreover have "aligned (p + PGSIZE)" "kernel_end s \<le> p + PGSIZE" "p + PGSIZE \<le> PHYSTOP"
      using "1.prems"(2,3) le(2,3) [OF "1.prems"(2)] by (simp_all add: PGSIZE_def)
    ultimately show ?thesis using "1.hyps" [OF le(2) [OF "1.prems"(2)] s1(1) s1(2)] s1(3) by simp
  qed
qed

lemma PGROUNDUP_least:
  assumes "e \<le> PHYSTOP"
  shows "e \<le> PGROUNDUP e" "PGROUNDUP e \<le> PHYSTOP" "\<lbrakk>aligned p; e \<le> p\<rbrakk> \<Longrightarrow> PGROUNDUP e \<le> p"
proof -
  have e: "unat e \<le> 2281701376" using assms by (simp add: word_le_nat_alt unat_PHYSTOP)
  then have u: "unat (PGROUNDUP e) = (unat e + 4095) div 4096 * 4096" by (simp add: unat_PGROUNDUP)
  show "e \<le> PGROUNDUP e" unfolding word_le_nat_alt u by linarith
  have least: "(n + 4095) div 4096 * 4096 \<le> 4096 * k" if "n \<le> 4096 * k" for n k :: nat
  proof -
    have "(n + 4095) div 4096 < k + 1" using that by (simp add: div_less_iff_less_mult)
    then show ?thesis by simp
  qed
  show "PGROUNDUP e \<le> PHYSTOP" unfolding word_le_nat_alt u unat_PHYSTOP using least [of "unat e" 557056] e by simp
  show "PGROUNDUP e \<le> p" if "aligned p" "e \<le> p"
    using least [of "unat e" "unat p div 4096"] that mult_div_mod_eq [of 4096 "unat p"]
    unfolding aligned_unat word_le_nat_alt u by simp
qed

lemma kinit_inv:
  assumes "kernel_end s \<noteq> 0" "kernel_end s \<le> PHYSTOP" "freelist s = 0" "cpu_ok s"
  shows "\<exists>s' ps. kinit s = Inr s' \<and> kmem_inv s' ps \<and> set ps = {p. managed (kernel_end s) p} \<and> kernel_end s' = kernel_end s"
proof -
  let ?s = "initlock L_kmem ''kmem'' s" and ?p = "PGROUNDUP (kernel_end s)"
  have "{q. managed (kernel_end s) q \<and> q < ?p} = {}"
    using PGROUNDUP_least(3) [OF assms(2)] by (auto simp: managed_def dest: leD)
  moreover have "kmem_inv ?s []" "kernel_end ?s = kernel_end s"
    using assms by (simp_all add: kmem_inv_def initlock_def free_lock_def)
  ultimately show ?thesis
    using freerange_from_all [of ?s "[]" ?p] PGROUNDUP_least(1,2) [OF assms(2)] by (simp add: kinit_def freerange_def Let_def)
qed

section \<open>The allocator's promises\<close>

text \<open>A boot state with two pages between \<^verbatim>\<open>end\<close> and \<^verbatim>\<open>PHYSTOP\<close>.\<close>

definition boot_phys :: phys where
  "boot_phys = \<lparr>hart = 0, sie = (\<lambda>_. False), cpus = (\<lambda>_. zero_cpu), locks = (\<lambda>_. zero_lock), procs = (\<lambda>_. zero_proc),
     mem = (\<lambda>_. 0), freelist = 0, kernel_end = 0x87FFE000\<rparr>"

text \<open>
  C8. \<^verbatim>\<open>kinit\<close> returns without a panic and puts on the free list every page-aligned address
  from \<^verbatim>\<open>end\<close> up to \<^verbatim>\<open>PHYSTOP\<close>, each exactly once, and nothing else.
\<close>

theorem kinit_frees_all:
  assumes "kernel_end s \<noteq> 0" "kernel_end s \<le> PHYSTOP" "freelist s = 0" "cpu_ok s"
  shows "\<exists>s' ps. kinit s = Inr s' \<and> is_freelist (mem s') (freelist s') ps \<and> distinct ps \<and>
    set ps = {p. aligned p \<and> kernel_end s \<le> p \<and> p < PHYSTOP}"
  using kinit_inv [OF assms] by (auto simp: kmem_inv_def managed_def)

theorem kinit_frees_all_witness:
  "\<exists>s' ps. kinit boot_phys = Inr s' \<and> is_freelist (mem s') (freelist s') ps \<and> 0x87FFF000 \<in> set ps"
proof -
  have "kernel_end boot_phys \<noteq> 0" "kernel_end boot_phys \<le> PHYSTOP" "freelist boot_phys = 0" "cpu_ok boot_phys"
    "aligned 0x87FFF000 \<and> kernel_end boot_phys \<le> 0x87FFF000 \<and> 0x87FFF000 < PHYSTOP"
    by (simp_all add: boot_phys_def zero_cpu_def cpu_sane_def PHYSTOP_def KERNBASE_def aligned_def PGSIZE_def)
  then show ?thesis using kinit_frees_all [of boot_phys] by (metis (mono_tags, lifting) mem_Collect_eq)
qed

text \<open>
  C6. Whatever sequence of \<^verbatim>\<open>kalloc\<close> and \<^verbatim>\<open>kfree\<close> calls the kernel makes, giving back only pages
  it was given: free pages and pages in use stay disjoint and together are the initial pool;
  \<^verbatim>\<open>kalloc\<close> returns a page that is not in use, or 0 exactly when all are; and \<^verbatim>\<open>kfree\<close> of a page
  in use does not panic.
\<close>

theorem kalloc_kfree_ledger:
  assumes "kmem_inv s ps" and "(ledger_step kalloc kfree 0)\<^sup>*\<^sup>* (s, {}) (t, U)"
  shows "(\<exists>qs. kmem_inv t qs \<and> set qs \<inter> U = {} \<and> set qs \<union> U = set ps) \<and>
    (\<exists>p t'. kalloc t = Inr (p, t') \<and> (p = 0 \<and> U = set ps \<or> p \<in> set ps - U)) \<and>
    (\<forall>p \<in> U. \<exists>t'. kfree p t = Inr t')"
proof -
  have b: "balanced kmem_inv (\<lambda>s. managed (kernel_end s)) 0 (set ps) (t, U)"
    using kmem.balanced_run [OF assms(2) kmem.balanced_start [OF assms(1)]] .
  then have "\<exists>qs. kmem_inv t qs \<and> set qs \<inter> U = {} \<and> set qs \<union> U = set ps" by (auto simp: balanced_def)
  with kmem.alloc_fresh [OF b] kmem.dealloc_used [OF b] show ?thesis by blast
qed

text \<open>A pool of one page, after \<^verbatim>\<open>kalloc\<close> has handed it out.\<close>

definition one_page :: phys where
  "one_page = boot_phys\<lparr>freelist := 0x87FFF000\<rparr>"

lemma one_page_inv: "kmem_inv one_page [0x87FFF000]"
proof -
  have "load64 (\<lambda>_. 0) 0x87FFF000 = 0" by (rule load64_zero) simp
  then show ?thesis
    by (simp add: kmem_inv_def one_page_def boot_phys_def managed_def aligned_def PGSIZE_def PHYSTOP_def
        KERNBASE_def free_lock_def cpu_sane_def zero_lock_def zero_cpu_def)
qed

theorem kalloc_kfree_ledger_witness:
  "\<exists>t. (ledger_step kalloc kfree 0)\<^sup>*\<^sup>* (one_page, {}) (t, {0x87FFF000}) \<and>
     (\<exists>t'. kalloc t = Inr (0, t')) \<and> (\<exists>t'. kfree 0x87FFF000 t = Inr t')"
proof -
  obtain t where "kalloc one_page = Inr (0x87FFF000, t)" using kalloc_inv [OF one_page_inv] by blast
  then have "ledger_step kalloc kfree 0 (one_page, {}) (t, {0x87FFF000})"
    using Got_page [of kalloc one_page "0x87FFF000" t 0 kfree "{}"] by simp
  then have run: "(ledger_step kalloc kfree 0)\<^sup>*\<^sup>* (one_page, {}) (t, {0x87FFF000})" by (rule r_into_rtranclp)
  show ?thesis using run kalloc_kfree_ledger [OF one_page_inv run] by auto
qed

text \<open>
  C13. Taking a page and giving it back restores the free list and leaves every byte outside
  that page as it was; in between the page is filled with the junk byte 5. \<^verbatim>\<open>kfree\<close> of an address that is unaligned or out of
  range panics.
\<close>

theorem kalloc_kfree_roundtrip:
  assumes "kmem_inv s (p # ps)"
  shows "\<exists>s1 s2. kalloc s = Inr (p, s1) \<and> kfree p s1 = Inr s2 \<and> kmem_inv s1 ps \<and> kmem_inv s2 (p # ps) \<and>
    (\<forall>a. in_page p a \<longrightarrow> mem s1 a = 5) \<and> (\<forall>a. \<not> in_page p a \<longrightarrow> mem s1 a = mem s a \<and> mem s2 a = mem s a) \<and>
    (\<forall>q. \<not> managed (kernel_end s) q \<longrightarrow> kfree q s = Inl (Panic ''kfree''))"
proof -
  obtain s1 where s1: "kalloc s = Inr (p, s1)" "kmem_inv s1 ps" "kernel_end s1 = kernel_end s"
    "\<forall>a. mem s1 a = (if in_page p a then 5 else mem s a)" using kalloc_inv [OF assms] by blast
  have "managed (kernel_end s1) p" "p \<notin> set ps" using assms s1(3) by (auto simp: kmem_inv_def)
  then obtain s2 where "kfree p s1 = Inr s2" "kmem_inv s2 (p # ps)" "\<forall>a. \<not> in_page p a \<longrightarrow> mem s2 a = mem s1 a"
    using kfree_inv [OF s1(2)] by blast
  with s1 kfree_panics show ?thesis by force
qed

theorem kalloc_kfree_roundtrip_witness:
  "\<exists>s1 s2. kalloc one_page = Inr (0x87FFF000, s1) \<and> kfree 0x87FFF000 s1 = Inr s2 \<and> mem s1 0x87FFF010 = 5"
  using kalloc_kfree_roundtrip [OF one_page_inv] by (auto simp: in_page_def)

end
