(* ===== verification/Vm.thy ===== *)
theory Vm
  imports Kalloc
begin

text \<open>
  Virtual memory, \<^verbatim>\<open>kernel/vm.c\<close>: Sv39 page tables stored in physical pages, mapping and
  unmapping, growing, shrinking, copying and freeing of user address spaces, and the copy
  functions between kernel and user memory. \<^verbatim>\<open>pte_t *\<close> and \<^verbatim>\<open>pagetable_t\<close> values are physical
  addresses, 0 is the null pointer.
\<close>

section \<open>Walking a page table\<close>

text \<open>\<^verbatim>\<open>&pagetable[i]\<close>\<close>

definition pte_addr :: "uint64 \<Rightarrow> uint64 \<Rightarrow> uint64" where
  "pte_addr pagetable i = pagetable + 8 * i"

fun walk_level :: "nat \<Rightarrow> uint64 \<Rightarrow> uint64 \<Rightarrow> bool \<Rightarrow> 'a phys_scheme \<Rightarrow> (uint64 \<times> 'a phys_scheme) res" where
  "walk_level 0 pagetable va alloc s = Inr (pte_addr pagetable (PX 0 va), s)"
| "walk_level (Suc l) pagetable va alloc s =
     (let pte = pte_addr pagetable (PX (Suc l) va) in
      if load64 (mem s) pte AND PTE_V \<noteq> 0
      then walk_level l (PTE2PA (load64 (mem s) pte)) va alloc s
      else if \<not> alloc then Inr (0, s)
      else bindE (kalloc s) (\<lambda>(pagetable, s).
        if pagetable = 0 then Inr (0, s)
        else let s = s\<lparr>mem := memset pagetable 0 (ucast PGSIZE) (mem s)\<rparr>;
                 s = s\<lparr>mem := store64 pte (PA2PTE pagetable OR PTE_V) (mem s)\<rparr> in
             walk_level l pagetable va alloc s))"

definition walk :: "uint64 \<Rightarrow> uint64 \<Rightarrow> bool \<Rightarrow> 'a phys_scheme \<Rightarrow> (uint64 \<times> 'a phys_scheme) res" where
  "walk pagetable va alloc s =
     (if MAXVA \<le> va then Inl (Panic ''walk'') else walk_level 2 pagetable va alloc s)"

definition walkaddr :: "uint64 \<Rightarrow> uint64 \<Rightarrow> 'a phys_scheme \<Rightarrow> (uint64 \<times> 'a phys_scheme) res" where
  "walkaddr pagetable va s =
     (if MAXVA \<le> va then Inr (0, s)
      else bindE (walk pagetable va False s) (\<lambda>(pte, s).
        if pte = 0 then Inr (0, s)
        else if load64 (mem s) pte AND PTE_V = 0 then Inr (0, s)
        else if load64 (mem s) pte AND PTE_U = 0 then Inr (0, s)
        else Inr (PTE2PA (load64 (mem s) pte), s)))"

section \<open>Mapping and unmapping\<close>

lemma walk_range: "walk pagetable va alloc s = Inr r \<Longrightarrow> va < MAXVA"
  by (auto simp: walk_def not_le split: if_splits)

lemma next_page_measure:
  assumes "a < MAXVA" shows "unat MAXVA - unat (a + PGSIZE) < unat MAXVA - unat a"
proof -
  have "unat a < unat MAXVA" using assms by (simp add: word_less_nat_alt)
  then show ?thesis by (simp add: MAXVA_def PGSIZE_def unat_word_ariths)
qed

text \<open>\<^verbatim>\<open>perm\<close> has type \<^verbatim>\<open>int\<close> and is sign-extended when it is combined with the entry.\<close>

function mappages_from :: "uint64 \<Rightarrow> uint64 \<Rightarrow> uint64 \<Rightarrow> uint64 \<Rightarrow> uint32 \<Rightarrow> 'a phys_scheme \<Rightarrow>
    (int \<times> 'a phys_scheme) res" where
  "mappages_from pagetable a last_a pa perm s =
     bindE (walk pagetable a True s) (\<lambda>(pte, s).
     if pte = 0 then Inr (-1, s)
     else if load64 (mem s) pte AND PTE_V \<noteq> 0 then Inl (Panic ''mappages: remap'')
     else let s = s\<lparr>mem := store64 pte (PA2PTE pa OR scast perm OR PTE_V) (mem s)\<rparr> in
          if a = last_a then Inr (0, s)
          else mappages_from pagetable (a + PGSIZE) last_a (pa + PGSIZE) perm s)"
  by pat_completeness auto

termination
  by (relation "measure (\<lambda>(_, a, _). unat MAXVA - unat a)") (auto dest: walk_range intro: next_page_measure)

definition mappages :: "uint64 \<Rightarrow> uint64 \<Rightarrow> uint64 \<Rightarrow> uint64 \<Rightarrow> uint32 \<Rightarrow> 'a phys_scheme \<Rightarrow>
    (int \<times> 'a phys_scheme) res" where
  "mappages pagetable va sz pa perm s =
     (if va mod PGSIZE \<noteq> 0 then Inl (Panic ''mappages: va not aligned'')
      else if sz mod PGSIZE \<noteq> 0 then Inl (Panic ''mappages: size not aligned'')
      else if sz = 0 then Inl (Panic ''mappages: size'')
      else mappages_from pagetable va (va + sz - PGSIZE) pa perm s)"

definition kvmmap :: "uint64 \<Rightarrow> uint64 \<Rightarrow> uint64 \<Rightarrow> uint64 \<Rightarrow> uint32 \<Rightarrow> 'a phys_scheme \<Rightarrow> 'a phys_scheme res" where
  "kvmmap kpgtbl va pa sz perm s =
     bindE (mappages kpgtbl va sz pa perm s) (\<lambda>(r, s).
     if r \<noteq> 0 then Inl (Panic ''kvmmap'') else Inr s)"

function uvmunmap_from :: "uint64 \<Rightarrow> uint64 \<Rightarrow> uint64 \<Rightarrow> bool \<Rightarrow> 'a phys_scheme \<Rightarrow> 'a phys_scheme res" where
  "uvmunmap_from pagetable a stop do_free s =
     (if a < stop then
        bindE (walk pagetable a False s) (\<lambda>(pte, s).
        if pte = 0 then Inl (Panic ''uvmunmap: walk'')
        else if load64 (mem s) pte AND PTE_V = 0 then Inl (Panic ''uvmunmap: not mapped'')
        else if PTE_FLAGS (load64 (mem s) pte) = PTE_V then Inl (Panic ''uvmunmap: not a leaf'')
        else bindE (if do_free then kfree (PTE2PA (load64 (mem s) pte)) s else Inr s) (\<lambda>s.
          let s = s\<lparr>mem := store64 pte 0 (mem s)\<rparr> in
          uvmunmap_from pagetable (a + PGSIZE) stop do_free s))
      else Inr s)"
  by pat_completeness auto

termination
  by (relation "measure (\<lambda>(_, a, _). unat MAXVA - unat a)") (auto dest: walk_range intro: next_page_measure)

definition uvmunmap :: "uint64 \<Rightarrow> uint64 \<Rightarrow> uint64 \<Rightarrow> bool \<Rightarrow> 'a phys_scheme \<Rightarrow> 'a phys_scheme res" where
  "uvmunmap pagetable va npages do_free s =
     (if va mod PGSIZE \<noteq> 0 then Inl (Panic ''uvmunmap: not aligned'')
      else uvmunmap_from pagetable va (va + npages * PGSIZE) do_free s)"

declare mappages_from.simps [simp del] uvmunmap_from.simps [simp del]

lemma mappages_range: "mappages pagetable va sz pa perm s = Inr r \<Longrightarrow> va < MAXVA"
  by (auto simp: mappages_def mappages_from.simps [of _ va] res_iff split: if_splits dest: walk_range)

section \<open>User address spaces\<close>

definition uvmcreate :: "'a phys_scheme \<Rightarrow> (uint64 \<times> 'a phys_scheme) res" where
  "uvmcreate s =
     bindE (kalloc s) (\<lambda>(pagetable, s).
     if pagetable = 0 then Inr (0, s)
     else Inr (pagetable, s\<lparr>mem := memset pagetable 0 (ucast PGSIZE) (mem s)\<rparr>))"

text \<open>
  \<^verbatim>\<open>uvmfirst\<close> does not test the result of \<^verbatim>\<open>kalloc\<close>; address 0 is not mapped in the kernel, so
  that writing there faults.
\<close>

definition uvmfirst :: "uint64 \<Rightarrow> uint64 \<Rightarrow> uint32 \<Rightarrow> 'a phys_scheme \<Rightarrow> 'a phys_scheme res" where
  "uvmfirst pagetable src sz s =
     (if ucast PGSIZE \<le> sz then Inl (Panic ''uvmfirst: more than a page'')
      else bindE (kalloc s) (\<lambda>(m, s).
        if m = 0 then Inl Fault
        else let s = s\<lparr>mem := memset m 0 (ucast PGSIZE) (mem s)\<rparr> in
          bindE (mappages pagetable 0 PGSIZE m (ucast (PTE_W OR PTE_R OR PTE_X OR PTE_U)) s) (\<lambda>(_, s).
          Inr (s\<lparr>mem := memmove m src sz (mem s)\<rparr>))))"

definition uvmdealloc :: "uint64 \<Rightarrow> uint64 \<Rightarrow> uint64 \<Rightarrow> 'a phys_scheme \<Rightarrow> (uint64 \<times> 'a phys_scheme) res" where
  "uvmdealloc pagetable oldsz newsz s =
     (if oldsz \<le> newsz then Inr (oldsz, s)
      else bindE
        (if PGROUNDUP newsz < PGROUNDUP oldsz
         then let npages = ucast ((PGROUNDUP oldsz - PGROUNDUP newsz) div PGSIZE) :: uint32 in
              uvmunmap pagetable (PGROUNDUP newsz) (scast npages) True s
         else Inr s)
        (\<lambda>s. Inr (newsz, s)))"

function uvmalloc_from :: "uint64 \<Rightarrow> uint64 \<Rightarrow> uint64 \<Rightarrow> uint64 \<Rightarrow> uint32 \<Rightarrow> 'a phys_scheme \<Rightarrow>
    (uint64 \<times> 'a phys_scheme) res" where
  "uvmalloc_from pagetable a oldsz newsz xperm s =
     (if a < newsz then
        bindE (kalloc s) (\<lambda>(m, s).
        if m = 0 then bindE (uvmdealloc pagetable a oldsz s) (\<lambda>(_, s). Inr (0, s))
        else let s = s\<lparr>mem := memset m 0 (ucast PGSIZE) (mem s)\<rparr> in
          bindE (mappages pagetable a PGSIZE m (ucast (PTE_R OR PTE_U OR scast xperm)) s) (\<lambda>(r, s).
          if r \<noteq> 0 then
            bindE (kfree m s) (\<lambda>s.
            bindE (uvmdealloc pagetable a oldsz s) (\<lambda>(_, s). Inr (0, s)))
          else uvmalloc_from pagetable (a + PGSIZE) oldsz newsz xperm s))
      else Inr (newsz, s))"
  by pat_completeness auto

termination
  by (relation "measure (\<lambda>(_, a, _). unat MAXVA - unat a)") (auto dest: mappages_range intro: next_page_measure)

definition uvmalloc :: "uint64 \<Rightarrow> uint64 \<Rightarrow> uint64 \<Rightarrow> uint32 \<Rightarrow> 'a phys_scheme \<Rightarrow> (uint64 \<times> 'a phys_scheme) res" where
  "uvmalloc pagetable oldsz newsz xperm s =
     (if newsz < oldsz then Inr (oldsz, s)
      else let oldsz = PGROUNDUP oldsz in uvmalloc_from pagetable oldsz oldsz newsz xperm s)"

text \<open>
  \<^verbatim>\<open>freewalk\<close> calls itself without a bound in C; the first argument is the depth the kernel
  stack allows, and a deeper recursion faults.
\<close>

primrec freewalk :: "nat \<Rightarrow> uint64 \<Rightarrow> 'a phys_scheme \<Rightarrow> 'a phys_scheme res" where
  "freewalk 0 pagetable s = Inl Fault"
| "freewalk (Suc depth) pagetable s =
     bindE (forE (\<lambda>i s.
         let pte = load64 (mem s) (pte_addr pagetable i) in
         if pte AND PTE_V \<noteq> 0 \<and> pte AND (PTE_R OR PTE_W OR PTE_X) = 0 then
           bindE (freewalk depth (PTE2PA pte) s) (\<lambda>s.
           Inr (s\<lparr>mem := store64 (pte_addr pagetable i) 0 (mem s)\<rparr>))
         else if pte AND PTE_V \<noteq> 0 then Inl (Panic ''freewalk: leaf'')
         else Inr s) (map word_of_nat [0..<512]) s) (\<lambda>s.
     kfree pagetable s)"

definition uvmfree :: "nat \<Rightarrow> uint64 \<Rightarrow> uint64 \<Rightarrow> 'a phys_scheme \<Rightarrow> 'a phys_scheme res" where
  "uvmfree depth pagetable sz s =
     bindE (if 0 < sz then uvmunmap pagetable 0 (PGROUNDUP sz div PGSIZE) True s else Inr s) (\<lambda>s.
     freewalk depth pagetable s)"

function uvmcopy_from :: "uint64 \<Rightarrow> uint64 \<Rightarrow> uint64 \<Rightarrow> uint64 \<Rightarrow> 'a phys_scheme \<Rightarrow> (int \<times> 'a phys_scheme) res" where
  "uvmcopy_from old new i sz s =
     (if i < sz then
        bindE (walk old i False s) (\<lambda>(pte, s).
        if pte = 0 then Inl (Panic ''uvmcopy: pte should exist'')
        else if load64 (mem s) pte AND PTE_V = 0 then Inl (Panic ''uvmcopy: page not present'')
        else let pa = PTE2PA (load64 (mem s) pte);
                 flags = ucast (PTE_FLAGS (load64 (mem s) pte)) :: uint32 in
          bindE (kalloc s) (\<lambda>(m, s).
          if m = 0 then bindE (uvmunmap new 0 (i div PGSIZE) True s) (\<lambda>s. Inr (-1, s))
          else let s = s\<lparr>mem := memmove m pa (ucast PGSIZE) (mem s)\<rparr> in
            bindE (mappages new i PGSIZE m flags s) (\<lambda>(r, s).
            if r \<noteq> 0 then
              bindE (kfree m s) (\<lambda>s.
              bindE (uvmunmap new 0 (i div PGSIZE) True s) (\<lambda>s. Inr (-1, s)))
            else uvmcopy_from old new (i + PGSIZE) sz s)))
      else Inr (0, s))"
  by pat_completeness auto

termination
  by (relation "measure (\<lambda>(_, _, i, _). unat MAXVA - unat i)") (auto dest: walk_range intro: next_page_measure)

definition uvmcopy :: "uint64 \<Rightarrow> uint64 \<Rightarrow> uint64 \<Rightarrow> 'a phys_scheme \<Rightarrow> (int \<times> 'a phys_scheme) res" where
  "uvmcopy old new sz s = uvmcopy_from old new 0 sz s"

definition uvmclear :: "uint64 \<Rightarrow> uint64 \<Rightarrow> 'a phys_scheme \<Rightarrow> 'a phys_scheme res" where
  "uvmclear pagetable va s =
     bindE (walk pagetable va False s) (\<lambda>(pte, s).
     if pte = 0 then Inl (Panic ''uvmclear'')
     else Inr (s\<lparr>mem := store64 pte (load64 (mem s) pte AND NOT PTE_U) (mem s)\<rparr>))"

declare uvmalloc_from.simps [simp del] uvmcopy_from.simps [simp del]

section \<open>Copying between kernel and user memory\<close>

text \<open>The number of bytes from an address to the end of its page, at most \<open>len\<close>.\<close>

definition chunk :: "uint64 \<Rightarrow> uint64 \<Rightarrow> uint64" where
  "chunk va len = (let n = PGSIZE - (va - PGROUNDDOWN va) in if len < n then len else n)"

lemma unat_offset: "unat (va - PGROUNDDOWN va) = unat va mod 4096"
proof -
  have "unat (PGROUNDDOWN va) \<le> unat va" by (simp add: unat_PGROUNDDOWN)
  then show ?thesis by (simp add: unat_sub_if' unat_PGROUNDDOWN minus_div_mult_eq_mod)
qed

lemma unat_page_rest: "unat (PGSIZE - (va - PGROUNDDOWN va)) = 4096 - unat va mod 4096"
proof -
  have "unat (va - PGROUNDDOWN va) < 4096" by (simp add: unat_offset)
  then have "unat (va - PGROUNDDOWN va) \<le> unat PGSIZE" by (simp add: PGSIZE_def)
  then show ?thesis unfolding unat_sub_if' [of PGSIZE] by (simp add: unat_offset PGSIZE_def)
qed

lemma unat_chunk: "unat (chunk va len) = min (unat len) (4096 - unat va mod 4096)"
  using unat_page_rest [of va] by (auto simp: chunk_def Let_def word_less_nat_alt min_def)

lemma chunk_less:
  assumes "0 < len" shows "unat (len - chunk va len) < unat len"
proof -
  have "0 < unat len" using assms by (simp add: word_less_nat_alt)
  moreover have "unat va mod 4096 < 4096" by simp
  ultimately have "0 < unat (chunk va len)" "unat (chunk va len) \<le> unat len" unfolding unat_chunk by linarith+
  then show ?thesis using \<open>0 < unat len\<close> by (simp add: unat_sub_if')
qed

function copyout :: "uint64 \<Rightarrow> uint64 \<Rightarrow> uint64 \<Rightarrow> uint64 \<Rightarrow> 'a phys_scheme \<Rightarrow> (int \<times> 'a phys_scheme) res" where
  "copyout pagetable dstva src len s =
     (if 0 < len then
        let va0 = PGROUNDDOWN dstva in
        if MAXVA \<le> va0 then Inr (-1, s)
        else bindE (walk pagetable va0 False s) (\<lambda>(pte, s).
          if pte = 0 \<or> load64 (mem s) pte AND PTE_V = 0 \<or> load64 (mem s) pte AND PTE_U = 0 \<or>
             load64 (mem s) pte AND PTE_W = 0
          then Inr (-1, s)
          else let pa0 = PTE2PA (load64 (mem s) pte);
                   n = chunk dstva len;
                   s = s\<lparr>mem := memmove (pa0 + (dstva - va0)) src (ucast n) (mem s)\<rparr> in
               copyout pagetable (va0 + PGSIZE) (src + n) (len - n) s)
      else Inr (0, s))"
  by pat_completeness auto

termination
  by (relation "measure (\<lambda>(_, _, _, len, _). unat len)") (simp_all add: chunk_less)

function copyin :: "uint64 \<Rightarrow> uint64 \<Rightarrow> uint64 \<Rightarrow> uint64 \<Rightarrow> 'a phys_scheme \<Rightarrow> (int \<times> 'a phys_scheme) res" where
  "copyin pagetable dst srcva len s =
     (if 0 < len then
        let va0 = PGROUNDDOWN srcva in
        bindE (walkaddr pagetable va0 s) (\<lambda>(pa0, s).
        if pa0 = 0 then Inr (-1, s)
        else let n = chunk srcva len;
                 s = s\<lparr>mem := memmove dst (pa0 + (srcva - va0)) (ucast n) (mem s)\<rparr> in
             copyin pagetable (dst + n) (va0 + PGSIZE) (len - n) s)
      else Inr (0, s))"
  by pat_completeness auto

termination
  by (relation "measure (\<lambda>(_, _, _, len, _). unat len)") (simp_all add: chunk_less)

text \<open>
  The inner loop of \<^verbatim>\<open>copyinstr\<close> over \<open>n\<close> bytes: whether the NUL was met, and the memory.
\<close>

fun copyinstr_page :: "nat \<Rightarrow> uint64 \<Rightarrow> uint64 \<Rightarrow> memory \<Rightarrow> bool \<times> memory" where
  "copyinstr_page 0 p dst m = (False, m)"
| "copyinstr_page (Suc n) p dst m =
     (if m p = 0 then (True, m(dst := 0))
      else copyinstr_page n (p + 1) (dst + 1) (m(dst := m p)))"

function copyinstr :: "uint64 \<Rightarrow> uint64 \<Rightarrow> uint64 \<Rightarrow> uint64 \<Rightarrow> 'a phys_scheme \<Rightarrow> (int \<times> 'a phys_scheme) res" where
  "copyinstr pagetable dst srcva max_len s =
     (if 0 < max_len then
        let va0 = PGROUNDDOWN srcva in
        bindE (walkaddr pagetable va0 s) (\<lambda>(pa0, s).
        if pa0 = 0 then Inr (-1, s)
        else let n = chunk srcva max_len;
                 (got_null, m) = copyinstr_page (unat n) (pa0 + (srcva - va0)) dst (mem s);
                 s = s\<lparr>mem := m\<rparr> in
             if got_null then Inr (0, s)
             else copyinstr pagetable (dst + n) (va0 + PGSIZE) (max_len - n) s)
      else Inr (-1, s))"
  by pat_completeness auto

termination
  by (relation "measure (\<lambda>(_, _, _, len, _). unat len)") (simp_all add: chunk_less)

declare copyout.simps [simp del] copyin.simps [simp del] copyinstr.simps [simp del]

section \<open>The kernel page table\<close>

text \<open>
  The kernel's global page table, the linker symbols \<^verbatim>\<open>etext\<close> and \<^verbatim>\<open>trampoline\<close>, and the
  address-translation register of each CPU.
\<close>

record kvm = phys +
  kernel_pagetable :: uint64
  etext :: uint64
  trampoline :: uint64
  satp :: "nat \<Rightarrow> uint64"

definition proc_mapstacks :: "uint64 \<Rightarrow> 'a phys_scheme \<Rightarrow> 'a phys_scheme res" where
  "proc_mapstacks kpgtbl s =
     forE (\<lambda>p s.
       bindE (kalloc s) (\<lambda>(pa, s).
       if pa = 0 then Inl (Panic ''kalloc'')
       else kvmmap kpgtbl (KSTACK (word_of_nat p)) pa PGSIZE (ucast (PTE_R OR PTE_W)) s)) [0..<NPROC] s"

definition kvmmake :: "'a kvm_scheme \<Rightarrow> (uint64 \<times> 'a kvm_scheme) res" where
  "kvmmake s =
     bindE (kalloc s) (\<lambda>(kpgtbl, s).
     if kpgtbl = 0 then Inl Fault
     else let s = s\<lparr>mem := memset kpgtbl 0 (ucast PGSIZE) (mem s)\<rparr> in
       bindE (kvmmap kpgtbl UART0 UART0 PGSIZE (ucast (PTE_R OR PTE_W)) s) (\<lambda>s.
       bindE (kvmmap kpgtbl VIRTIO0 VIRTIO0 PGSIZE (ucast (PTE_R OR PTE_W)) s) (\<lambda>s.
       bindE (kvmmap kpgtbl PLIC PLIC 0x4000000 (ucast (PTE_R OR PTE_W)) s) (\<lambda>s.
       bindE (kvmmap kpgtbl KERNBASE KERNBASE (etext s - KERNBASE) (ucast (PTE_R OR PTE_X)) s) (\<lambda>s.
       bindE (kvmmap kpgtbl (etext s) (etext s) (PHYSTOP - etext s) (ucast (PTE_R OR PTE_W)) s) (\<lambda>s.
       bindE (kvmmap kpgtbl TRAMPOLINE (trampoline s) PGSIZE (ucast (PTE_R OR PTE_X)) s) (\<lambda>s.
       bindE (proc_mapstacks kpgtbl s) (\<lambda>s.
       Inr (kpgtbl, s)))))))))"

definition kvminit :: "'a kvm_scheme \<Rightarrow> 'a kvm_scheme res" where
  "kvminit s = bindE (kvmmake s) (\<lambda>(kpgtbl, s). Inr (s\<lparr>kernel_pagetable := kpgtbl\<rparr>))"

definition kvminithart :: "'a kvm_scheme \<Rightarrow> 'a kvm_scheme" where
  "kvminithart s = s\<lparr>satp := (satp s)(hart s := MAKE_SATP (kernel_pagetable s))\<rparr>"

end
