(* ===== verification/PageTable.thy ===== *)
theory PageTable
  imports Vm
begin

text \<open>
  Correctness of the page-table code of theory \<open>Vm\<close>. A page table in memory is a tree of
  three levels; walking with allocation links fresh zeroed pages into the tree without
  changing any translation, and mapping and unmapping change exactly the leaf entries of
  the pages in their range.
\<close>


section \<open>Page tables as trees\<close>

definition slot :: "uint64 \<Rightarrow> nat \<Rightarrow> uint64" where
  "slot p i = p + word_of_nat (8 * i)"

definition entry :: "memory \<Rightarrow> uint64 \<Rightarrow> nat \<Rightarrow> uint64" where
  "entry m p i = load64 m (slot p i)"

fun table_at :: "memory \<Rightarrow> uint64 \<Rightarrow> nat list \<Rightarrow> uint64 option" where
  "table_at m p [] = Some p"
| "table_at m p (i # is) = (if bit (entry m p i) 0 then table_at m (PTE2PA (entry m p i)) is else None)"

definition vpath :: "nat list \<Rightarrow> bool" where
  "vpath is \<longleftrightarrow> length is \<le> 2 \<and> (\<forall>i \<in> set is. i < 512)"

definition tables :: "memory \<Rightarrow> uint64 \<Rightarrow> uint64 set" where
  "tables m root = {p. \<exists>is. vpath is \<and> table_at m root is = Some p}"

text \<open>Well formed: no page is used twice as a table, and page 0 is none.\<close>

definition pt_wf :: "memory \<Rightarrow> uint64 \<Rightarrow> bool" where
  "pt_wf m root \<longleftrightarrow> aligned root \<and> 0 \<notin> tables m root \<and>
     (\<forall>is js p. vpath is \<and> vpath js \<and> table_at m root is = Some p \<and> table_at m root js = Some p \<longrightarrow> is = js)"

definition vidx :: "nat \<Rightarrow> uint64 \<Rightarrow> nat" where
  "vidx l va = unat (PX l va)"

text \<open>The leaf entry for a virtual address; 0, an invalid entry, where a table is missing.\<close>

definition pte_of :: "memory \<Rightarrow> uint64 \<Rightarrow> uint64 \<Rightarrow> uint64" where
  "pte_of m root va =
     (case table_at m root [vidx 2 va, vidx 1 va] of None \<Rightarrow> 0 | Some p \<Rightarrow> entry m p (vidx 0 va))"

lemma vidx_less [simp]: "vidx l va < 512"
  using PX_less [of l va] by (simp add: vidx_def word_less_nat_alt)

lemma vpath_vidx [simp]: "vpath []" "vpath [vidx l va]" "vpath [vidx l va, vidx k va]"
  by (simp_all add: vpath_def)

lemma pte_addr_vidx: "pte_addr p (PX l va) = slot p (vidx l va)"
  by (simp add: pte_addr_def vidx_def slot_def)

lemma load64_pte_addr: "load64 m (pte_addr p (PX l va)) = entry m p (vidx l va)"
  by (simp only: entry_def pte_addr_vidx)

lemma walk_present:
  assumes "va < MAXVA"
  shows "walk root va False s = Inr (case table_at (mem s) root [vidx 2 va, vidx 1 va] of
      None \<Rightarrow> 0 | Some p \<Rightarrow> slot p (vidx 0 va), s)"
proof -
  have "walk root va False s = walk_level (Suc (Suc 0)) root va False s"
    using assms unfolding walk_def by (simp only: numeral_2_eq_2 not_le [symmetric] if_False)
  then show ?thesis
    by (simp add: entry_def pte_addr_vidx pte_flag_bits Let_def numeral_2_eq_2)
qed

lemma table_at_snoc:
  "table_at m p (is @ [i]) = (case table_at m p is of None \<Rightarrow> None
     | Some q \<Rightarrow> if bit (entry m q i) 0 then Some (PTE2PA (entry m q i)) else None)"
  by (induction "is" arbitrary: p) auto

lemma table_at_aligned: "\<lbrakk>aligned p; table_at m p is = Some q\<rbrakk> \<Longrightarrow> aligned q"
proof (induction "is" arbitrary: p)
  case (Cons i "is")
  then show ?case using Cons.IH [OF aligned_PTE2PA] by (auto split: if_splits)
qed simp

lemma tables_aligned: "\<lbrakk>pt_wf m root; p \<in> tables m root\<rbrakk> \<Longrightarrow> aligned p"
  by (auto simp: tables_def pt_wf_def intro: table_at_aligned)

lemma vpath_snoc: "vpath (is @ [i]) \<longleftrightarrow> length is < 2 \<and> vpath is \<and> i < 512"
  by (auto simp: vpath_def)

lemma entry_store:
  assumes "aligned p" "aligned q" "i < 512" "j < 512"
  shows "entry (store64 (slot p i) v m) q j = (if q = p \<and> j = i then v else entry m q j)"
proof (cases "q = p")
  case True
  then show ?thesis using load64_store64_slot [of i j p v m, folded slot_def] assms by (auto simp: entry_def)
next
  case False
  have "store64 (slot p i) v m a = m a" if "in_page q a" for a
    unfolding slot_def
  proof (rule store64_page)
    show "\<not> in_page p a" using in_page_unique [of p q a] that assms False by blast
  qed (use assms in simp)
  moreover have "8 * j + 8 \<le> 4096" using assms(4) by linarith
  ultimately have "entry (store64 (slot p i) v m) q j = entry m q j"
    unfolding entry_def slot_def [of q] by (rule load64_page)
  then show ?thesis using False by simp
qed

lemma entry_page:
  assumes "\<And>a. in_page p a \<Longrightarrow> m' a = m a" "i < 512"
  shows "entry m' p i = entry m p i"
  unfolding entry_def slot_def by (rule load64_page) (use assms in auto)

lemma entry_zero_page:
  assumes "\<And>a. in_page p a \<Longrightarrow> m a = 0" "i < 512"
  shows "entry m p i = 0"
  unfolding entry_def slot_def by (rule load64_zero_page) (use assms in auto)

text \<open>Memory changes outside the tables do not change the tree.\<close>

lemma table_at_frame:
  assumes "\<And>p i. p \<in> tables m root \<Longrightarrow> i < 512 \<Longrightarrow> entry m' p i = entry m p i"
  shows "vpath is \<Longrightarrow> table_at m' root is = table_at m root is"
proof (induction "is" rule: rev_induct)
  case (snoc i "is")
  then have eq: "table_at m' root is = table_at m root is" and v: "vpath is" "i < 512" by (auto simp: vpath_snoc)
  have "entry m' p i = entry m p i" if "table_at m root is = Some p" for p
    using assms [of p i] that v by (auto simp: tables_def)
  then show ?case using eq by (simp add: table_at_snoc split: option.splits)
qed simp

text \<open>Writing one entry changes only the paths through it.\<close>

lemma table_at_store:
  assumes wf: "pt_wf m root" and p: "vpath P" "table_at m root P = Some p" and i: "i < 512"
  shows "vpath is \<Longrightarrow> take (Suc (length P)) is \<noteq> P @ [i] \<Longrightarrow>
    table_at (store64 (slot p i) v m) root is = table_at m root is"
proof (induction "is" rule: rev_induct)
  case (snoc j "is")
  let ?m = "store64 (slot p i) v m"
  have v: "vpath is" "j < 512" using snoc.prems by (auto simp: vpath_snoc)
  have "take (Suc (length P)) is \<noteq> P @ [i]"
  proof
    assume t: "take (Suc (length P)) is = P @ [i]"
    then have "Suc (length P) \<le> length is" by (metis length_append_singleton length_take min.cobounded1)
    with t snoc.prems show False by simp
  qed
  then have IH: "table_at ?m root is = table_at m root is" using snoc.IH v by simp
  have al: "aligned root" "aligned p" using wf p table_at_aligned by (auto simp: pt_wf_def)
  have "entry ?m q j = entry m q j" if q: "table_at m root is = Some q" for q
  proof -
    have "\<not> (q = p \<and> j = i)"
    proof
      assume "q = p \<and> j = i"
      then have "is = P" using wf p v q unfolding pt_wf_def by blast
      with snoc.prems \<open>q = p \<and> j = i\<close> show False by simp
    qed
    then show ?thesis using entry_store [of p q i j v m] al table_at_aligned [OF al(1) q] i v by auto
  qed
  then show ?case using IH by (simp add: table_at_snoc split: option.splits)
qed simp

lemma pt_wf_unique: "\<lbrakk>pt_wf m root; vpath is; vpath js; table_at m root is = Some p; table_at m root js = Some p\<rbrakk> \<Longrightarrow> is = js"
  unfolding pt_wf_def by blast

lemma tablesI: "vpath is \<Longrightarrow> table_at m root is = Some p \<Longrightarrow> p \<in> tables m root"
  by (auto simp: tables_def)

lemma tables_cong: "(\<And>is. vpath is \<Longrightarrow> table_at m' root is = table_at m root is) \<Longrightarrow> tables m' root = tables m root"
  by (auto simp: tables_def)

lemma pt_wf_cong: "(\<And>is. vpath is \<Longrightarrow> table_at m' root is = table_at m root is) \<Longrightarrow> pt_wf m' root = pt_wf m root"
  using tables_cong [of m' root m] by (auto simp: pt_wf_def)

lemma slot_nonzero:
  assumes "aligned p" "p \<noteq> 0" "i < 512" shows "slot p i \<noteq> 0"
proof -
  have "\<not> in_page p 0" using assms(1,2) by (simp add: in_page_iff PGROUNDDOWN_def)
  moreover have "in_page p (slot p i)" unfolding slot_def by (rule in_page_offset) (use assms in simp)
  ultimately show ?thesis by metis
qed

lemma in_page_slot_page: "i < 512 \<Longrightarrow> in_page p (slot p i)"
  unfolding slot_def by (rule in_page_offset) simp

declare table_at.simps(2) [simp del]

text \<open>Writing a leaf entry.\<close>

lemma set_leaf:
  fixes v :: uint64
  assumes wf: "pt_wf m root" and p: "table_at m root [i2, i1] = Some p" and i: "i2 < 512" "i1 < 512" "i0 < 512"
  defines "m' \<equiv> store64 (slot p i0) v m"
  shows "vpath is \<Longrightarrow> table_at m' root is = table_at m root is"
    and "pte_of m' root va = (if vidx 2 va = i2 \<and> vidx 1 va = i1 \<and> vidx 0 va = i0 then v else pte_of m root va)"
proof -
  have vp: "vpath [i2, i1]" using i by (simp add: vpath_def)
  have same: "table_at m' root is = table_at m root is" if "vpath is" for "is"
    unfolding m'_def
  proof (rule table_at_store [OF wf vp p i(3) that])
    show "take (Suc (length [i2, i1])) is \<noteq> [i2, i1] @ [i0]" using that by (auto simp: vpath_def dest: arg_cong [of _ _ length])
  qed
  then show "vpath is \<Longrightarrow> table_at m' root is = table_at m root is" .
  have ent: "entry m' q j = (if q = p \<and> j = i0 then v else entry m q j)"
    if "table_at m root js = Some q" "vpath js" "j < 512" for q j js
    unfolding m'_def using tables_aligned [OF wf tablesI [OF vp p]] tables_aligned [OF wf tablesI [OF that(2,1)]] that i
    by (intro entry_store)
  show "pte_of m' root va = (if vidx 2 va = i2 \<and> vidx 1 va = i1 \<and> vidx 0 va = i0 then v else pte_of m root va)"
  proof (cases "table_at m root [vidx 2 va, vidx 1 va]")
    case None
    moreover have "\<not> (vidx 2 va = i2 \<and> vidx 1 va = i1)" using None p by auto
    ultimately show ?thesis by (auto simp: pte_of_def same)
  next
    case (Some q)
    then have "q = p \<longleftrightarrow> [vidx 2 va, vidx 1 va] = [i2, i1]"
      using pt_wf_unique [OF wf vpath_vidx(3) vp Some] p by auto
    then show ?thesis using ent [OF Some vpath_vidx(3) vidx_less] Some by (auto simp: pte_of_def same)
  qed
qed

text \<open>Linking a fresh zeroed page as a table.\<close>

lemma add_table_path:
  assumes wf: "pt_wf m root" and P: "vpath (P @ [i])" and p: "table_at m root P = Some p" "\<not> bit (entry m p i) 0"
    and q: "aligned q" "q \<notin> tables m root"
    and z: "\<And>a. mz a = (if in_page q a then 0 else m a)"
  defines "m' \<equiv> store64 (slot p i) (PA2PTE q OR PTE_V) mz"
  shows "vpath is \<Longrightarrow> table_at m' root is = (if is = P @ [i] then Some q else table_at m root is)"
    and "\<And>j. j < 512 \<Longrightarrow> entry m' q j = 0"
    and "\<And>r j. r \<in> tables m root \<Longrightarrow> j < 512 \<Longrightarrow> \<not> (r = p \<and> j = i) \<Longrightarrow> entry m' r j = entry m r j"
proof -
  have v: "vpath P" "i < 512" "length P < 2" using P by (auto simp: vpath_snoc)
  have pt: "p \<in> tables m root" using v p by (auto intro: tablesI)
  then have ap: "aligned p" "p \<noteq> q" using tables_aligned [OF wf] q by auto
  have mz: "entry mz r j = entry m r j" if "r \<in> tables m root" "j < 512" for r j
  proof (rule entry_page)
    show "mz a = m a" if "in_page r a" for a
      using that in_page_unique [of q r a] tables_aligned [OF wf] \<open>r \<in> tables m root\<close> q z by auto
  qed (rule that)
  then have tz: "table_at mz root js = table_at m root js" if "vpath js" for js using table_at_frame that by blast
  have wfz: "pt_wf mz root" using pt_wf_cong [OF tz] wf by simp
  have st: "entry m' r j = (if r = p \<and> j = i then PA2PTE q OR PTE_V else entry mz r j)" if "aligned r" "j < 512" for r j
    unfolding m'_def using ap that v by (intro entry_store) auto
  show zero: "entry m' q j = 0" if "j < 512" for j
    using st [OF q(1) that] ap entry_zero_page [of q mz j] that z by simp
  show "entry m' r j = entry m r j" if "r \<in> tables m root" "j < 512" "\<not> (r = p \<and> j = i)" for r j
    using st [of r j] tables_aligned [OF wf] mz that by auto
  have other: "table_at m' root js = table_at m root js" if "vpath js" "take (Suc (length P)) js \<noteq> P @ [i]" for js
    unfolding m'_def using table_at_store [OF wfz v(1) _ v(2)] tz p that v(1) by metis
  have "PA2PTE q OR PTE_V = PA2PTE q OR 1" "bit (PA2PTE q OR 1) 0" by (simp_all add: PTE_V_def bit_or_iff)
  then have new: "table_at m' root (P @ [i]) = Some q"
    using other [of P] v p(1) st [OF ap(1) v(2)] PTE2PA_PA2PTE [OF q(1), of 1] by (simp add: table_at_snoc)
  show "table_at m' root is = (if is = P @ [i] then Some q else table_at m root is)" if "vpath is"
  proof (cases "take (Suc (length P)) is = P @ [i]")
    case True
    then obtain js where js: "is = (P @ [i]) @ js" by (metis append_take_drop_id)
    have old: "table_at m root (P @ [i]) = None" using p by (simp add: table_at_snoc)
    show ?thesis
    proof (cases js rule: rev_cases)
      case (snoc ks j)
      then have "ks = []" "j < 512" using that js by (auto simp: vpath_def)
      then have "table_at m' root is = None"
        using table_at_snoc [of m' root "P @ [i]" j] js snoc new zero by simp
      moreover have "table_at m root is = None"
        using table_at_snoc [of m root "P @ [i]" j] js snoc old \<open>ks = []\<close> by simp
      ultimately show ?thesis using js snoc by simp
    qed (use js new in simp)
  qed (use other that in auto)
qed

lemma add_table:
  assumes wf: "pt_wf m root" and P: "vpath (P @ [i])" and p: "table_at m root P = Some p" "\<not> bit (entry m p i) 0"
    and q: "aligned q" "q \<noteq> 0" "q \<notin> tables m root"
    and z: "\<And>a. mz a = (if in_page q a then 0 else m a)"
  defines "m' \<equiv> store64 (slot p i) (PA2PTE q OR PTE_V) mz"
  shows "pt_wf m' root" and "tables m' root = insert q (tables m root)" and "table_at m' root (P @ [i]) = Some q"
    and "\<And>is r. vpath is \<Longrightarrow> table_at m root is = Some r \<Longrightarrow> table_at m' root is = Some r"
    and "pte_of m' root va = pte_of m root va"
proof -
  note a = add_table_path [OF wf P p q(1,3) z, folded m'_def]
  have old: "table_at m root (P @ [i]) = None" using p by (simp add: table_at_snoc)
  show "table_at m' root (P @ [i]) = Some q" using a(1) P by simp
  show keep: "table_at m' root is = Some r" if "vpath is" "table_at m root is = Some r" for "is" r
    using a(1) [OF that(1)] that old by auto
  show tab: "tables m' root = insert q (tables m root)"
  proof (rule set_eqI)
    fix r show "r \<in> tables m' root \<longleftrightarrow> r \<in> insert q (tables m root)"
      unfolding tables_def using a(1) P keep by (auto split: if_splits)
  qed
  have "q \<notin> tables m root" by (rule q)
  then have no: "table_at m root is \<noteq> Some q" if "vpath is" for "is" using that by (auto simp: tables_def)
  show "pt_wf m' root"
    unfolding pt_wf_def
  proof (intro conjI allI impI; (elim conjE)?)
    show "aligned root" "0 \<notin> tables m' root" using wf tab q(2) by (auto simp: pt_wf_def)
    fix "is" js r assume "vpath is" "vpath js" "table_at m' root is = Some r" "table_at m' root js = Some r"
    then show "is = js" using a(1) [of "is"] a(1) [of js] no pt_wf_unique [OF wf] by (auto split: if_splits)
  qed
  show "pte_of m' root va = pte_of m root va"
  proof (cases "[vidx 2 va, vidx 1 va] = P @ [i]")
    case True
    show ?thesis unfolding pte_of_def True using a(1) [OF P] a(2) old by simp
  next
    case False
    then have eq: "table_at m' root [vidx 2 va, vidx 1 va] = table_at m root [vidx 2 va, vidx 1 va]"
      unfolding a(1) [OF vpath_vidx(3)] by (rule if_not_P)
    have "entry m' r (vidx 0 va) = entry m r (vidx 0 va)" if r: "table_at m root [vidx 2 va, vidx 1 va] = Some r" for r
    proof (rule a(3))
      show "r \<in> tables m root" using tablesI [OF vpath_vidx(3) r] .
      have "vpath P" "length P < 2" using P by (auto simp: vpath_snoc)
      then show "\<not> (r = p \<and> vidx 0 va = i)" using pt_wf_unique [OF wf vpath_vidx(3) _ r, of P] p by auto
    qed simp
    then show ?thesis using eq by (simp add: pte_of_def split: option.splits)
  qed
qed

section \<open>Walking with allocation\<close>

text \<open>
  The tables of an address space and the free pages are disjoint. \<open>vm_ext\<close> relates a state to
  one in which some free pages may have become tables: every leaf entry is as before, and
  memory outside the tables is untouched.
\<close>

definition vm_inv :: "'a phys_scheme \<Rightarrow> uint64 \<Rightarrow> uint64 list \<Rightarrow> bool" where
  "vm_inv s root ps \<longleftrightarrow> pt_wf (mem s) root \<and> kmem_inv s ps \<and> set ps \<inter> tables (mem s) root = {} \<and>
     (\<forall>p \<in> tables (mem s) root. managed (kernel_end s) p)"

definition vm_grow :: "uint64 \<Rightarrow> 'a phys_scheme \<Rightarrow> uint64 list \<Rightarrow> 'a phys_scheme \<Rightarrow> uint64 list \<Rightarrow> bool" where
  "vm_grow root s ps s' ps' \<longleftrightarrow> vm_inv s' root ps' \<and> kernel_end s' = kernel_end s \<and>
     (\<exists>new. ps = new @ ps' \<and> tables (mem s') root = tables (mem s) root \<union> set new) \<and>
     (\<forall>is p. vpath is \<and> table_at (mem s) root is = Some p \<longrightarrow> table_at (mem s') root is = Some p) \<and>
     (\<forall>a. (\<forall>p \<in> tables (mem s') root. \<not> in_page p a) \<longrightarrow> mem s' a = mem s a)"

definition vm_ext :: "uint64 \<Rightarrow> 'a phys_scheme \<Rightarrow> uint64 list \<Rightarrow> 'a phys_scheme \<Rightarrow> uint64 list \<Rightarrow> bool" where
  "vm_ext root s ps s' ps' \<longleftrightarrow> vm_grow root s ps s' ps' \<and> (\<forall>va. pte_of (mem s') root va = pte_of (mem s) root va)"

lemma vm_grow_refl: "vm_inv s root ps \<Longrightarrow> vm_grow root s ps s ps"
  by (simp add: vm_grow_def)

lemma vm_ext_refl: "vm_inv s root ps \<Longrightarrow> vm_ext root s ps s ps"
  by (simp add: vm_ext_def vm_grow_refl)

lemma vm_grow_trans:
  assumes a: "vm_grow root s ps s1 ps1" and b: "vm_grow root s1 ps1 s2 ps2"
  shows "vm_grow root s ps s2 ps2"
proof -
  obtain n1 n2 where n: "ps = n1 @ ps1" "tables (mem s1) root = tables (mem s) root \<union> set n1"
    "ps1 = n2 @ ps2" "tables (mem s2) root = tables (mem s1) root \<union> set n2"
    using a b unfolding vm_grow_def by blast
  then have "ps = (n1 @ n2) @ ps2 \<and> tables (mem s2) root = tables (mem s) root \<union> set (n1 @ n2)" by auto
  with a b n show ?thesis unfolding vm_grow_def by (intro conjI exI [of _ "n1 @ n2"]) auto
qed

lemma vm_ext_trans: "vm_ext root s ps s1 ps1 \<Longrightarrow> vm_ext root s1 ps1 s2 ps2 \<Longrightarrow> vm_ext root s ps s2 ps2"
  using vm_grow_trans by (auto simp: vm_ext_def)

lemma slot_store_frame:
  assumes "\<not> in_page p a" "i < 512" shows "store64 (slot p i) v m a = m a"
  unfolding slot_def by (rule store64_page) (use assms in auto)

lemma kmem_inv_frame:
  assumes "kmem_inv s ps" "\<And>q a. q \<in> set ps \<Longrightarrow> in_page q a \<Longrightarrow> m a = mem s a"
  shows "kmem_inv (s\<lparr>mem := m\<rparr>) ps"
  using assms is_freelist_frame [of "mem s" "freelist s" ps m] by (simp add: kmem_inv_def)

lemma kmem_inv_aligned: "kmem_inv s ps \<Longrightarrow> q \<in> set ps \<Longrightarrow> aligned q"
  by (simp add: kmem_inv_def managed_def)

text \<open>Writes to one page that is not free do not disturb the free list.\<close>

lemma kmem_inv_write:
  assumes "kmem_inv s ps" "aligned p" "p \<notin> set ps" "\<And>a. \<not> in_page p a \<Longrightarrow> m a = mem s a"
  shows "kmem_inv (s\<lparr>mem := m\<rparr>) ps"
proof (rule kmem_inv_frame [OF assms(1)])
  fix q a assume "q \<in> set ps" "in_page q a"
  then have "\<not> in_page p a" using in_page_unique [of p q a] assms(2,3) kmem_inv_aligned [OF assms(1)] by blast
  then show "m a = mem s a" by (rule assms(4))
qed

lemma walk_step:
  assumes inv: "vm_inv s root ps" and P: "vpath (P @ [vidx (Suc l) va])" and p: "table_at (mem s) root P = Some p"
  shows "(\<exists>s'. walk_level (Suc l) p va True s = Inr (0, s') \<and> vm_ext root s ps s' [] \<and> ps = []) \<or>
    (\<exists>q s' ps'. walk_level (Suc l) p va True s = walk_level l q va True s' \<and> vm_ext root s ps s' ps' \<and>
       table_at (mem s') root (P @ [vidx (Suc l) va]) = Some q \<and> length ps \<le> Suc (length ps'))"
proof (cases "bit (entry (mem s) p (vidx (Suc l) va)) 0")
  case True
  then have "walk_level (Suc l) p va True s = walk_level l (PTE2PA (entry (mem s) p (vidx (Suc l) va))) va True s"
    by (simp add: Let_def pte_flag_bits load64_pte_addr)
  moreover have "table_at (mem s) root (P @ [vidx (Suc l) va]) = Some (PTE2PA (entry (mem s) p (vidx (Suc l) va)))"
    using True p by (simp add: table_at_snoc)
  ultimately show ?thesis using vm_ext_refl [OF inv] le_SucI [OF order_refl] by blast
next
  case False
  have i: "pt_wf (mem s) root" "kmem_inv s ps" "set ps \<inter> tables (mem s) root = {}"
    "\<forall>p \<in> tables (mem s) root. managed (kernel_end s) p" using inv by (auto simp: vm_inv_def)
  show ?thesis
  proof (cases ps)
    case Nil
    with kalloc_empty i(2) obtain s' where "kalloc s = Inr (0, s')" "kmem_inv s' []" "kernel_end s' = kernel_end s" "mem s' = mem s"
      by blast
    then show ?thesis using False inv Nil
      by (auto simp: vm_ext_def vm_grow_def vm_inv_def Let_def pte_flag_bits load64_pte_addr)
  next
    case (Cons q qs)
    obtain s1 where s1: "kalloc s = Inr (q, s1)" "kmem_inv s1 qs" "kernel_end s1 = kernel_end s"
      "\<And>a. mem s1 a = (if in_page q a then 5 else mem s a)"
      using kalloc_inv [of s q qs] i(2) Cons by blast
    have q: "aligned q" "q \<noteq> 0" "q \<notin> tables (mem s) root" "q \<notin> set qs"
      using i Cons kmem.free_pool [of s ps q] kmem.free_distinct [of s ps] by (auto simp: managed_def)
    let ?m = "store64 (slot p (vidx (Suc l) va)) (PA2PTE q OR PTE_V) (memset q 0 (ucast PGSIZE) (mem s1))"
    have z: "memset q 0 (ucast PGSIZE) (mem s1) a = (if in_page q a then 0 else mem s a)" for a
      by (simp add: memset_page s1)
    note t = add_table [OF i(1) P p False q(1,2,3) z]
    have pt: "p \<in> tables ?m root" "q \<in> tables ?m root" using t(2) tablesI P p by (auto simp: vpath_snoc)
    have frame: "?m a = mem s a" if "\<forall>p \<in> tables ?m root. \<not> in_page p a" for a
      using that pt z by (simp add: slot_store_frame)
    have "kmem_inv (s1\<lparr>mem := memset q 0 (ucast PGSIZE) (mem s1)\<rparr>) qs"
      by (rule kmem_inv_write [OF s1(2) q(1,4)]) (simp add: memset_page)
    then have "kmem_inv (s1\<lparr>mem := memset q 0 (ucast PGSIZE) (mem s1), mem := ?m\<rparr>) qs"
    proof (rule kmem_inv_write)
      have pt: "p \<in> tables (mem s) root" using tablesI P p by (auto simp: vpath_snoc)
      show "aligned p" "p \<notin> set qs" using tables_aligned [OF i(1) pt] pt i(3) Cons by auto
    qed (simp add: slot_store_frame)
    then have "kmem_inv (s1\<lparr>mem := ?m\<rparr>) qs" by simp
    then have "vm_ext root s ps (s1\<lparr>mem := ?m\<rparr>) qs"
      using frame t(1,2,4,5) s1(3) i(3,4) q(4) Cons kmem.free_pool [of s ps q] i(2) by (auto simp: vm_ext_def vm_grow_def vm_inv_def)
    moreover have "walk_level (Suc l) p va True s = walk_level l q va True (s1\<lparr>mem := ?m\<rparr>)"
      using False s1(1) q(2) by (simp add: Let_def pte_flag_bits load64_pte_addr) (simp add: pte_addr_vidx)
    moreover have "length ps \<le> Suc (length qs)" using Cons by simp
    ultimately show ?thesis using t(3) by fastforce
  qed
qed

lemma walk_alloc:
  assumes "vm_inv s root ps" "va < MAXVA"
  shows "\<exists>pte s' ps'. walk root va True s = Inr (pte, s') \<and> vm_ext root s ps s' ps' \<and>
    (pte = 0 \<and> ps' = [] \<and> length ps \<le> 1 \<or>
     pte \<noteq> 0 \<and> (\<exists>p. table_at (mem s') root [vidx 2 va, vidx 1 va] = Some p \<and> pte = slot p (vidx 0 va)) \<and>
     length ps \<le> length ps' + 2)"
proof -
  have w: "walk root va True s = walk_level (Suc (Suc 0)) root va True s"
    using assms(2) unfolding walk_def by (simp only: numeral_2_eq_2 not_le [symmetric] if_False)
  have "vpath ([] @ [vidx (Suc (Suc 0)) va])" "table_at (mem s) root [] = Some root" by simp_all
  from walk_step [OF assms(1) this] consider
    s1 where "walk root va True s = Inr (0, s1)" "vm_ext root s ps s1 []" "ps = []"
  | q s1 ps1 where "walk root va True s = walk_level (Suc 0) q va True s1" "vm_ext root s ps s1 ps1"
      "table_at (mem s1) root [vidx 2 va] = Some q" "length ps \<le> Suc (length ps1)"
    unfolding w by (auto simp: numeral_2_eq_2)
  then show ?thesis
  proof cases
    case 2
    have "vm_inv s1 root ps1" using 2 by (simp add: vm_ext_def vm_grow_def)
    from walk_step [OF this _ 2(3), where l = 0 and va = va] consider
      s2 where "walk root va True s = Inr (0, s2)" "vm_ext root s1 ps1 s2 []" "ps1 = []"
    | r s2 ps2 where "walk root va True s = Inr (pte_addr r (PX 0 va), s2)" "vm_ext root s1 ps1 s2 ps2"
        "table_at (mem s2) root [vidx 2 va, vidx 1 va] = Some r" "length ps1 \<le> Suc (length ps2)"
      unfolding 2(1) by auto
    then show ?thesis
    proof cases
      case 1
      then show ?thesis using vm_ext_trans [OF 2(2)] 2(4) by auto
    next
      case b: 2
      have "pt_wf (mem s2) root" using b by (simp add: vm_ext_def vm_grow_def vm_inv_def)
      then have "aligned r" "r \<noteq> 0"
        using tables_aligned tablesI [OF vpath_vidx(3) b(3)] by (auto simp: pt_wf_def)
      then have "slot r (vidx 0 va) \<noteq> 0" by (simp add: slot_nonzero)
      then show ?thesis using b vm_ext_trans [OF 2(2) b(2)] 2(4) by (auto simp: pte_addr_vidx)
    qed
  qed auto
qed

lemma bit_PGROUNDDOWN: "bit (PGROUNDDOWN va) n \<longleftrightarrow> 12 \<le> n \<and> bit va n"
  by (auto simp: PGROUNDDOWN_eq bit_push_bit_iff bit_drop_bit_eq dest: bit_imp_le_length)

lemma PX_PGROUNDDOWN: "PX l (PGROUNDDOWN va) = PX l va"
  by (rule bit_word_eqI) (simp add: bit_PX bit_PGROUNDDOWN)

lemma PGROUNDDOWN_le: "PGROUNDDOWN va \<le> va"
  by (simp add: word_le_nat_alt unat_PGROUNDDOWN)

lemma PGROUNDDOWN_aligned: "aligned a \<Longrightarrow> PGROUNDDOWN a = a"
  using in_page_iff [of a a] by (simp add: in_page_def)

lemma PX_eq_vidx: "vidx l va = vidx l va' \<longleftrightarrow> PX l va = PX l va'"
  unfolding vidx_def by (rule word_unat_eq_iff [symmetric])

lemma vidx_eq_iff:
  assumes "va < MAXVA" "va' < MAXVA"
  shows "vidx 2 va = vidx 2 va' \<and> vidx 1 va = vidx 1 va' \<and> vidx 0 va = vidx 0 va' \<longleftrightarrow> PGROUNDDOWN va = PGROUNDDOWN va'"
  unfolding PX_eq_vidx
proof
  assume v: "PX 2 va = PX 2 va' \<and> PX 1 va = PX 1 va' \<and> PX 0 va = PX 0 va'"
  show "PGROUNDDOWN va = PGROUNDDOWN va'"
  proof (rule PX_inject)
    show "PGROUNDDOWN va < MAXVA" "PGROUNDDOWN va' < MAXVA"
      using order.strict_trans1 [OF PGROUNDDOWN_le] assms by blast+
    fix l :: nat assume "l \<le> 2"
    then consider "l = 0" | "l = 1" | "l = 2" by linarith
    then show "PX l (PGROUNDDOWN va) = PX l (PGROUNDDOWN va')"
      unfolding PX_PGROUNDDOWN using v by cases simp_all
  qed (rule aligned_PGROUND)+
next
  assume "PGROUNDDOWN va = PGROUNDDOWN va'"
  then have "PX l (PGROUNDDOWN va) = PX l (PGROUNDDOWN va')" for l by (rule arg_cong)
  then show "PX 2 va = PX 2 va' \<and> PX 1 va = PX 1 va' \<and> PX 0 va = PX 0 va'" unfolding PX_PGROUNDDOWN by blast
qed

text \<open>Writing the leaf entry of a virtual address.\<close>

lemma set_pte:
  fixes s :: "'a phys_scheme" and v :: uint64
  assumes inv: "vm_inv s root ps" and p: "table_at (mem s) root [vidx 2 va, vidx 1 va] = Some p" and va: "va < MAXVA"
  defines "s' \<equiv> s\<lparr>mem := store64 (slot p (vidx 0 va)) v (mem s)\<rparr>"
  shows "vm_grow root s ps s' ps"
    and "x < MAXVA \<Longrightarrow> pte_of (mem s') root x = (if PGROUNDDOWN x = PGROUNDDOWN va then v else pte_of (mem s) root x)"
    and "tables (mem s') root = tables (mem s) root"
proof -
  have i: "pt_wf (mem s) root" "kmem_inv s ps" "set ps \<inter> tables (mem s) root = {}"
    "\<forall>p \<in> tables (mem s) root. managed (kernel_end s) p" using inv by (auto simp: vm_inv_def)
  note l = set_leaf [where v = v and ?i0.0 = "vidx 0 va", OF i(1) p vidx_less vidx_less vidx_less]
  have t: "tables (mem s') root = tables (mem s) root" "pt_wf (mem s') root"
    using tables_cong [OF l(1)] pt_wf_cong [OF l(1)] i(1) by (simp_all add: s'_def)
  then show "tables (mem s') root = tables (mem s) root" by simp
  have pt: "p \<in> tables (mem s) root" using tablesI [OF vpath_vidx(3) p] .
  have "kmem_inv s' ps"
    unfolding s'_def using pt i tables_aligned [OF i(1) pt]
    by (intro kmem_inv_write [where p = p]) (auto simp: slot_store_frame)
  then show "vm_grow root s ps s' ps"
    using t i l(1) pt by (auto simp: vm_grow_def vm_inv_def s'_def slot_store_frame)
  show "pte_of (mem s') root x = (if PGROUNDDOWN x = PGROUNDDOWN va then v else pte_of (mem s) root x)" if "x < MAXVA"
    using l(2) [where va = x] vidx_eq_iff [OF that va] by (auto simp: s'_def)
qed

section \<open>Mapping\<close>

lemma unat_MAXVA: "unat MAXVA = 274877906944"
  by (simp add: MAXVA_def)

lemma aligned_next:
  assumes "aligned a" "aligned q" "a < MAXVA"
  shows "a + PGSIZE \<le> q \<longleftrightarrow> a < q" "a < a + PGSIZE"
proof -
  have a: "unat a = 4096 * (unat a div 4096)" and q: "unat q = 4096 * (unat q div 4096)"
    using assms mult_div_mod_eq [of 4096 "unat a"] mult_div_mod_eq [of 4096 "unat q"] by (simp_all add: aligned_unat)
  have "unat a < 274877906944" using assms(3) unat_MAXVA by (simp add: word_less_nat_alt)
  then have u: "unat (a + PGSIZE) = unat a + 4096" by (simp add: PGSIZE_def unat_word_ariths)
  define i j where "i = unat a div 4096" and "j = unat q div 4096"
  have "4096 * i + 4096 \<le> 4096 * j \<longleftrightarrow> 4096 * i < 4096 * j" by auto
  then show "a + PGSIZE \<le> q \<longleftrightarrow> a < q"
    unfolding word_less_nat_alt word_le_nat_alt u using a q by (simp add: i_def j_def)
  show "a < a + PGSIZE" unfolding word_less_nat_alt u by simp
qed

text \<open>The pages from \<open>a\<close> to \<open>b\<close>, both included.\<close>

definition covers :: "uint64 \<Rightarrow> uint64 \<Rightarrow> uint64 \<Rightarrow> bool" where
  "covers a b x \<longleftrightarrow> a \<le> PGROUNDDOWN x \<and> PGROUNDDOWN x \<le> b"

lemma covers_step:
  assumes "aligned a" "a < MAXVA" "a < b"
  shows "covers a b x \<longleftrightarrow> PGROUNDDOWN x = a \<or> covers (a + PGSIZE) b x"
  using aligned_next [where q = "PGROUNDDOWN x", OF assms(1) aligned_PGROUND(1) assms(2)] assms(3)
  by (auto simp: covers_def)

lemma covers_one: "covers a a x \<longleftrightarrow> PGROUNDDOWN x = a"
  by (auto simp: covers_def)

lemma pte_of_slot:
  "table_at m root [vidx 2 va, vidx 1 va] = Some p \<Longrightarrow> load64 m (slot p (vidx 0 va)) = pte_of m root va"
  by (simp add: pte_of_def entry_def)

text \<open>What a mapping operation on the pages from \<open>a\<close> to \<open>b\<close> leaves behind.\<close>

definition mapped :: "uint64 \<Rightarrow> uint64 \<Rightarrow> uint64 \<Rightarrow> uint64 \<Rightarrow> uint32 \<Rightarrow> int \<Rightarrow> uint64 list \<Rightarrow> memory \<Rightarrow> memory \<Rightarrow> bool" where
  "mapped root a b pa perm r ps' m m' \<longleftrightarrow>
     (\<forall>x<MAXVA. \<not> covers a b x \<longrightarrow> pte_of m' root x = pte_of m root x) \<and>
     (r = 0 \<and> (\<forall>x<MAXVA. covers a b x \<longrightarrow>
         pte_of m' root x = (PA2PTE (pa + (PGROUNDDOWN x - a)) OR scast perm OR PTE_V)) \<or>
      r = -1 \<and> ps' = [])"

lemma mapped_step:
  assumes cs: "\<And>x. covers a b x \<longleftrightarrow> PGROUNDDOWN x = a \<or> covers (a + PGSIZE) b x"
    and ncov: "\<And>x. PGROUNDDOWN x = a \<Longrightarrow> \<not> covers (a + PGSIZE) b x"
    and pt: "\<And>x. x < MAXVA \<Longrightarrow> pte_of m2 root x =
      (if PGROUNDDOWN x = a then PA2PTE pa OR scast perm OR PTE_V else pte_of m root x)"
    and rest: "mapped root (a + PGSIZE) b (pa + PGSIZE) perm r ps m2 m3"
  shows "mapped root a b pa perm r ps m m3"
proof -
  have eq: "pa + PGSIZE + (PGROUNDDOWN x - (a + PGSIZE)) = pa + (PGROUNDDOWN x - a)" for x by simp
  have "pte_of m3 root x = pte_of m root x" if "x < MAXVA" "\<not> covers a b x" for x
    using rest that cs [of x] pt [of x] by (simp add: mapped_def)
  moreover have "pte_of m3 root x = (PA2PTE (pa + (PGROUNDDOWN x - a)) OR scast perm OR PTE_V)"
    if "x < MAXVA" "covers a b x" "r = 0" for x
  proof (cases "PGROUNDDOWN x = a")
    case True
    then show ?thesis using rest that ncov [of x] pt [of x] by (simp add: mapped_def)
  next
    case False
    then show ?thesis using rest that cs [of x] eq [of x] by (simp add: mapped_def)
  qed
  moreover have "r = 0 \<or> r = -1 \<and> ps = []" using rest by (auto simp: mapped_def)
  ultimately show ?thesis unfolding mapped_def by blast
qed

lemma mappages_from_spec:
  assumes "vm_inv s root ps" "aligned a" "aligned b" "a \<le> b" "b < MAXVA"
    and "\<And>x. x < MAXVA \<Longrightarrow> covers a b x \<Longrightarrow> \<not> bit (pte_of (mem s) root x) 0"
  shows "\<exists>r s' ps'. mappages_from root a b pa perm s = Inr (r, s') \<and> vm_grow root s ps s' ps' \<and>
    mapped root a b pa perm r ps' (mem s) (mem s')"
  using assms
proof (induction root a b pa perm s arbitrary: ps rule: mappages_from.induct)
  case (1 root a b pa perm s)
  have a: "a < MAXVA" using "1.prems"(4,5) by (rule order.strict_trans1)
  obtain pte s1 ps1 where w: "walk root a True s = Inr (pte, s1)" "vm_ext root s ps s1 ps1"
    "pte = 0 \<and> ps1 = [] \<or> pte \<noteq> 0 \<and> (\<exists>p. table_at (mem s1) root [vidx 2 a, vidx 1 a] = Some p \<and> pte = slot p (vidx 0 a))"
    using walk_alloc [OF "1.prems"(1) a] by blast
  have g: "vm_grow root s ps s1 ps1" "\<And>x. pte_of (mem s1) root x = pte_of (mem s) root x"
    using w(2) by (auto simp: vm_ext_def)
  show ?case
  proof (cases "pte = 0")
    case True
    then have "mappages_from root a b pa perm s = Inr (-1, s1)" using w by (simp add: mappages_from.simps)
    then show ?thesis using w True g by (auto simp: mapped_def)
  next
    case False
    then obtain p where p: "table_at (mem s1) root [vidx 2 a, vidx 1 a] = Some p" "pte = slot p (vidx 0 a)"
      using w(3) by blast
    let ?v = "PA2PTE pa OR scast perm OR PTE_V"
    let ?s2 = "s1\<lparr>mem := store64 pte ?v (mem s1)\<rparr>"
    have c: "covers a b a" using "1.prems" by (simp add: covers_def PGROUNDDOWN_aligned)
    have nv: "\<not> bit (load64 (mem s1) pte) 0"
      using "1.prems"(6) [OF a c] p g(2) by (simp add: pte_of_slot)
    have inv1: "vm_inv s1 root ps1" using g by (simp add: vm_grow_def)
    note sp = set_pte [OF inv1 p(1) a, where v = ?v, folded p(2)]
    have g2: "vm_grow root s ps ?s2 ps1" using vm_grow_trans [OF g(1) sp(1)] .
    have pt: "pte_of (mem ?s2) root x = (if PGROUNDDOWN x = a then ?v else pte_of (mem s) root x)" if "x < MAXVA" for x
      using sp(2) [OF that] g(2) "1.prems"(2) by (simp add: PGROUNDDOWN_aligned)
    have step: "mappages_from root a b pa perm s =
      (if a = b then Inr (0, ?s2) else mappages_from root (a + PGSIZE) b (pa + PGSIZE) perm ?s2)"
      using w(1) False nv by (simp add: mappages_from.simps [of root a] pte_flag_bits Let_def)
    show ?thesis
    proof (cases "a = b")
      case True
      then have "mapped root a b pa perm 0 ps1 (mem s) (mem ?s2)"
        using pt by (simp add: mapped_def covers_one)
      then show ?thesis using step True g2 by (intro exI conjI) auto
    next
      case neq: False
      then have ab: "a < b" using "1.prems"(4) by simp
      note cs = covers_step [OF "1.prems"(2) a ab]
      note nx = aligned_next [OF "1.prems"(2) _ a]
      have ncov: "\<not> covers (a + PGSIZE) b x" if "PGROUNDDOWN x = a" for x
        using nx(2) [OF "1.prems"(2)] that by (auto simp: covers_def)
      have "\<exists>r s' ps'. mappages_from root (a + PGSIZE) b (pa + PGSIZE) perm ?s2 = Inr (r, s') \<and>
          vm_grow root ?s2 ps1 s' ps' \<and> mapped root (a + PGSIZE) b (pa + PGSIZE) perm r ps' (mem ?s2) (mem s')"
      proof (rule "1.IH" [OF w(1) refl False _ refl neq])
        show "\<not> load64 (mem s1) pte AND PTE_V \<noteq> 0" using nv by (simp add: pte_flag_bits)
        show "vm_inv ?s2 root ps1" using g2 by (simp add: vm_grow_def)
        show "aligned (a + PGSIZE)" using "1.prems"(2) by (simp add: PGSIZE_def)
        show "a + PGSIZE \<le> b" using nx(1) [OF "1.prems"(3)] ab by simp
        show "\<not> bit (pte_of (mem ?s2) root x) 0" if "x < MAXVA" "covers (a + PGSIZE) b x" for x
          using pt [OF that(1)] ncov that "1.prems"(6) [OF that(1)] cs by auto
      qed (rule "1.prems")+
      then obtain r s3 ps3 where r: "mappages_from root (a + PGSIZE) b (pa + PGSIZE) perm ?s2 = Inr (r, s3)"
        "vm_grow root ?s2 ps1 s3 ps3" "mapped root (a + PGSIZE) b (pa + PGSIZE) perm r ps3 (mem ?s2) (mem s3)" by blast
      have "mapped root a b pa perm r ps3 (mem s) (mem s3)"
        using mapped_step [OF cs ncov pt r(3)] .
      then show ?thesis using step neq r(1) vm_grow_trans [OF g2 r(2)] by auto
    qed
  qed
qed


section \<open>Translation\<close>

definition user_pte :: "memory \<Rightarrow> uint64 \<Rightarrow> uint64 \<Rightarrow> bool" where
  "user_pte m root va \<longleftrightarrow> va < MAXVA \<and> bit (pte_of m root va) 0 \<and> bit (pte_of m root va) 4"

definition user_page :: "memory \<Rightarrow> uint64 \<Rightarrow> uint64 \<Rightarrow> uint64" where
  "user_page m root va = PTE2PA (pte_of m root va)"

text \<open>The physical address of a byte of user memory.\<close>

definition user_addr :: "memory \<Rightarrow> uint64 \<Rightarrow> uint64 \<Rightarrow> uint64" where
  "user_addr m root va = user_page m root va + (va - PGROUNDDOWN va)"

lemma walk_pte:
  assumes "pt_wf (mem s) root" "va < MAXVA"
  obtains pte where "walk root va False s = Inr (pte, s)"
    "pte = 0 \<and> pte_of (mem s) root va = 0 \<or> pte \<noteq> 0 \<and> load64 (mem s) pte = pte_of (mem s) root va"
proof (cases "table_at (mem s) root [vidx 2 va, vidx 1 va]")
  case None
  then have "walk root va False s = Inr (0, s)" "pte_of (mem s) root va = 0"
    using walk_present [OF assms(2), of root s] by (simp_all add: pte_of_def)
  then show ?thesis using that by blast
next
  case (Some p)
  then have "p \<in> tables (mem s) root" by (rule tablesI [OF vpath_vidx(3)])
  then have "slot p (vidx 0 va) \<noteq> 0" using assms(1) tables_aligned by (intro slot_nonzero) (auto simp: pt_wf_def)
  moreover have "walk root va False s = Inr (slot p (vidx 0 va), s)"
    using walk_present [OF assms(2), of root s] Some by simp
  ultimately show ?thesis using that pte_of_slot [OF Some] by blast
qed

lemma walkaddr_eq:
  assumes "pt_wf (mem s) root"
  shows "walkaddr root va s = Inr (if user_pte (mem s) root va then user_page (mem s) root va else 0, s)"
proof (cases "va < MAXVA")
  case True
  obtain pte where w: "walk root va False s = Inr (pte, s)"
    "pte = 0 \<and> pte_of (mem s) root va = 0 \<or> pte \<noteq> 0 \<and> load64 (mem s) pte = pte_of (mem s) root va"
    using walk_pte [OF assms True] .
  have "walkaddr root va s = bindE (walk root va False s) (\<lambda>(pte, s).
        if pte = 0 then Inr (0, s)
        else if load64 (mem s) pte AND PTE_V = 0 then Inr (0, s)
        else if load64 (mem s) pte AND PTE_U = 0 then Inr (0, s)
        else Inr (PTE2PA (load64 (mem s) pte), s))"
    unfolding walkaddr_def by (rule if_not_P) (use True in simp)
  then show ?thesis
    using w True pte_flag_bits(1,5) [of "pte_of (mem s) root va"] by (auto simp: user_pte_def user_page_def)
qed (auto simp: walkaddr_def user_pte_def not_less dest: leD)

lemma pte_of_page: "pte_of m root (PGROUNDDOWN va) = pte_of m root va"
proof -
  have "vidx l (PGROUNDDOWN va) = vidx l va" for l by (simp add: vidx_def PX_PGROUNDDOWN)
  then show ?thesis unfolding pte_of_def by (simp only:)
qed

lemma user_page_page [simp]: "user_page m root (PGROUNDDOWN va) = user_page m root va"
  by (simp add: user_page_def pte_of_page)

lemma MAXVA_page: "PGROUNDDOWN va < MAXVA \<longleftrightarrow> va < MAXVA"
proof -
  have "unat va div 4096 * 4096 < 4096 * 67108864 \<longleftrightarrow> unat va < 4096 * 67108864"
    using mult_div_mod_eq [of 4096 "unat va"] mod_less_divisor [of 4096 "unat va"] by auto
  then show ?thesis by (simp add: word_less_nat_alt unat_PGROUNDDOWN unat_MAXVA)
qed

lemma user_pte_page [simp]: "user_pte m root (PGROUNDDOWN va) = user_pte m root va"
  by (simp add: user_pte_def pte_of_page MAXVA_page)

text \<open>
  A user address space in good order: user pages are pages of the allocator's pool, are not
  page-table pages, and no page is mapped at two places.
\<close>

definition uvm_ok :: "uint64 \<Rightarrow> memory \<Rightarrow> uint64 \<Rightarrow> bool" where
  "uvm_ok e m root \<longleftrightarrow> pt_wf m root \<and>
     (\<forall>x. user_pte m root x \<longrightarrow> managed e (user_page m root x) \<and> user_page m root x \<notin> tables m root) \<and>
     (\<forall>x y. user_pte m root x \<and> user_pte m root y \<and> user_page m root x = user_page m root y \<longrightarrow>
        PGROUNDDOWN x = PGROUNDDOWN y)"

lemma user_addr_in_page: "in_page (user_page m root va) (user_addr m root va)"
  by (simp add: in_page_def user_addr_def unat_offset)

text \<open>Writes outside the tables change no translation.\<close>

lemma frame_tables:
  assumes "pt_wf m root" "\<And>p a. p \<in> tables m root \<Longrightarrow> in_page p a \<Longrightarrow> m' a = m a"
  shows "pte_of m' root = pte_of m root" "tables m' root = tables m root" "pt_wf m' root"
proof -
  have e: "entry m' p i = entry m p i" if "p \<in> tables m root" "i < 512" for p i
    using assms(2) that by (intro entry_page) auto
  then have t: "table_at m' root is = table_at m root is" if "vpath is" for "is" using table_at_frame that by blast
  then show "tables m' root = tables m root" "pt_wf m' root"
    using tables_cong [of m' root m] pt_wf_cong [of m' root m] t assms(1) by blast+
  show "pte_of m' root = pte_of m root"
    using e t [OF vpath_vidx(3)] tablesI [OF vpath_vidx(3)]
    by (intro ext) (auto simp: pte_of_def split: option.splits)
qed

lemma uvm_ok_frame:
  assumes "uvm_ok e m root" "\<And>p a. p \<in> tables m root \<Longrightarrow> in_page p a \<Longrightarrow> m' a = m a"
  shows "uvm_ok e m' root" "pte_of m' root = pte_of m root" "tables m' root = tables m root"
proof -
  have "pt_wf m root" using assms(1) by (simp add: uvm_ok_def)
  from frame_tables [OF this, of m'] assms(2)
  have f: "pte_of m' root = pte_of m root" "tables m' root = tables m root" "pt_wf m' root" by blast+
  show "uvm_ok e m' root" using assms(1) f by (simp add: uvm_ok_def user_pte_def user_page_def)
  show "pte_of m' root = pte_of m root" "tables m' root = tables m root" by (rule f)+
qed

section \<open>Copying to and from user memory\<close>

lemma unat_add_small: "unat (a :: uint64) + n < 2 ^ 64 \<Longrightarrow> unat (a + word_of_nat n) = unat a + n"
  by (simp add: unat_word_ariths unat_of_nat)

lemma managed_no_wrap: "managed e p \<Longrightarrow> unat p + 4096 < 2 ^ 33"
proof -
  assume "managed e p"
  then have "unat p < 2281701376" by (simp add: managed_def word_less_nat_alt unat_PHYSTOP)
  then show ?thesis by simp
qed

lemma ucast_chunk: "unat (ucast (chunk va len) :: uint32) = unat (chunk va len)"
proof -
  have "unat (chunk va len) \<le> 4096" by (simp add: unat_chunk)
  then show ?thesis by (simp add: unsigned_ucast_eq take_bit_nat_eq_self)
qed

text \<open>One page's share of \<^verbatim>\<open>copyout\<close>.\<close>

lemma copyout_chunk:
  assumes p: "managed e p" and src: "unat src + unat len < 2 ^ 64"
  shows "memmove (p + (va - PGROUNDDOWN va)) src (ucast (chunk va len)) m a =
    (if unat (a - (p + (va - PGROUNDDOWN va))) < unat (chunk va len)
     then m (src + (a - (p + (va - PGROUNDDOWN va)))) else m a)"
proof -
  have c: "unat (chunk va len) \<le> unat len" "unat va mod 4096 + unat (chunk va len) \<le> 4096"
    using mod_less_divisor [of 4096 "unat va"] unfolding unat_chunk by linarith+
  have "unat (p + (va - PGROUNDDOWN va)) = unat p + unat va mod 4096"
    using managed_no_wrap [OF p] unat_add_small [of p "unat va mod 4096"] mod_less_divisor [of 4096 "unat va"]
    by (simp flip: unat_offset) 
  then show ?thesis using memmove_apply [of src "ucast (chunk va len)" "p + (va - PGROUNDDOWN va)" m a]
      c src managed_no_wrap [OF p] by (simp add: ucast_chunk)
qed


lemma chunk_bounds:
  "unat (chunk va len) \<le> unat len" "unat va mod 4096 + unat (chunk va len) \<le> 4096"
  "unat len \<noteq> unat (chunk va len) \<Longrightarrow> unat va mod 4096 + unat (chunk va len) = 4096"
  using mod_less_divisor [of 4096 "unat va"] unfolding unat_chunk by linarith+

lemma PGROUNDDOWN_add:
  assumes "unat va mod 4096 + k < 4096" "unat va + k < 2 ^ 64"
  shows "PGROUNDDOWN (va + word_of_nat k) = PGROUNDDOWN va"
proof -
  have "(unat va + k) div 4096 = unat va div 4096" using assms(1) by (simp add: div_add1_eq [of "unat va" k])
  then have "unat (PGROUNDDOWN (va + word_of_nat k)) = unat (PGROUNDDOWN va)"
    unfolding unat_PGROUNDDOWN unat_add_small [OF assms(2)] by simp
  then show ?thesis by (rule word_unat_eq_iff [THEN iffD2])
qed

lemma user_addr_chunk:
  assumes "k < unat (chunk va len)" "unat va + unat len < 2 ^ 64"
  shows "user_addr m root (va + word_of_nat k) = user_page m root va + (va - PGROUNDDOWN va) + word_of_nat k"
    and "PGROUNDDOWN (va + word_of_nat k) = PGROUNDDOWN va"
proof -
  show p: "PGROUNDDOWN (va + word_of_nat k) = PGROUNDDOWN va"
    using assms chunk_bounds(1,2) [where va = va and len = len] by (intro PGROUNDDOWN_add) linarith+
  have "user_page m root (va + word_of_nat k) = user_page m root va" by (metis p user_page_page)
  then show "user_addr m root (va + word_of_nat k) = user_page m root va + (va - PGROUNDDOWN va) + word_of_nat k"
    by (simp add: user_addr_def p algebra_simps)
qed

lemma next_chunk:
  assumes "unat len \<noteq> unat (chunk va len)" "unat va + unat len < 2 ^ 64"
  shows "PGROUNDDOWN va + PGSIZE = va + chunk va len"
proof -
  have "unat (chunk va len) = unat (PGSIZE - (va - PGROUNDDOWN va))"
    using chunk_bounds(3) [OF assms(1)] by (simp add: unat_page_rest)
  then have "chunk va len = PGSIZE - (va - PGROUNDDOWN va)" by (rule word_unat_eq_iff [THEN iffD2])
  then show ?thesis by simp
qed

lemma later_page:
  assumes "unat va mod 4096 + n = 4096" "n \<le> k" "unat va + k < 2 ^ 64"
  shows "PGROUNDDOWN (va + word_of_nat k) \<noteq> PGROUNDDOWN va"
proof
  assume "PGROUNDDOWN (va + word_of_nat k) = PGROUNDDOWN va"
  then have "(unat va + k) div 4096 * 4096 = unat va div 4096 * 4096"
    using unat_PGROUNDDOWN unat_add_small [OF assms(3)] by metis
  then show False using assms(1,2) mult_div_mod_eq [of 4096 "unat va"] mult_div_mod_eq [of 4096 "unat va + k"]
      mod_less_divisor [of 4096 "unat va + k"] by linarith
qed

lemma unat_word_of_nat_less: "k < unat (n :: uint64) \<Longrightarrow> unat (word_of_nat k :: uint64) = k"
  using unat_64_less [of n] by (intro unat_word_of_nat) simp

lemma offset_range: "unat (a - b) < unat n \<longleftrightarrow> (\<exists>k < unat n. a = b + word_of_nat k)" for a b n :: uint64
proof
  assume "unat (a - b) < unat n"
  then show "\<exists>k < unat n. a = b + word_of_nat k" by (intro exI [of _ "unat (a - b)"]) simp
qed (auto simp: unat_word_of_nat_less)

text \<open>The first page of a \<^verbatim>\<open>copyout\<close>.\<close>

lemma copyout_first:
  assumes ok: "uvm_ok e m root" and u: "user_pte m root va" and len: "0 < len"
    and nw: "unat va + unat len < 2 ^ 64" "unat src + unat len < 2 ^ 64"
  defines "m1 \<equiv> memmove (user_page m root va + (va - PGROUNDDOWN va)) src (ucast (chunk va len)) m"
  shows "k < unat (chunk va len) \<Longrightarrow> m1 (user_addr m root (va + word_of_nat k)) = m (src + word_of_nat k)"
    and "(\<And>k. k < unat (chunk va len) \<Longrightarrow> a \<noteq> user_addr m root (va + word_of_nat k)) \<Longrightarrow> m1 a = m a"
    and "\<not> in_page (user_page m root va) a \<Longrightarrow> m1 a = m a"
    and "uvm_ok e m1 root" "pte_of m1 root = pte_of m root" "tables m1 root = tables m root"
proof -
  have p: "managed e (user_page m root va)" "user_page m root va \<notin> tables m root" "pt_wf m root"
    using ok u by (auto simp: uvm_ok_def)
  note c = copyout_chunk [OF p(1) nw(2), of va m, folded m1_def]
  note ua = user_addr_chunk [OF _ nw(1)]
  show "m1 (user_addr m root (va + word_of_nat k)) = m (src + word_of_nat k)" if "k < unat (chunk va len)"
    using c ua(1) [OF that] that by (simp add: unat_word_of_nat_less)
  show m1: "m1 a = m a" if "\<And>k. k < unat (chunk va len) \<Longrightarrow> a \<noteq> user_addr m root (va + word_of_nat k)" for a
    using c [of a] that ua(1) unfolding offset_range by auto
  show out: "m1 a = m a" if "\<not> in_page (user_page m root va) a" for a
  proof (rule m1)
    fix k assume k: "k < unat (chunk va len)"
    have "user_page m root (va + word_of_nat k) = user_page m root va" by (metis ua(2) [OF k] user_page_page)
    then have "in_page (user_page m root va) (user_addr m root (va + word_of_nat k))" by (metis user_addr_in_page)
    then show "a \<noteq> user_addr m root (va + word_of_nat k)" using that by blast
  qed
  have "m1 a = m a" if "q \<in> tables m root" "in_page q a" for q a
  proof (rule out)
    have "aligned (user_page m root va)" using p(1) by (simp add: managed_def)
    then show "\<not> in_page (user_page m root va) a"
      using in_page_unique [of q "user_page m root va" a] tables_aligned [OF p(3)] that p(2) by auto
  qed
  then show "uvm_ok e m1 root" "pte_of m1 root = pte_of m root" "tables m1 root = tables m root"
    using uvm_ok_frame [OF ok, of m1] by blast+
qed

definition copied_out :: "memory \<Rightarrow> uint64 \<Rightarrow> uint64 \<Rightarrow> uint64 \<Rightarrow> nat \<Rightarrow> memory \<Rightarrow> bool" where
  "copied_out m root dstva src n m' \<longleftrightarrow>
     (\<forall>k<n. m' (user_addr m root (dstva + word_of_nat k)) = m (src + word_of_nat k)) \<and>
     (\<forall>a. (\<forall>k<n. a \<noteq> user_addr m root (dstva + word_of_nat k)) \<longrightarrow> m' a = m a)"

lemma copied_out_join:
  assumes 1: "\<And>k. k < n \<Longrightarrow> m1 (user_addr m root (va + word_of_nat k)) = m (src + word_of_nat k)"
    "\<And>a. (\<And>k. k < n \<Longrightarrow> a \<noteq> user_addr m root (va + word_of_nat k)) \<Longrightarrow> m1 a = m a"
    and 2: "copied_out m1 root (va + word_of_nat n) (src + word_of_nat n) j m'"
    and same: "pte_of m1 root = pte_of m root"
    and buf: "\<And>k. k < j \<Longrightarrow> m1 (src + word_of_nat (n + k)) = m (src + word_of_nat (n + k))"
    and apart: "\<And>i k. i < n \<Longrightarrow> k < j \<Longrightarrow>
      user_addr m root (va + word_of_nat i) \<noteq> user_addr m root (va + word_of_nat (n + k))"
  shows "copied_out m root va src (n + j) m'"
proof -
  have ua: "user_addr m1 root = user_addr m root"
    using same by (intro ext) (simp add: user_addr_def user_page_def)
  have sh: "x + word_of_nat n + word_of_nat k = x + word_of_nat (n + k)" for x :: uint64 and k by simp
  have 3: "m' (user_addr m root (va + word_of_nat (n + k))) = m1 (src + word_of_nat (n + k))" if "k < j" for k
    using 2 that unfolding copied_out_def ua sh by blast
  have 4: "m' a = m1 a" if "\<And>k. k < j \<Longrightarrow> a \<noteq> user_addr m root (va + word_of_nat (n + k))" for a
    using 2 that unfolding copied_out_def ua sh by blast
  show ?thesis
    unfolding copied_out_def
  proof (intro conjI allI impI)
    fix k assume k: "k < n + j"
    show "m' (user_addr m root (va + word_of_nat k)) = m (src + word_of_nat k)"
    proof (cases "k < n")
      case True
      then have "m' (user_addr m root (va + word_of_nat k)) = m1 (user_addr m root (va + word_of_nat k))"
        using apart by (intro 4)
      then show ?thesis using 1(1) [OF True] by simp
    next
      case False
      then obtain i where "k = n + i" "i < j" using k by (metis add_less_cancel_left le_Suc_ex not_less)
      then show ?thesis using 3 buf by metis
    qed
  next
    fix a assume a: "\<forall>k<n + j. a \<noteq> user_addr m root (va + word_of_nat k)"
    then have "m' a = m1 a" by (intro 4) (simp del: of_nat_add)
    also have "\<dots> = m a" using a by (intro 1(2)) simp
    finally show "m' a = m a" .
  qed
qed

lemma user_addr_apart:
  assumes "uvm_ok e m root" "user_pte m root x" "user_pte m root y" "PGROUNDDOWN x \<noteq> PGROUNDDOWN y"
  shows "user_addr m root x \<noteq> user_addr m root y"
proof
  assume "user_addr m root x = user_addr m root y"
  then have "in_page (user_page m root x) (user_addr m root x)" "in_page (user_page m root y) (user_addr m root x)"
    using user_addr_in_page by metis+
  moreover have "aligned (user_page m root x)" "aligned (user_page m root y)" by (simp_all add: user_page_def)
  ultimately have "user_page m root x = user_page m root y" using in_page_unique by blast
  then show False using assms unfolding uvm_ok_def by blast
qed

lemma copyout_step:
  assumes "pt_wf (mem s) root" "user_pte (mem s) root va" "bit (pte_of (mem s) root va) 2" "0 < len"
  shows "copyout root va src len s = copyout root (PGROUNDDOWN va + PGSIZE) (src + chunk va len) (len - chunk va len)
    (s\<lparr>mem := memmove (user_page (mem s) root va + (va - PGROUNDDOWN va)) src (ucast (chunk va len)) (mem s)\<rparr>)"
proof -
  have va0: "PGROUNDDOWN va < MAXVA" using assms(2) by (simp add: user_pte_def MAXVA_page)
  have ne: "pte_of (mem s) root va \<noteq> 0" using assms(2) by (auto simp: user_pte_def)
  obtain pte where w: "walk root (PGROUNDDOWN va) False s = Inr (pte, s)" "pte \<noteq> 0"
    "load64 (mem s) pte = pte_of (mem s) root va"
    using walk_pte [OF assms(1) va0] ne unfolding pte_of_page by metis
  have "pte_of (mem s) root va AND PTE_V \<noteq> 0" "pte_of (mem s) root va AND PTE_U \<noteq> 0"
    "pte_of (mem s) root va AND PTE_W \<noteq> 0"
    using assms(2,3) pte_flag_bits [of "pte_of (mem s) root va"] by (auto simp: user_pte_def)
  then show ?thesis
    using w assms(4) by (subst copyout.simps) (simp add: Let_def user_page_def not_le [THEN iffD2, OF va0])
qed

text \<open>What the caller of \<^verbatim>\<open>copyout\<close> provides: a kernel buffer outside the user pages.\<close>

definition copyout_pre :: "uint64 \<Rightarrow> memory \<Rightarrow> uint64 \<Rightarrow> uint64 \<Rightarrow> uint64 \<Rightarrow> uint64 \<Rightarrow> bool" where
  "copyout_pre e m root dstva src len \<longleftrightarrow> uvm_ok e m root \<and>
     unat dstva + unat len < 2 ^ 64 \<and> unat src + unat len < 2 ^ 64 \<and>
     (\<forall>k x. k < unat len \<and> user_pte m root x \<longrightarrow> \<not> in_page (user_page m root x) (src + word_of_nat k))"

definition writable :: "memory \<Rightarrow> uint64 \<Rightarrow> uint64 \<Rightarrow> bool" where
  "writable m root va \<longleftrightarrow> user_pte m root va \<and> bit (pte_of m root va) 2"

lemma add_word_of_nat: "x + word_of_nat n + word_of_nat k = x + (word_of_nat (n + k) :: uint64)"
  by simp

lemma copyout_pre_next:
  assumes pre: "copyout_pre e m root va src len" and u: "user_pte m root va" and ne: "unat len \<noteq> unat (chunk va len)"
  defines "n \<equiv> unat (chunk va len)"
    and "m1 \<equiv> memmove (user_page m root va + (va - PGROUNDDOWN va)) src (ucast (chunk va len)) m"
  shows "n < unat len" "unat va mod 4096 + n = 4096" "unat (len - chunk va len) = unat len - n"
    and "PGROUNDDOWN va + PGSIZE = va + word_of_nat n"
    and "copyout_pre e m1 root (va + word_of_nat n) (src + word_of_nat n) (len - chunk va len)"
    and "pte_of m1 root = pte_of m root"
proof -
  have p: "uvm_ok e m root" "unat va + unat len < 2 ^ 64" "unat src + unat len < 2 ^ 64"
    "\<And>k x. k < unat len \<Longrightarrow> user_pte m root x \<Longrightarrow> \<not> in_page (user_page m root x) (src + word_of_nat k)"
    using pre by (auto simp: copyout_pre_def)
  show n: "n < unat len" "unat va mod 4096 + n = 4096"
    unfolding n_def using chunk_bounds(1) [of va len] chunk_bounds(3) [OF ne] ne by simp_all
  then have "0 < len" by (simp add: word_less_nat_alt)
  note f = copyout_first [OF p(1) u this p(2,3), folded m1_def]
  show len: "unat (len - chunk va len) = unat len - n" using n(1) by (simp add: unat_sub_if' n_def)
  show "PGROUNDDOWN va + PGSIZE = va + word_of_nat n" using next_chunk [OF ne p(2)] by (simp add: n_def)
  show pte: "pte_of m1 root = pte_of m root" by (rule f)
  have "unat (x + word_of_nat n) + unat (len - chunk va len) < 2 ^ 64" if "unat x + unat len < 2 ^ 64" for x :: uint64
  proof -
    have "unat (x + word_of_nat n) = unat x + n" using that n(1) by (intro unat_add_small) linarith
    then show ?thesis using that n(1) unfolding len by linarith
  qed
  moreover have "\<not> in_page (user_page m1 root x) (src + word_of_nat n + word_of_nat k)"
    if "k < unat (len - chunk va len)" "user_pte m1 root x" for k x
    using p(4) [of "n + k" x] that n(1) pte unfolding add_word_of_nat len by (simp add: user_pte_def user_page_def)
  ultimately show "copyout_pre e m1 root (va + word_of_nat n) (src + word_of_nat n) (len - chunk va len)"
    using f(4) p(2,3) unfolding copyout_pre_def by blast
qed

lemma copyout_done: "copyout root va src 0 s = Inr (0, s)"
  by (simp add: copyout.simps)

lemma copyout_spec:
  assumes "copyout_pre e (mem s) root dstva src len"
    and "\<And>k. k < unat len \<Longrightarrow> writable (mem s) root (dstva + word_of_nat k)"
  shows "\<exists>m'. copyout root dstva src len s = Inr (0, s\<lparr>mem := m'\<rparr>) \<and> uvm_ok e m' root \<and>
    pte_of m' root = pte_of (mem s) root \<and> copied_out (mem s) root dstva src (unat len) m'"
  using assms
proof (induction "unat len" arbitrary: dstva src len s rule: less_induct)
  case (less len va src s)
  let ?m = "mem s" and ?n = "unat (chunk va len)"
  have p: "uvm_ok e ?m root" "unat va + unat len < 2 ^ 64" "unat src + unat len < 2 ^ 64"
    "\<And>k x. k < unat len \<Longrightarrow> user_pte ?m root x \<Longrightarrow> \<not> in_page (user_page ?m root x) (src + word_of_nat k)"
    using less.prems(1) by (auto simp: copyout_pre_def)
  show ?case
  proof (cases "len = 0")
    case True
    then show ?thesis using p(1) by (intro exI [of _ ?m]) (simp add: copied_out_def copyout_done)
  next
    case False
    then have l: "0 < len" by (simp add: word_neq_0_conv)
    then have u: "user_pte ?m root va" "bit (pte_of ?m root va) 2" and wf: "pt_wf ?m root"
      using less.prems(2) [of 0] p(1) by (simp_all add: writable_def uvm_ok_def word_less_nat_alt)
    define m1 where "m1 = memmove (user_page ?m root va + (va - PGROUNDDOWN va)) src (ucast (chunk va len)) ?m"
    note f = copyout_first [OF p(1) u(1) l p(2,3), folded m1_def]
    note step = copyout_step [OF wf u l, of src, folded m1_def]
    show ?thesis
    proof (cases "unat len = ?n")
      case eq: True
      then have "len = chunk va len" by (rule word_unat_eq_iff [THEN iffD2])
      then have "copyout root va src len s = Inr (0, s\<lparr>mem := m1\<rparr>)" using step by (simp add: copyout_done)
      moreover have "copied_out ?m root va src (unat len) m1" using f(1,2) eq by (simp add: copied_out_def)
      ultimately show ?thesis using f(4,5) by (intro exI [of _ m1]) simp
    next
      case ne: False
      let ?j = "unat len - ?n"
      note nx = copyout_pre_next [OF less.prems(1) u(1) ne, folded m1_def]
      let ?s1 = "s\<lparr>mem := m1\<rparr>"
      have "writable (mem ?s1) root (va + word_of_nat ?n + word_of_nat k)" if "k < unat (len - chunk va len)" for k
        using less.prems(2) [of "?n + k"] that nx(1,3,6) unfolding add_word_of_nat
        by (simp add: writable_def user_pte_def)
      then have "\<exists>m'. copyout root (va + word_of_nat ?n) (src + word_of_nat ?n) (len - chunk va len) ?s1 =
          Inr (0, ?s1\<lparr>mem := m'\<rparr>) \<and> uvm_ok e m' root \<and> pte_of m' root = pte_of (mem ?s1) root \<and>
          copied_out (mem ?s1) root (va + word_of_nat ?n) (src + word_of_nat ?n) (unat (len - chunk va len)) m'"
        using nx(5) by (intro less.hyps [OF chunk_less [OF l]]) simp_all
      then obtain m' where m': "copyout root (va + word_of_nat ?n) (src + word_of_nat ?n) (len - chunk va len) ?s1 =
          Inr (0, s\<lparr>mem := m'\<rparr>)" "uvm_ok e m' root" "pte_of m' root = pte_of ?m root"
        "copied_out m1 root (va + word_of_nat ?n) (src + word_of_nat ?n) ?j m'"
        unfolding nx(3) using nx(6) by auto
      have "copied_out ?m root va src (?n + ?j) m'"
      proof (rule copied_out_join [OF f(1,2) m'(4) f(5)])
        fix k assume k: "k < ?j"
        then have k': "?n + k < unat len" by linarith
        show "m1 (src + word_of_nat (?n + k)) = ?m (src + word_of_nat (?n + k))" using p(4) [OF k' u(1)] by (rule f(3))
        fix i assume i: "i < ?n"
        have "PGROUNDDOWN (va + word_of_nat (?n + k)) \<noteq> PGROUNDDOWN (va + word_of_nat i)"
          using later_page [OF nx(2), of "?n + k"] k' p(2) user_addr_chunk(2) [OF i p(2)] by simp
        then show "user_addr ?m root (va + word_of_nat i) \<noteq> user_addr ?m root (va + word_of_nat (?n + k))"
          using user_addr_apart [OF p(1)] less.prems(2) [of i] less.prems(2) [OF k'] i nx(1)
          unfolding writable_def by (metis order.strict_trans)
      qed
      then show ?thesis using step m'(1-3) nx(1,4) by (intro exI [of _ m']) simp
    qed
  qed
qed

lemma copyout_fails:
  assumes "copyout_pre e (mem s) root dstva src len" "k < unat len" "\<not> writable (mem s) root (dstva + word_of_nat k)"
  shows "\<exists>m'. copyout root dstva src len s = Inr (-1, s\<lparr>mem := m'\<rparr>) \<and> pte_of m' root = pte_of (mem s) root"
  using assms
proof (induction "unat len" arbitrary: k dstva src len s rule: less_induct)
  case (less len k va src s)
  let ?m = "mem s" and ?n = "unat (chunk va len)"
  have p: "uvm_ok e ?m root" "pt_wf ?m root" "unat va + unat len < 2 ^ 64"
    using less.prems(1) by (auto simp: copyout_pre_def uvm_ok_def)
  have l: "0 < len" using less.prems(2) by (simp add: word_less_nat_alt)
  show ?case
  proof (cases "writable ?m root va")
    case False
    have "copyout root va src len s = Inr (-1, s)"
    proof (cases "PGROUNDDOWN va < MAXVA")
      case va0: True
      obtain pte where "walk root (PGROUNDDOWN va) False s = Inr (pte, s)"
        "pte = 0 \<or> load64 (mem s) pte = pte_of (mem s) root va"
        using walk_pte [OF p(2) va0] unfolding pte_of_page by metis
      then show ?thesis using False va0 l pte_flag_bits [of "pte_of ?m root va"]
        by (subst copyout.simps) (auto simp: Let_def writable_def user_pte_def MAXVA_page dest: leD)
    next
      case False
      then show ?thesis using l by (subst copyout.simps) (simp add: Let_def not_less)
    qed
    then show ?thesis by (intro exI [of _ ?m]) simp
  next
    case True
    then have u: "user_pte ?m root va" "bit (pte_of ?m root va) 2" by (simp_all add: writable_def)
    define m1 where "m1 = memmove (user_page ?m root va + (va - PGROUNDDOWN va)) src (ucast (chunk va len)) ?m"
    have kn: "?n \<le> k"
    proof (rule ccontr)
      assume "\<not> ?n \<le> k"
      then have "PGROUNDDOWN (va + word_of_nat k) = PGROUNDDOWN va" using user_addr_chunk(2) [OF _ p(3)] by simp
      then have "writable ?m root (va + word_of_nat k) = writable ?m root va"
        unfolding writable_def by (metis pte_of_page user_pte_page)
      then show False using less.prems(3) True by simp
    qed
    then have ne: "unat len \<noteq> ?n" using less.prems(2) by linarith
    note nx = copyout_pre_next [OF less.prems(1) u(1) ne, folded m1_def]
    have "k = ?n + (k - ?n)" using kn by simp
    then have "\<not> writable m1 root (va + word_of_nat ?n + word_of_nat (k - ?n))"
      using less.prems(3) nx(6) unfolding add_word_of_nat writable_def user_pte_def by simp
    moreover have "k - ?n < unat (len - chunk va len)" using nx(1,3) less.prems(2) kn by linarith
    ultimately obtain m' where "copyout root (va + word_of_nat ?n) (src + word_of_nat ?n) (len - chunk va len)
        (s\<lparr>mem := m1\<rparr>) = Inr (-1, s\<lparr>mem := m'\<rparr>)" "pte_of m' root = pte_of ?m root"
      using less.hyps [OF chunk_less [OF l, of va], of "s\<lparr>mem := m1\<rparr>" "va + word_of_nat ?n" "src + word_of_nat ?n" "k - ?n"]
        nx(5,6) by auto
    then show ?thesis using copyout_step [OF p(2) u l, of src, folded m1_def] nx(4) by (intro exI [of _ m']) simp
  qed
qed


section \<open>User address spaces and the allocator\<close>

text \<open>Tables, user pages and free pages are pairwise disjoint.\<close>

definition uvm_inv :: "'a phys_scheme \<Rightarrow> uint64 \<Rightarrow> uint64 list \<Rightarrow> bool" where
  "uvm_inv s root ps \<longleftrightarrow> vm_inv s root ps \<and> uvm_ok (kernel_end s) (mem s) root \<and>
     (\<forall>x. user_pte (mem s) root x \<longrightarrow> user_page (mem s) root x \<notin> set ps)"

lemma uvm_invD:
  assumes "uvm_inv s root ps"
  shows "vm_inv s root ps" "uvm_ok (kernel_end s) (mem s) root" "pt_wf (mem s) root" "kmem_inv s ps"
    "set ps \<inter> tables (mem s) root = {}"
    "user_pte (mem s) root x \<Longrightarrow> user_page (mem s) root x \<notin> set ps"
    "user_pte (mem s) root x \<Longrightarrow> managed (kernel_end s) (user_page (mem s) root x)"
    "user_pte (mem s) root x \<Longrightarrow> user_page (mem s) root x \<notin> tables (mem s) root"
    "\<forall>p \<in> tables (mem s) root. managed (kernel_end s) p"
  using assms by (auto simp: uvm_inv_def vm_inv_def uvm_ok_def)

lemma walk_mapped:
  assumes "pt_wf (mem s) root" "va < MAXVA" "pte_of (mem s) root va \<noteq> 0"
  obtains t where "table_at (mem s) root [vidx 2 va, vidx 1 va] = Some t"
    "walk root va False s = Inr (slot t (vidx 0 va), s)" "slot t (vidx 0 va) \<noteq> 0"
    "load64 (mem s) (slot t (vidx 0 va)) = pte_of (mem s) root va"
proof (cases "table_at (mem s) root [vidx 2 va, vidx 1 va]")
  case None
  then show ?thesis using assms(3) by (simp add: pte_of_def)
next
  case (Some t)
  then have "t \<in> tables (mem s) root" by (rule tablesI [OF vpath_vidx(3)])
  then have "slot t (vidx 0 va) \<noteq> 0" using assms(1) tables_aligned by (intro slot_nonzero) (auto simp: pt_wf_def)
  moreover have "walk root va False s = Inr (slot t (vidx 0 va), s)"
    using walk_present [OF assms(2), of root s] Some by simp
  ultimately show ?thesis using that Some pte_of_slot [OF Some] by blast
qed

text \<open>The memory of the user pages that two states share is the same.\<close>

definition same_user :: "uint64 \<Rightarrow> memory \<Rightarrow> memory \<Rightarrow> bool" where
  "same_user root m m' \<longleftrightarrow> (\<forall>x a. user_pte m root x \<and> user_pte m' root x \<and> in_page (user_page m root x) a \<longrightarrow> m' a = m a)"

lemma user_flags: "bit pte 4 \<Longrightarrow> PTE_FLAGS pte \<noteq> PTE_V"
proof
  assume "bit pte 4" "PTE_FLAGS pte = PTE_V"
  moreover have "bit (PTE_FLAGS pte) 4 = (bit pte 4 \<and> bit (0x3FF :: uint64) 4)" by (simp only: PTE_FLAGS_def bit_and_iff)
  ultimately show False by (simp add: PTE_V_def)
qed

lemma unmap_page:
  assumes inv: "uvm_inv s root ps" and a: "aligned a" and u: "user_pte (mem s) root a"
  obtains s2 where
    "uvmunmap_from root a stop True s = (if a < stop then uvmunmap_from root (a + PGSIZE) stop True s2 else Inr s)"
    "uvm_inv s2 root (user_page (mem s) root a # ps)" "kernel_end s2 = kernel_end s"
    "\<And>x. x < MAXVA \<Longrightarrow> pte_of (mem s2) root x = (if PGROUNDDOWN x = a then 0 else pte_of (mem s) root x)"
    "same_user root (mem s) (mem s2)" "tables (mem s2) root = tables (mem s) root"
proof -
  let ?m = "mem s" and ?p = "user_page (mem s) root a"
  note i = uvm_invD [OF inv]
  have am: "a < MAXVA" "pte_of ?m root a \<noteq> 0" using u by (auto simp: user_pte_def)
  obtain t where t: "table_at ?m root [vidx 2 a, vidx 1 a] = Some t" "walk root a False s = Inr (slot t (vidx 0 a), s)"
    "slot t (vidx 0 a) \<noteq> 0" "load64 ?m (slot t (vidx 0 a)) = pte_of ?m root a"
    using walk_mapped [OF i(3) am] .
  obtain s1 where s1: "kfree ?p s = Inr s1" "kmem_inv s1 (?p # ps)" "kernel_end s1 = kernel_end s"
    "\<And>b. \<not> in_page ?p b \<Longrightarrow> mem s1 b = ?m b"
    using kfree_inv [OF i(4) i(7) [OF u] i(6) [OF u]] by blast
  have frame: "mem s1 b = ?m b" if "q \<in> tables ?m root" "in_page q b" for q b
    using s1(4) in_page_unique [of q ?p b] tables_aligned [OF i(3)] i(7) [OF u] i(8) [OF u] that
    by (auto simp: managed_def)
  then have f: "uvm_ok (kernel_end s) (mem s1) root" "pte_of (mem s1) root = pte_of ?m root"
    "tables (mem s1) root = tables ?m root" using uvm_ok_frame [OF i(2), of "mem s1"] by blast+
  have t1: "table_at (mem s1) root [vidx 2 a, vidx 1 a] = Some t"
  proof -
    have "entry (mem s1) q k = entry ?m q k" if "q \<in> tables ?m root" "k < 512" for q k
      using frame that by (intro entry_page) auto
    then show ?thesis using table_at_frame [of ?m root "mem s1" "[vidx 2 a, vidx 1 a]"] t(1) by auto
  qed
  have v1: "vm_inv s1 root (?p # ps)" using f s1(2,3) i(5,8,9) u by (auto simp: vm_inv_def uvm_ok_def)
  define s2 where "s2 = s1\<lparr>mem := store64 (slot t (vidx 0 a)) 0 (mem s1)\<rparr>"
  note sp = set_pte [OF v1 t1 am(1), where v = 0, folded s2_def]
  have pt: "pte_of (mem s2) root x = (if PGROUNDDOWN x = a then 0 else pte_of ?m root x)" if "x < MAXVA" for x
    using sp(2) [OF that] f(2) a by (simp add: PGROUNDDOWN_aligned)
  have up: "user_pte (mem s2) root x \<longleftrightarrow> user_pte ?m root x \<and> PGROUNDDOWN x \<noteq> a"
    "user_pte (mem s2) root x \<Longrightarrow> user_page (mem s2) root x = user_page ?m root x" for x
    using pt [of x] by (auto simp: user_pte_def user_page_def split: if_splits)
  have far: "user_page ?m root x \<noteq> ?p" if "user_pte ?m root x" "PGROUNDDOWN x \<noteq> a" for x
    using i(2) u that PGROUNDDOWN_aligned [OF a] unfolding uvm_ok_def by metis
  have "uvm_inv s2 root (?p # ps)"
    unfolding uvm_inv_def uvm_ok_def
  proof (intro conjI allI impI; (elim conjE)?)
    show "vm_inv s2 root (?p # ps)" "pt_wf (mem s2) root" using sp(1) unfolding vm_grow_def vm_inv_def by blast+
    fix x assume x: "user_pte (mem s2) root x"
    then show "managed (kernel_end s2) (user_page (mem s2) root x)" "user_page (mem s2) root x \<notin> tables (mem s2) root"
      "user_page (mem s2) root x \<notin> set (?p # ps)"
      using up far [of x] i(6-8) [of x] sp(3) f(3) s1(3) by (simp_all add: s2_def)
    fix y assume "user_pte (mem s2) root y" "user_page (mem s2) root x = user_page (mem s2) root y"
    then show "PGROUNDDOWN x = PGROUNDDOWN y" using i(2) up x unfolding uvm_ok_def by metis
  qed
  moreover have "same_user root ?m (mem s2)"
    unfolding same_user_def
  proof (intro allI impI; elim conjE)
    fix x b assume x: "user_pte ?m root x" "user_pte (mem s2) root x" "in_page (user_page ?m root x) b"
    have al: "aligned (user_page ?m root y)" for y by (simp add: user_page_def)
    have "\<not> in_page ?p b" using in_page_unique [OF al al x(3), of a] far [OF x(1)] up(1) [of x] x(2) by auto
    moreover have "\<not> in_page t b"
      using in_page_unique [OF al _ x(3), of t] i(8) [OF x(1)] tablesI [OF vpath_vidx(3) t(1)] tables_aligned [OF i(3)] by auto
    ultimately show "mem s2 b = ?m b" using s1(4) by (simp add: s2_def slot_store_frame)
  qed
  moreover have "uvmunmap_from root a stop True s = (if a < stop then uvmunmap_from root (a + PGSIZE) stop True s2 else Inr s)"
  proof -
    have "pte_of ?m root a AND PTE_V \<noteq> 0" "PTE_FLAGS (pte_of ?m root a) \<noteq> PTE_V"
      using u pte_flag_bits(1) [of "pte_of ?m root a"] user_flags [of "pte_of ?m root a"] by (auto simp: user_pte_def)
    then show ?thesis using t s1(1)
      by (subst uvmunmap_from.simps) (simp add: Let_def s2_def flip: user_page_def)
  qed
  ultimately show ?thesis using that pt s1(3) sp(3) f(3) by (auto simp: s2_def)
qed

text \<open>The pages from \<open>a\<close> up to but not including \<open>stop\<close>.\<close>

definition below :: "uint64 \<Rightarrow> uint64 \<Rightarrow> uint64 \<Rightarrow> bool" where
  "below a stop x \<longleftrightarrow> a \<le> PGROUNDDOWN x \<and> PGROUNDDOWN x < stop"

lemma below_step:
  assumes "aligned a" "a < MAXVA" "a < stop"
  shows "below a stop x \<longleftrightarrow> PGROUNDDOWN x = a \<or> below (a + PGSIZE) stop x"
  using aligned_next [where q = "PGROUNDDOWN x", OF assms(1) aligned_PGROUND(1) assms(2)] assms(3)
  by (auto simp: below_def)

lemma uvmunmap_from_spec:
  assumes "uvm_inv s root ps" "aligned a" "stop \<le> MAXVA"
    and "\<And>x. x < MAXVA \<Longrightarrow> below a stop x \<Longrightarrow> user_pte (mem s) root x"
  shows "\<exists>s' qs. uvmunmap_from root a stop True s = Inr s' \<and> uvm_inv s' root (qs @ ps) \<and> kernel_end s' = kernel_end s \<and>
    (\<forall>x<MAXVA. pte_of (mem s') root x = (if below a stop x then 0 else pte_of (mem s) root x)) \<and>
    same_user root (mem s) (mem s')"
  using assms
proof (induction "unat MAXVA - unat a" arbitrary: a s ps rule: less_induct)
  case (less a s ps)
  show ?case
  proof (cases "a < stop")
    case False
    then have "uvmunmap_from root a stop True s = Inr s" by (simp add: uvmunmap_from.simps)
    moreover have "\<not> below a stop x" for x using False by (auto simp: below_def)
    ultimately show ?thesis using less.prems(1) by (intro exI [of _ s] exI [of _ "[]"]) (simp add: same_user_def)
  next
    case True
    then have am: "a < MAXVA" using less.prems(3) by (rule order.strict_trans2)
    note bs = below_step [OF less.prems(2) am True]
    have u: "user_pte (mem s) root a" using less.prems(4) [OF am] bs PGROUNDDOWN_aligned [OF less.prems(2)] by simp
    obtain s2 where s2: "uvmunmap_from root a stop True s = uvmunmap_from root (a + PGSIZE) stop True s2"
      "uvm_inv s2 root (user_page (mem s) root a # ps)" "kernel_end s2 = kernel_end s"
      "\<And>x. x < MAXVA \<Longrightarrow> pte_of (mem s2) root x = (if PGROUNDDOWN x = a then 0 else pte_of (mem s) root x)"
      "same_user root (mem s) (mem s2)"
      using unmap_page [OF less.prems(1,2) u, of stop] True by metis
    have nb: "\<not> below (a + PGSIZE) stop x" if "PGROUNDDOWN x = a" for x
      using aligned_next(2) [OF less.prems(2) less.prems(2) am] that by (auto simp: below_def)
    have "\<exists>s' qs. uvmunmap_from root (a + PGSIZE) stop True s2 = Inr s' \<and>
      uvm_inv s' root (qs @ (user_page (mem s) root a # ps)) \<and> kernel_end s' = kernel_end s2 \<and>
      (\<forall>x<MAXVA. pte_of (mem s') root x = (if below (a + PGSIZE) stop x then 0 else pte_of (mem s2) root x)) \<and>
      same_user root (mem s2) (mem s')"
    proof (rule less.hyps [OF next_page_measure [OF am] s2(2) _ less.prems(3)])
      show "aligned (a + PGSIZE)" using less.prems(2) by (simp add: PGSIZE_def)
      fix x assume "x < MAXVA" "below (a + PGSIZE) stop x"
      then show "user_pte (mem s2) root x"
        using less.prems(4) [of x] bs [of x] nb [of x] s2(4) [of x] by (auto simp: user_pte_def)
    qed
    then obtain s' qs where s': "uvmunmap_from root (a + PGSIZE) stop True s2 = Inr s'"
      "uvm_inv s' root (qs @ (user_page (mem s) root a # ps))" "kernel_end s' = kernel_end s2"
      "\<forall>x<MAXVA. pte_of (mem s') root x = (if below (a + PGSIZE) stop x then 0 else pte_of (mem s2) root x)"
      "same_user root (mem s2) (mem s')" by blast
    have pt: "pte_of (mem s') root x = (if below a stop x then 0 else pte_of (mem s) root x)" if "x < MAXVA" for x
      using s'(4) s2(4) [OF that] bs [of x] that by auto
    have "same_user root (mem s) (mem s')"
      unfolding same_user_def
    proof (intro allI impI; elim conjE)
      fix x b assume x: "user_pte (mem s) root x" "user_pte (mem s') root x" "in_page (user_page (mem s) root x) b"
      have "x < MAXVA" "\<not> below a stop x" using x(1,2) pt [of x] by (auto simp: user_pte_def split: if_splits)
      then have "pte_of (mem s2) root x = pte_of (mem s) root x" using s2(4) bs [of x] by simp
      then have "user_pte (mem s2) root x" "user_page (mem s2) root x = user_page (mem s) root x"
        using x(1) by (simp_all add: user_pte_def user_page_def)
      then show "mem s' b = mem s b" using x s2(5) s'(5) unfolding same_user_def by metis
    qed
    then show ?thesis using s2(1,3) s'(1-3) pt by (intro exI [of _ s'] exI [of _ "qs @ [user_page (mem s) root a]"]) simp
  qed
qed

end
