(* ===== verification/UserMemory.thy ===== *)
theory UserMemory imports PageTable begin

text \<open>
  User address spaces: growing and shrinking them (\<^verbatim>\<open>uvmalloc\<close>, \<^verbatim>\<open>uvmdealloc\<close>), the memory they
  need, and copying in both directions, over the page-table trees of \<^verbatim>\<open>PageTable\<close>.
\<close>

section \<open>Growing and shrinking\<close>

lemma PGROUNDUP_bound:
  assumes "e \<le> B" "aligned B" "B \<le> MAXVA"
  shows "e \<le> PGROUNDUP e" "PGROUNDUP e \<le> B" "\<lbrakk>aligned p; e \<le> p\<rbrakk> \<Longrightarrow> PGROUNDUP e \<le> p"
proof -
  have e: "unat e \<le> unat B" "unat B \<le> 274877906944"
    using assms unat_MAXVA by (simp_all add: word_le_nat_alt)
  then have u: "unat (PGROUNDUP e) = (unat e + 4095) div 4096 * 4096" by (intro unat_PGROUNDUP) simp
  show "e \<le> PGROUNDUP e" unfolding word_le_nat_alt u by linarith
  have least: "(n + 4095) div 4096 * 4096 \<le> 4096 * k" if "n \<le> 4096 * k" for n k :: nat
  proof -
    have "(n + 4095) div 4096 < k + 1" using that by (simp add: div_less_iff_less_mult)
    then show ?thesis by simp
  qed
  show up: "PGROUNDUP e \<le> p" if "aligned p" "e \<le> p" for p
    using least [of "unat e" "unat p div 4096"] that mult_div_mod_eq [of 4096 "unat p"]
    unfolding aligned_unat word_le_nat_alt u by simp
  show "PGROUNDUP e \<le> B" by (rule up [OF assms(2,1)])
qed

lemma aligned_MAXVA: "aligned MAXVA"
  by (simp add: aligned_def MAXVA_def PGSIZE_def)

lemma scast_ucast_small:
  fixes n :: uint64 assumes "n < 2 ^ 31" shows "scast (ucast n :: uint32) = n"
proof -
  have b: "\<not> bit n k" if "31 \<le> k" for k
    using take_bit_small [of n 31] assms that by (metis bit_take_bit_iff not_le)
  show ?thesis
  proof (rule bit_word_eqI)
    fix k assume "k < LENGTH(64)"
    then show "bit (scast (ucast n :: uint32) :: uint64) k = bit n k"
      using b [of k] b [of 31] by (cases "k < 31") (auto simp: bit_signed_iff bit_unsigned_iff min_def)
  qed
qed

lemma npages:
  assumes "aligned lo" "aligned hi" "lo \<le> hi" "hi \<le> MAXVA"
  shows "lo + scast (ucast ((hi - lo) div PGSIZE) :: uint32) * PGSIZE = hi"
proof -
  have d: "unat (hi - lo) = unat hi - unat lo" using assms(3) by (simp add: unat_sub_if' word_le_nat_alt)
  have "unat (hi - lo) \<le> 274877906944" using assms(4) unat_MAXVA d by (simp add: word_le_nat_alt)
  moreover have n: "unat ((hi - lo) div PGSIZE) = unat (hi - lo) div 4096" by (simp add: unat_div PGSIZE_def)
  ultimately have "(hi - lo) div PGSIZE < 2 ^ 31" by (simp add: word_less_nat_alt)
  then have s: "scast (ucast ((hi - lo) div PGSIZE) :: uint32) = (hi - lo) div PGSIZE" by (rule scast_ucast_small)
  have "unat (hi - lo) mod 4096 = 0" using assms(1,2,3) d by (simp add: aligned_unat mod_diff_eq word_le_nat_alt mod_eq_0_iff_dvd dvd_diff_nat)
  then have "(hi - lo) mod PGSIZE = 0" using unat_mod [of "hi - lo" PGSIZE] by (simp add: PGSIZE_def flip: unat_eq_0)
  then have "(hi - lo) div PGSIZE * PGSIZE = hi - lo" using word_mod_div_equality [of "hi - lo" PGSIZE] by simp
  then show ?thesis unfolding s by simp
qed

lemma uvmdealloc_spec:
  assumes inv: "uvm_inv s root ps" and le: "oldsz \<le> MAXVA" "newsz \<le> oldsz"
    and u: "\<And>x. x < MAXVA \<Longrightarrow> below (PGROUNDUP newsz) (PGROUNDUP oldsz) x \<Longrightarrow> user_pte (mem s) root x"
  shows "\<exists>s' qs. uvmdealloc root oldsz newsz s = Inr (newsz, s') \<and> uvm_inv s' root (qs @ ps) \<and>
    kernel_end s' = kernel_end s \<and> same_user root (mem s) (mem s') \<and>
    (\<forall>x<MAXVA. pte_of (mem s') root x =
       (if below (PGROUNDUP newsz) (PGROUNDUP oldsz) x then 0 else pte_of (mem s) root x))"
proof -
  let ?lo = "PGROUNDUP newsz" and ?hi = "PGROUNDUP oldsz"
  have hi: "?hi \<le> MAXVA" by (rule PGROUNDUP_bound(2) [OF le(1) aligned_MAXVA order_refl])
  show ?thesis
  proof (cases "newsz < oldsz \<and> ?lo < ?hi")
    case True
    then have "uvmdealloc root oldsz newsz s = bindE (uvmunmap_from root ?lo ?hi True s) (\<lambda>s. Inr (newsz, s))"
      using npages [OF aligned_PGROUND(2) aligned_PGROUND(2) less_imp_le hi, of newsz] aligned_PGROUND(2) [of newsz]
      by (auto simp: uvmdealloc_def uvmunmap_def Let_def aligned_def dest: leD)
    then show ?thesis using uvmunmap_from_spec [OF inv aligned_PGROUND(2) hi u] by fastforce
  next
    case False
    then have "uvmdealloc root oldsz newsz s = Inr (newsz, s)"
      using le(2) by (auto simp: uvmdealloc_def)
    moreover have "\<not> below ?lo ?hi x" for x
      using False le(2) by (auto simp: below_def)
    ultimately show ?thesis using inv by (intro exI [of _ s] exI [of _ "[]"]) (simp add: same_user_def)
  qed
qed

lemma mappages_one:
  assumes inv: "vm_inv s root ps" and a: "aligned a" "a < MAXVA" "\<not> bit (pte_of (mem s) root a) 0"
  shows "(\<exists>s'. mappages root a PGSIZE pa perm s = Inr (-1, s') \<and> vm_ext root s ps s' [] \<and> length ps \<le> 1) \<or>
    (\<exists>s' ps'. mappages root a PGSIZE pa perm s = Inr (0, s') \<and> vm_grow root s ps s' ps' \<and> length ps \<le> length ps' + 2 \<and>
      (\<forall>x<MAXVA. pte_of (mem s') root x =
         (if PGROUNDDOWN x = a then PA2PTE pa OR scast perm OR PTE_V else pte_of (mem s) root x)))"
proof -
  obtain pte s1 ps1 where w: "walk root a True s = Inr (pte, s1)" "vm_ext root s ps s1 ps1"
    "pte = 0 \<and> ps1 = [] \<and> length ps \<le> 1 \<or>
     pte \<noteq> 0 \<and> (\<exists>p. table_at (mem s1) root [vidx 2 a, vidx 1 a] = Some p \<and> pte = slot p (vidx 0 a)) \<and> length ps \<le> length ps1 + 2"
    using walk_alloc [OF inv a(2)] by blast
  have m: "mappages root a PGSIZE pa perm s = mappages_from root a a pa perm s"
    using a(1) by (simp add: mappages_def aligned_def PGSIZE_def)
  show ?thesis
  proof (cases "pte = 0")
    case True
    then show ?thesis using w m by (auto simp: mappages_from.simps)
  next
    case False
    then obtain p where p: "table_at (mem s1) root [vidx 2 a, vidx 1 a] = Some p" "pte = slot p (vidx 0 a)"
      and le: "length ps \<le> length ps1 + 2" using w(3) by blast
    have i: "vm_inv s1 root ps1" "\<And>x. pte_of (mem s1) root x = pte_of (mem s) root x" "vm_grow root s ps s1 ps1"
      using w(2) by (auto simp: vm_ext_def vm_grow_def)
    note sp = set_pte [OF i(1) p(1) a(2), where v = "PA2PTE pa OR scast perm OR PTE_V", folded p(2)]
    have "\<not> bit (load64 (mem s1) pte) 0" using a(3) p i(2) by (simp add: pte_of_slot)
    then have "mappages root a PGSIZE pa perm s =
        Inr (0, s1\<lparr>mem := store64 pte (PA2PTE pa OR scast perm OR PTE_V) (mem s1)\<rparr>)"
      using m w(1) False by (simp add: mappages_from.simps pte_flag_bits Let_def)
    then show ?thesis using vm_grow_trans [OF i(3) sp(1)] sp(2) i(2) PGROUNDDOWN_aligned [OF a(1)] le by fastforce
  qed
qed

text \<open>The invariant survives steps that keep the leaf entries.\<close>

lemma uvm_inv_frame:
  assumes inv: "uvm_inv s root ps" and v: "vm_inv s' root ps'" and e: "kernel_end s' = kernel_end s"
    and same: "\<And>x. x < MAXVA \<Longrightarrow> pte_of (mem s') root x = pte_of (mem s) root x"
    and t: "tables (mem s') root \<subseteq> tables (mem s) root \<union> set ps"
    and fresh: "\<And>x. user_pte (mem s) root x \<Longrightarrow> user_page (mem s) root x \<notin> set ps'"
  shows "uvm_inv s' root ps'"
proof -
  note i = uvm_invD [OF inv]
  have u: "user_pte (mem s') root x = user_pte (mem s) root x"
    "user_pte (mem s) root x \<Longrightarrow> user_page (mem s') root x = user_page (mem s) root x" for x
    using same [of x] by (auto simp: user_pte_def user_page_def)
  have "user_page (mem s) root x \<notin> tables (mem s') root" if "user_pte (mem s) root x" for x
    using i(6) [OF that] that i(2) t unfolding uvm_ok_def by blast
  moreover have "pt_wf (mem s') root" using v by (simp add: vm_inv_def)
  ultimately have "uvm_ok (kernel_end s') (mem s') root"
    using i(2) u unfolding uvm_ok_def e by metis
  then show ?thesis using v u fresh unfolding uvm_inv_def by metis
qed

text \<open>A zeroed page taken from the free list can be mapped.\<close>

lemma take_page:
  assumes inv: "uvm_inv s root (q # qs)"
  obtains s1 where "kalloc s = Inr (q, s1)" "q \<noteq> 0" "managed (kernel_end s) q" "q \<notin> set qs" "q \<notin> tables (mem s) root"
    "\<And>v. uvm_inv (s1\<lparr>mem := memset q v (ucast PGSIZE) (mem s1)\<rparr>) root qs"
    "kernel_end s1 = kernel_end s"
    "\<And>v a. memset q v (ucast PGSIZE) (mem s1) a = (if in_page q a then ucast v else mem s a)"
    "\<And>v x. pte_of (memset q v (ucast PGSIZE) (mem s1)) root x = pte_of (mem s) root x"
    "\<And>v. tables (memset q v (ucast PGSIZE) (mem s1)) root = tables (mem s) root"
proof -
  note i = uvm_invD [OF inv]
  have q: "q \<notin> set qs" "managed (kernel_end s) q" "q \<noteq> 0" "q \<notin> tables (mem s) root"
    using i(4,5) by (auto simp: kmem_inv_def)
  obtain s1 where s1: "kalloc s = Inr (q, s1)" "kmem_inv s1 qs" "kernel_end s1 = kernel_end s"
    "\<And>a. mem s1 a = (if in_page q a then 5 else mem s a)"
    using kalloc_inv [OF i(4)] by blast
  show thesis
  proof (rule that [OF s1(1) q(3,2,1,4) _ s1(3)])
    fix v
    let ?m = "memset q v (ucast PGSIZE) (mem s1)" and ?s = "s1\<lparr>mem := memset q v (ucast PGSIZE) (mem s1)\<rparr>"
    show m: "?m a = (if in_page q a then ucast v else mem s a)" for a
      using s1(4) [of a] by (simp add: memset_page)
    have ft: "?m a = mem s a" if "p \<in> tables (mem s) root" "in_page p a" for p a
      using that q(2,4) tables_aligned [OF i(3)] in_page_unique [of p q a] m [of a] by (auto simp: managed_def)
    show tt: "tables ?m root = tables (mem s) root" by (rule frame_tables [OF i(3) ft])
    have "pte_of ?m root = pte_of (mem s) root" by (rule frame_tables [OF i(3) ft])
    then show pt: "pte_of ?m root x = pte_of (mem s) root x" for x by simp
    have "pt_wf ?m root" by (rule frame_tables [OF i(3) ft])
    moreover have "kmem_inv ?s qs" by (rule kmem_inv_write [OF s1(2)]) (use m q s1 in \<open>auto simp: managed_def\<close>)
    ultimately have "vm_inv ?s root qs" using i(5,9) s1(3) tt by (simp add: vm_inv_def)
    then show "uvm_inv ?s root qs"
      by (rule uvm_inv_frame [OF inv]) (use s1(3) pt tt i(6) in auto)
  qed
qed

lemma give_page:
  assumes inv: "uvm_inv s root ps" and q: "managed (kernel_end s) q" "q \<notin> set ps" "q \<notin> tables (mem s) root"
    and f: "\<And>x. user_pte (mem s) root x \<Longrightarrow> user_page (mem s) root x \<noteq> q"
  obtains s' where "kfree q s = Inr s'" "uvm_inv s' root (q # ps)" "kernel_end s' = kernel_end s"
    "\<And>a. \<not> in_page q a \<Longrightarrow> mem s' a = mem s a" "\<And>x. pte_of (mem s') root x = pte_of (mem s) root x"
proof -
  note i = uvm_invD [OF inv]
  obtain s' where s': "kfree q s = Inr s'" "kmem_inv s' (q # ps)" "kernel_end s' = kernel_end s"
    "\<And>a. \<not> in_page q a \<Longrightarrow> mem s' a = mem s a" using kfree_inv [OF i(4) q(1,2)] by blast
  have ft: "mem s' a = mem s a" if "p \<in> tables (mem s) root" "in_page p a" for p a
    using that q tables_aligned [OF i(3)] in_page_unique [of p q a] s'(4) by (auto simp: managed_def)
  have fr: "pte_of (mem s') root = pte_of (mem s) root" "tables (mem s') root = tables (mem s) root" "pt_wf (mem s') root"
    using frame_tables [of "mem s" root "mem s'"] i(3) ft by blast+
  have "vm_inv s' root (q # ps)" using fr(2,3) s'(2,3) i(5,9) q(3) by (simp add: vm_inv_def)
  then have "uvm_inv s' root (q # ps)"
    by (rule uvm_inv_frame [OF inv _ s'(3)]) (use fr(1,2) i(6) f in auto)
  then show thesis using that s' fr(1) by simp
qed

lemma or_small:
  fixes f g :: uint64 assumes "f < 2 ^ n" "g < 2 ^ n" "n < 64" shows "f OR g < 2 ^ n"
proof -
  have "f OR g = take_bit n (f OR g)" using assms(1,2) by (simp add: take_bit_or take_bit_small)
  also have "\<dots> < 2 ^ n"
    unfolding take_bit_eq_mod using assms(1,3) by (intro word_mod_less_divisor) (simp add: word_less_nat_alt)
  finally show ?thesis .
qed

text \<open>The entry \<^verbatim>\<open>mappages\<close> writes for a managed page.\<close>

lemma managed_pte:
  assumes "managed e q" "f < 1024"
  shows "PTE2PA (PA2PTE q OR f OR PTE_V) = q" "PTE_FLAGS (PA2PTE q OR f OR PTE_V) = f OR PTE_V"
    "bit (PA2PTE q OR f OR PTE_V) 0" "bit f n \<Longrightarrow> bit (PA2PTE q OR f OR PTE_V) n"
proof -
  have b: "f OR PTE_V < 2 ^ 10" using or_small [of f 10 PTE_V] assms(2) by (simp add: PTE_V_def)
  show "PTE2PA (PA2PTE q OR f OR PTE_V) = q"
    using PTE2PA_PA2PTE [of q "f OR PTE_V"] assms(1) b by (simp add: managed_def or.assoc)
  show "PTE_FLAGS (PA2PTE q OR f OR PTE_V) = f OR PTE_V" using PTE_FLAGS_PA2PTE b by simp
  show "bit (PA2PTE q OR f OR PTE_V) 0" "bit f n \<Longrightarrow> bit (PA2PTE q OR f OR PTE_V) n" by (simp_all add: bit_or_iff PTE_V_def)
qed

lemma map_fresh_page:
  assumes inv: "uvm_inv s root qs" and q: "managed (kernel_end s) q" "q \<notin> set qs" "q \<notin> tables (mem s) root"
    and f: "\<And>x. user_pte (mem s) root x \<Longrightarrow> user_page (mem s) root x \<noteq> q"
    and a: "aligned a" "a < MAXVA" "\<not> bit (pte_of (mem s) root a) 0"
    and p: "scast perm < (1024 :: uint64)" "bit (scast perm :: uint64) 4"
  obtains r s' qs' where "mappages root a PGSIZE q perm s = Inr (r, s')" "uvm_inv s' root qs'"
    "kernel_end s' = kernel_end s" "q \<notin> tables (mem s') root" "q \<notin> set qs'" "length qs \<le> length qs' + 2" "r \<noteq> 0 \<Longrightarrow> length qs \<le> 1"
    "\<And>x c. in_page q c \<or> user_pte (mem s) root x \<and> in_page (user_page (mem s) root x) c \<Longrightarrow> mem s' c = mem s c"
    "\<And>x. x < MAXVA \<Longrightarrow> pte_of (mem s') root x =
       (if r = 0 \<and> PGROUNDDOWN x = a then PA2PTE q OR scast perm OR PTE_V else pte_of (mem s) root x)"
proof -
  note i = uvm_invD [OF inv]
  obtain r s' qs' where m: "mappages root a PGSIZE q perm s = Inr (r, s')" "vm_grow root s qs s' qs'"
    "\<And>x. x < MAXVA \<Longrightarrow> pte_of (mem s') root x =
       (if r = 0 \<and> PGROUNDDOWN x = a then PA2PTE q OR scast perm OR PTE_V else pte_of (mem s) root x)"
    "length qs \<le> length qs' + 2" "r \<noteq> 0 \<Longrightarrow> length qs \<le> 1"
    using mappages_one [OF i(1) a, of q perm] unfolding vm_ext_def by (elim disjE exE conjE) force+
  obtain new where g: "qs = new @ qs'" "tables (mem s') root = tables (mem s) root \<union> set new" "vm_inv s' root qs'"
    "kernel_end s' = kernel_end s" "\<And>a. (\<forall>p \<in> tables (mem s') root. \<not> in_page p a) \<Longrightarrow> mem s' a = mem s a"
    using m(2) unfolding vm_grow_def by blast
  have wf: "pt_wf (mem s') root" using g(3) by (simp add: vm_inv_def)
  have nt: "user_page (mem s) root x \<notin> tables (mem s') root \<and> aligned (user_page (mem s) root x)"
    if "user_pte (mem s) root x" for x
    using i(2) that i(6) [OF that] g(1,2) by (auto simp: uvm_ok_def managed_def)
  have same: "mem s' c = mem s c" if "in_page p c" "p \<notin> tables (mem s') root" "aligned p" for p c
    using that g(5) in_page_unique tables_aligned [OF wf] by metis
  have qt: "q \<notin> tables (mem s') root" "q \<notin> set qs'" using q(2,3) g(1,2) by auto
  have new: "user_pte (mem s') root x" "user_page (mem s') root x = q" if "r = 0" "PGROUNDDOWN x = a" "x < MAXVA" for x
    using that m(3) [OF that(3)] managed_pte [OF q(1) p(1)] p(2) by (simp_all add: user_pte_def user_page_def)
  have old: "user_pte (mem s') root x \<longleftrightarrow> user_pte (mem s) root x" "x < MAXVA \<Longrightarrow> user_page (mem s') root x = user_page (mem s) root x"
    if "\<not> (r = 0 \<and> PGROUNDDOWN x = a)" for x
    using that m(3) [of x] by (auto simp: user_pte_def user_page_def)
  have c: "user_pte (mem s') root x \<Longrightarrow> r = 0 \<and> PGROUNDDOWN x = a \<and> user_page (mem s') root x = q \<or>
      user_pte (mem s) root x \<and> user_page (mem s') root x = user_page (mem s) root x" for x
    using new [of x] old [of x] by (cases "r = 0 \<and> PGROUNDDOWN x = a") (auto simp: user_pte_def)
  have "uvm_ok (kernel_end s') (mem s') root"
    using i(2) wf nt q(1) qt(1) f unfolding uvm_ok_def g(4) by (metis c)
  moreover have "user_page (mem s') root x \<notin> set qs'" if "user_pte (mem s') root x" for x
    using c [OF that] qt(2) i(6) [of x] g(1) by auto
  ultimately have u: "uvm_inv s' root qs'" using g(3) unfolding uvm_inv_def by blast
  have "aligned q" using q(1) by (simp add: managed_def)
  then show thesis using that [OF m(1) u g(4) qt m(4,5) _ m(3)] same qt(1) nt by blast
qed

text \<open>
  The effect of a successful \<^verbatim>\<open>uvmalloc\<close> on the pages of an interval: they are mapped with the given flags
  and read as zero; the rest of the address space is as before.
\<close>

definition grown :: "uint64 \<Rightarrow> memory \<Rightarrow> memory \<Rightarrow> uint64 \<Rightarrow> uint64 \<Rightarrow> uint64 \<Rightarrow> bool" where
  "grown root m m' lo hi f \<longleftrightarrow> same_user root m m' \<and> (\<forall>x<MAXVA.
     if below lo hi x
     then user_pte m' root x \<and> PTE_FLAGS (pte_of m' root x) = f \<and> (\<forall>c. in_page (user_page m' root x) c \<longrightarrow> m' c = 0)
     else pte_of m' root x = pte_of m root x)"

text \<open>The effect of a failed one: the interval is unmapped.\<close>

definition ungrown :: "uint64 \<Rightarrow> memory \<Rightarrow> memory \<Rightarrow> uint64 \<Rightarrow> uint64 \<Rightarrow> bool" where
  "ungrown root m m' lo hi \<longleftrightarrow> same_user root m m' \<and> (\<forall>x<MAXVA.
     if below lo hi x then \<not> bit (pte_of m' root x) 0 else pte_of m' root x = pte_of m root x)"

lemma below_one: "\<lbrakk>aligned a; a < MAXVA\<rbrakk> \<Longrightarrow> below a (a + PGSIZE) x \<longleftrightarrow> PGROUNDDOWN x = a"
  using below_step [of a "a + PGSIZE" x] aligned_next(2) [of a a] by (auto simp: below_def)

lemma not_later: "\<lbrakk>aligned a; a < MAXVA; PGROUNDDOWN x = a\<rbrakk> \<Longrightarrow> \<not> below (a + PGSIZE) hi x"
  using aligned_next(2) [of a a] by (auto simp: below_def)

lemma grown_step:
  assumes a: "aligned a" "a < MAXVA" "a < hi"
    and one: "grown root m m1 a (a + PGSIZE) f" and rest: "grown root m1 m' (a + PGSIZE) hi f"
    and free: "\<And>x. x < MAXVA \<Longrightarrow> below a hi x \<Longrightarrow> \<not> bit (pte_of m root x) 0"
  shows "grown root m m' a hi f"
proof -
  note b1 = below_one [OF a(1,2)] and b = below_step [OF a]
  have pte: "x < MAXVA \<Longrightarrow> if PGROUNDDOWN x = a then user_pte m1 root x else pte_of m1 root x = pte_of m root x" for x
    using one b1 [of x] unfolding grown_def by (metis (full_types))
  have su: "same_user root m m'"
    unfolding same_user_def
  proof (intro allI impI, elim conjE)
    fix x c assume x: "user_pte m root x" "user_pte m' root x" "in_page (user_page m root x) c"
    then have "pte_of m1 root x = pte_of m root x" using pte [of x] free [of x] b [of x] by (auto simp: user_pte_def split: if_splits)
    then have "user_pte m1 root x" "user_page m1 root x = user_page m root x" using x(1) by (simp_all add: user_pte_def user_page_def)
    then show "m' c = m c" using x one rest unfolding grown_def same_user_def by metis
  qed
  show ?thesis unfolding grown_def
  proof (intro conjI su allI impI)
    fix x assume x: "x < MAXVA"
    show "if below a hi x then user_pte m' root x \<and> PTE_FLAGS (pte_of m' root x) = f \<and> (\<forall>c. in_page (user_page m' root x) c \<longrightarrow> m' c = 0)
     else pte_of m' root x = pte_of m root x"
    proof (cases "PGROUNDDOWN x = a")
      case True
      then have "pte_of m' root x = pte_of m1 root x" "user_pte m1 root x" "PTE_FLAGS (pte_of m1 root x) = f"
        "\<And>c. in_page (user_page m1 root x) c \<Longrightarrow> m1 c = 0"
        using one rest x b1 [of x] not_later [OF a(1,2) True, of hi] unfolding grown_def by metis+
      moreover then have "user_pte m' root x" "user_page m' root x = user_page m1 root x" by (simp_all add: user_pte_def user_page_def)
      moreover then have "m' c = m1 c" if "in_page (user_page m1 root x) c" for c
        using rest that \<open>user_pte m1 root x\<close> unfolding grown_def same_user_def by blast
      ultimately show ?thesis using b True by simp
    next
      case False
      then show ?thesis using one rest x b b1 unfolding grown_def by auto
    qed
  qed
qed

lemma ungrown_step:
  assumes ab: "below lo hi a" "aligned a"
    and one: "grown root m m1 a (a + PGSIZE) f" and rest: "ungrown root m1 m' lo hi"
    and a: "a < MAXVA"
  shows "ungrown root m m' lo hi"
proof -
  have pte: "pte_of m1 root x = pte_of m root x" if "x < MAXVA" "\<not> below lo hi x" for x
  proof -
    have "\<not> below a (a + PGSIZE) x"
      using that ab below_one [OF ab(2) a, of x] by (auto simp: below_def PGROUNDDOWN_aligned)
    then show ?thesis using one that unfolding grown_def by simp
  qed
  have "same_user root m m'"
    unfolding same_user_def
  proof (intro allI impI, elim conjE)
    fix x c assume x: "user_pte m root x" "user_pte m' root x" "in_page (user_page m root x) c"
    then have "pte_of m1 root x = pte_of m root x"
      using pte [of x] rest unfolding ungrown_def user_pte_def by (metis (full_types))
    then have "user_pte m1 root x" "user_page m1 root x = user_page m root x" using x(1) by (simp_all add: user_pte_def user_page_def)
    then show "m' c = m c" using x one rest unfolding grown_def ungrown_def same_user_def by metis
  qed
  then show ?thesis using rest pte unfolding ungrown_def by simp
qed

lemma uvmdealloc_back:
  assumes inv: "uvm_inv s root ps" and le: "aligned lo" "aligned a" "lo \<le> a" "a \<le> MAXVA"
    and u: "\<And>x. x < MAXVA \<Longrightarrow> below lo a x \<Longrightarrow> user_pte (mem s) root x"
    and free: "\<And>x. x < MAXVA \<Longrightarrow> below a hi x \<Longrightarrow> \<not> bit (pte_of (mem s) root x) 0"
  obtains s' ps' where "uvmdealloc root a lo s = Inr (lo, s')" "uvm_inv s' root ps'"
    "kernel_end s' = kernel_end s" "ungrown root (mem s) (mem s') lo (max a hi)"
proof -
  have r: "PGROUNDUP lo = lo" "PGROUNDUP a = a"
    using PGROUNDUP_bound [of lo a] PGROUNDUP_bound [of a a] le by (auto intro: order.antisym)
  obtain s' qs where s': "uvmdealloc root a lo s = Inr (lo, s')" "uvm_inv s' root (qs @ ps)"
    "kernel_end s' = kernel_end s" "same_user root (mem s) (mem s')"
    "\<And>x. x < MAXVA \<Longrightarrow> pte_of (mem s') root x = (if below lo a x then 0 else pte_of (mem s) root x)"
    using uvmdealloc_spec [OF inv le(4,3)] u r by auto
  have "below lo (max a hi) x \<longleftrightarrow> below lo a x \<or> below a hi x" for x
    using le(3) by (auto simp: below_def max_def)
  then have "ungrown root (mem s) (mem s') lo (max a hi)"
    using s'(4,5) free by (auto simp: ungrown_def)
  then show thesis by (rule that [OF s'(1-3)])
qed

lemma scast_flags:
  fixes n :: uint32 assumes "n < 2 ^ 10" shows "scast n < (2 ^ 10 :: uint64)"
proof -
  have z: "\<not> bit n j" if "10 \<le> j" for j
    using assms that by (metis bit_take_bit_iff not_le take_bit_eq_mod mod_word_less)
  have "(scast n :: uint64) = take_bit 10 (scast n)"
  proof (rule bit_word_eqI)
    fix j show "bit (scast n :: uint64) j = bit (take_bit 10 (scast n :: uint64)) j"
      using z [of 31] z [of j] by (cases "j < 10") (auto simp: bit_take_bit_iff bit_signed_iff min_def split: if_splits)
  qed
  also have "\<dots> < 2 ^ 10"
    unfolding take_bit_eq_mod by (intro word_mod_less_divisor) simp
  finally show ?thesis .
qed

abbreviation user_perm :: "uint32 \<Rightarrow> uint64" where
  "user_perm xperm \<equiv> PTE_R OR PTE_U OR scast xperm"

lemma user_perm:
  assumes "xperm < 1024"
  shows "scast (ucast (user_perm xperm) :: uint32) = user_perm xperm" "user_perm xperm < 1024" "bit (user_perm xperm) 4"
proof -
  have "scast xperm < (2 ^ 10 :: uint64)" using assms by (intro scast_flags) simp
  moreover have "PTE_R < (2 ^ 10 :: uint64)" "PTE_U < (2 ^ 10 :: uint64)" by (simp_all add: PTE_R_def PTE_U_def)
  ultimately have b: "user_perm xperm < 2 ^ 10" by (intro or_small) simp_all
  then show "user_perm xperm < 1024" by simp
  show "bit (user_perm xperm) 4" by (simp add: bit_or_iff PTE_U_def)
  show "scast (ucast (user_perm xperm) :: uint32) = user_perm xperm"
    by (rule scast_ucast_small) (rule less_trans [OF b], simp)
qed

lemma uvmalloc_step:
  assumes inv: "uvm_inv s root ps" and a: "aligned a" "a < MAXVA" "a < hi" "\<not> bit (pte_of (mem s) root a) 0"
    and x: "xperm < 1024"
  obtains (fail) s1 ps1 where
    "uvmalloc_from root a lo hi xperm s = bindE (uvmdealloc root a lo s1) (\<lambda>(_, s). Inr (0, s))"
    "uvm_inv s1 root ps1" "kernel_end s1 = kernel_end s"
    "\<And>x. x < MAXVA \<Longrightarrow> pte_of (mem s1) root x = pte_of (mem s) root x"
    "\<And>x c. user_pte (mem s) root x \<Longrightarrow> in_page (user_page (mem s) root x) c \<Longrightarrow> mem s1 c = mem s c"
    "length ps \<le> 2"
  | (ok) s1 ps1 where
    "uvmalloc_from root a lo hi xperm s = uvmalloc_from root (a + PGSIZE) lo hi xperm s1"
    "uvm_inv s1 root ps1" "kernel_end s1 = kernel_end s"
    "grown root (mem s) (mem s1) a (a + PGSIZE) (user_perm xperm OR PTE_V)" "length ps \<le> length ps1 + 3"
proof (cases ps)
  case Nil
  then obtain s1 where s1: "kalloc s = Inr (0, s1)" "kmem_inv s1 []" "kernel_end s1 = kernel_end s" "mem s1 = mem s"
    using kalloc_empty uvm_invD(4) [OF inv] by blast
  then have "uvmalloc_from root a lo hi xperm s = bindE (uvmdealloc root a lo s1) (\<lambda>(_, s). Inr (0, s))"
    using a(3) by (simp add: uvmalloc_from.simps)
  moreover have "uvm_inv s1 root []" using inv s1 Nil by (simp add: uvm_inv_def vm_inv_def)
  ultimately show thesis using fail s1 Nil by simp
next
  case (Cons q qs)
  obtain s1 where s1: "kalloc s = Inr (q, s1)" "q \<noteq> 0" "managed (kernel_end s) q" "q \<notin> set qs" "q \<notin> tables (mem s) root"
    "uvm_inv (s1\<lparr>mem := memset q 0 (ucast PGSIZE) (mem s1)\<rparr>) root qs" (is "uvm_inv ?s1 _ _")
    "kernel_end s1 = kernel_end s"
    "\<And>a. memset q 0 (ucast PGSIZE) (mem s1) a = (if in_page q a then 0 else mem s a)"
    "\<And>x. pte_of (memset q 0 (ucast PGSIZE) (mem s1)) root x = pte_of (mem s) root x"
    "tables (memset q 0 (ucast PGSIZE) (mem s1)) root = tables (mem s) root"
    using take_page [OF inv [unfolded Cons]] by (metis unsigned_0)
  have u: "user_pte (mem ?s1) root x = user_pte (mem s) root x" "user_page (mem ?s1) root x = user_page (mem s) root x" for x
    using s1(9) by (simp_all add: user_pte_def user_page_def)
  have nq: "user_page (mem s) root x \<noteq> q" if "user_pte (mem s) root x" for x
    using uvm_invD(6) [OF inv that] Cons by auto
  note pm = user_perm [OF x]
  obtain r s2 qs' where s2: "mappages root a PGSIZE q (ucast (user_perm xperm)) ?s1 = Inr (r, s2)" "uvm_inv s2 root qs'"
    "kernel_end s2 = kernel_end s" "q \<notin> tables (mem s2) root" "q \<notin> set qs'"
    and le: "length qs \<le> length qs' + 2" "r \<noteq> 0 \<Longrightarrow> length qs \<le> 1"
    and s2': "\<And>x c. in_page q c \<or> user_pte (mem s) root x \<and> in_page (user_page (mem s) root x) c \<Longrightarrow> mem s2 c = mem ?s1 c"
    "\<And>x. x < MAXVA \<Longrightarrow> pte_of (mem s2) root x =
       (if r = 0 \<and> PGROUNDDOWN x = a then PA2PTE q OR user_perm xperm OR PTE_V else pte_of (mem s) root x)"
  proof (rule map_fresh_page [OF s1(6), of q a "ucast (user_perm xperm)"], goal_cases)
    case (10 r s' qs')
    then show ?case unfolding u pm(1) using s1(7,9) by (intro that [of r s' qs']) simp_all
  qed (use s1 u nq a pm in simp_all)
  have keep: "mem s2 c = mem s c" if "user_pte (mem s) root x" "in_page (user_page (mem s) root x) c" for x c
    using that s2'(1) [of c x] s1(8) [of c] nq [OF that(1)] uvm_invD(7) [OF inv that(1)] s1(3) in_page_unique [of q _ c]
    by (auto simp: managed_def)
  show thesis
  proof (cases "r = 0")
    case True
    have "grown root (mem s) (mem s2) a (a + PGSIZE) (user_perm xperm OR PTE_V)"
      unfolding grown_def
    proof (intro conjI allI impI)
      show "same_user root (mem s) (mem s2)" using keep unfolding same_user_def by blast
      fix x assume x: "x < MAXVA"
      show "if below a (a + PGSIZE) x then user_pte (mem s2) root x \<and> PTE_FLAGS (pte_of (mem s2) root x) = user_perm xperm OR PTE_V \<and>
          (\<forall>c. in_page (user_page (mem s2) root x) c \<longrightarrow> mem s2 c = 0) else pte_of (mem s2) root x = pte_of (mem s) root x"
        using s2'(2) [OF x] True managed_pte [OF s1(3) pm(2)] pm(3) s2'(1) s1(8) x
        by (simp add: below_one [OF a(1,2)] user_pte_def user_page_def)
    qed
    then show thesis using ok s2 s1 True a(3) le(1) Cons by (simp add: uvmalloc_from.simps [of root a])
  next
    case False
    then have p2: "pte_of (mem s2) root x = pte_of (mem s) root x" if "x < MAXVA" for x using s2'(2) [OF that] by simp
    then have "user_page (mem s2) root x \<noteq> q" if "user_pte (mem s2) root x" for x
      using nq [of x] that by (auto simp: user_pte_def user_page_def)
    then obtain s3 where s3: "kfree q s2 = Inr s3" "uvm_inv s3 root (q # qs')" "kernel_end s3 = kernel_end s2"
      "\<And>a. \<not> in_page q a \<Longrightarrow> mem s3 a = mem s2 a" "\<And>x. pte_of (mem s3) root x = pte_of (mem s2) root x"
      using give_page [OF s2(2) _ s2(5,4)] s1(3) s2(3) by metis
    have "mem s3 c = mem s c" if "user_pte (mem s) root x" "in_page (user_page (mem s) root x) c" for x c
      using keep [OF that] s3(4) [of c] nq [OF that(1)] in_page_unique [of q _ c] that(2) uvm_invD(7) [OF inv that(1)] s1(3)
      by (auto simp: managed_def)
    then show thesis using fail [OF _ s3(2)] s3 s2 s1 p2 a(3) False le(2) Cons by (simp add: uvmalloc_from.simps [of root a])
  qed
qed

text \<open>The number of pages between two addresses, and the most each of them can cost: the page and two tables.\<close>

definition pages :: "uint64 \<Rightarrow> uint64 \<Rightarrow> nat" where
  "pages a hi = (unat hi - unat a + 4095) div 4096"

lemma pages_step:
  shows "\<lbrakk>a + PGSIZE < hi; a < MAXVA\<rbrakk> \<Longrightarrow> pages a hi = Suc (pages (a + PGSIZE) hi)"
    and "a < hi \<Longrightarrow> 0 < pages a hi"
proof -
  assume a: "a + PGSIZE < hi" "a < MAXVA"
  then have "unat a < 274877906944" using unat_MAXVA by (simp add: word_less_nat_alt)
  then have "unat (a + PGSIZE) = unat a + 4096" by (simp add: PGSIZE_def unat_word_ariths)
  then have "unat hi - unat a + 4095 = unat hi - unat (a + PGSIZE) + 4095 + 4096" using a(1) by (simp add: word_less_nat_alt)
  then show "pages a hi = Suc (pages (a + PGSIZE) hi)" by (simp only: pages_def div_add_self2)
next
  assume "a < hi" then show "0 < pages a hi" by (simp add: pages_def word_less_nat_alt div_greater_zero_iff)
qed

lemma uvmalloc_from_spec:
  assumes "uvm_inv s root ps" "aligned lo" "aligned a" "lo \<le> a" "a \<le> MAXVA" "hi \<le> MAXVA" "xperm < 1024"
    and "\<And>x. x < MAXVA \<Longrightarrow> below lo a x \<Longrightarrow> user_pte (mem s) root x"
    and "\<And>x. x < MAXVA \<Longrightarrow> below a hi x \<Longrightarrow> \<not> bit (pte_of (mem s) root x) 0"
  shows "\<exists>r s' ps'. uvmalloc_from root a lo hi xperm s = Inr (r, s') \<and> uvm_inv s' root ps' \<and> kernel_end s' = kernel_end s \<and>
    (r = hi \<and> grown root (mem s) (mem s') a hi (user_perm xperm OR PTE_V) \<or>
     r = 0 \<and> a < hi \<and> length ps < 3 * pages a hi \<and> ungrown root (mem s) (mem s') lo hi)"
  using assms(1,3-5,8,9)
proof (induction "unat MAXVA - unat a" arbitrary: a s ps rule: less_induct)
  case less
  show ?case
  proof (cases "a < hi")
    case False
    then have "uvmalloc_from root a lo hi xperm s = Inr (hi, s)" "\<And>x. \<not> below a hi x"
      by (auto simp: uvmalloc_from.simps below_def)
    then show ?thesis using less.prems(1) by (auto simp: grown_def same_user_def)
  next
    case True
    then have am: "a < MAXVA" using assms(6) by simp
    have ba: "below a hi a" "below lo hi a" using True less.prems(2,3) by (simp_all add: below_def PGROUNDDOWN_aligned)
    show ?thesis
    proof (rule uvmalloc_step [OF less.prems(1,2) am True less.prems(6) [OF am ba(1)] assms(7), of lo])
      fix s1 ps1
      assume f: "uvmalloc_from root a lo hi xperm s = bindE (uvmdealloc root a lo s1) (\<lambda>(_, s). Inr (0, s))"
        "uvm_inv s1 root ps1" "kernel_end s1 = kernel_end s"
        "\<And>x. x < MAXVA \<Longrightarrow> pte_of (mem s1) root x = pte_of (mem s) root x"
        "\<And>x c. user_pte (mem s) root x \<Longrightarrow> in_page (user_page (mem s) root x) c \<Longrightarrow> mem s1 c = mem s c" "length ps \<le> 2"
      have u: "user_pte (mem s1) root x = user_pte (mem s) root x" "x < MAXVA \<Longrightarrow> user_page (mem s1) root x = user_page (mem s) root x" for x
        using f(4) [of x] by (auto simp: user_pte_def user_page_def)
      obtain s' ps' where s': "uvmdealloc root a lo s1 = Inr (lo, s')" "uvm_inv s' root ps'" "kernel_end s' = kernel_end s1"
        "ungrown root (mem s1) (mem s') lo (max a hi)"
        using uvmdealloc_back [OF f(2) assms(2) less.prems(2,3,4), of hi] u(1) less.prems(5,6) f(4) by metis
      have "same_user root (mem s) (mem s')"
        unfolding same_user_def
      proof (intro allI impI, elim conjE)
        fix x c assume x: "user_pte (mem s) root x" "user_pte (mem s') root x" "in_page (user_page (mem s) root x) c"
        then show "mem s' c = mem s c"
          using f(5) [OF x(1,3)] s'(4) u [of x] unfolding ungrown_def same_user_def user_pte_def by metis
      qed
      then have "ungrown root (mem s) (mem s') lo hi"
        using s'(4) f(4) True unfolding ungrown_def max_absorb2 [OF less_imp_le [OF True]] by simp
      then show ?thesis using s'(1-3) f(1,3,6) True pages_step(2) [OF True] by auto
    next
      fix s1 ps1
      assume f: "uvmalloc_from root a lo hi xperm s = uvmalloc_from root (a + PGSIZE) lo hi xperm s1"
        "uvm_inv s1 root ps1" "kernel_end s1 = kernel_end s"
        "grown root (mem s) (mem s1) a (a + PGSIZE) (user_perm xperm OR PTE_V)" "length ps \<le> length ps1 + 3"
      note nx = aligned_next [OF less.prems(2) _ am] and b1 = below_one [OF less.prems(2) am]
      have al: "aligned (a + PGSIZE)" "lo \<le> a + PGSIZE" "a + PGSIZE \<le> MAXVA" "unat MAXVA - unat (a + PGSIZE) < unat MAXVA - unat a"
        using nx [OF aligned_MAXVA] less.prems(2,3) am
        by (auto simp: word_less_nat_alt word_le_nat_alt PGSIZE_def intro: diff_less_mono2)
      have p: "x < MAXVA \<Longrightarrow> if PGROUNDDOWN x = a then user_pte (mem s1) root x else pte_of (mem s1) root x = pte_of (mem s) root x" for x
        using f(4) b1 [of x] unfolding grown_def by (metis (full_types))
      have mapped: "user_pte (mem s1) root x" if "x < MAXVA" "below lo (a + PGSIZE) x" for x
        using p [OF that(1)] less.prems(5) [OF that(1)] that nx(1) [OF aligned_PGROUND(1) [of x]]
        by (auto simp: below_def user_pte_def not_le split: if_splits)
      have free: "\<not> bit (pte_of (mem s1) root x) 0" if "x < MAXVA" "below (a + PGSIZE) hi x" for x
        using p [OF that(1)] less.prems(6) [OF that(1)] that not_later [OF less.prems(2) am, of x hi] below_step [OF less.prems(2) am True, of x]
        by (auto split: if_splits)
      obtain r s' ps' where s': "uvmalloc_from root (a + PGSIZE) lo hi xperm s1 = Inr (r, s')" "uvm_inv s' root ps'"
        "kernel_end s' = kernel_end s1" "r = hi \<and> grown root (mem s1) (mem s') (a + PGSIZE) hi (user_perm xperm OR PTE_V) \<or>
           r = 0 \<and> a + PGSIZE < hi \<and> length ps1 < 3 * pages (a + PGSIZE) hi \<and> ungrown root (mem s1) (mem s') lo hi"
        using less.hyps [OF al(4) f(2) al(1-3) mapped free] by blast
      have "length ps < 3 * pages a hi" if "length ps1 < 3 * pages (a + PGSIZE) hi" "a + PGSIZE < hi"
        using that f(5) pages_step(1) [OF that(2) am] by simp
      then show ?thesis
        using s' f(1,3) True grown_step [OF less.prems(2) am True f(4) _ less.prems(6)] ungrown_step [OF ba(2) less.prems(2) f(4) _ am]
        by auto
    qed
  qed
qed

lemma uvmalloc_spec:
  assumes "uvm_inv s root ps" "oldsz \<le> newsz" "newsz \<le> MAXVA" "xperm < 1024"
    and "\<And>x. x < MAXVA \<Longrightarrow> below (PGROUNDUP oldsz) newsz x \<Longrightarrow> \<not> bit (pte_of (mem s) root x) 0"
  shows "\<exists>r s' ps'. uvmalloc root oldsz newsz xperm s = Inr (r, s') \<and> uvm_inv s' root ps' \<and> kernel_end s' = kernel_end s \<and>
    (r = newsz \<and> grown root (mem s) (mem s') (PGROUNDUP oldsz) newsz (user_perm xperm OR PTE_V) \<or>
     r = 0 \<and> length ps < 3 * pages (PGROUNDUP oldsz) newsz \<and> ungrown root (mem s) (mem s') (PGROUNDUP oldsz) newsz)"
proof -
  have "oldsz \<le> MAXVA" using assms(2,3) by simp
  then have "PGROUNDUP oldsz \<le> MAXVA" by (rule PGROUNDUP_bound(2) [OF _ aligned_MAXVA order_refl])
  moreover have "uvmalloc root oldsz newsz xperm s = uvmalloc_from root (PGROUNDUP oldsz) (PGROUNDUP oldsz) newsz xperm s"
    using assms(2) by (auto simp: uvmalloc_def Let_def dest: leD)
  ultimately show ?thesis
    using uvmalloc_from_spec [OF assms(1) aligned_PGROUND(2) aligned_PGROUND(2) order_refl _ assms(3,4) _ assms(5), of oldsz]
    by (fastforce simp: below_def)
qed

section \<open>Copying in\<close>

definition copyin_pre :: "uint64 \<Rightarrow> memory \<Rightarrow> uint64 \<Rightarrow> uint64 \<Rightarrow> uint64 \<Rightarrow> uint64 \<Rightarrow> bool" where
  "copyin_pre e m root dst srcva len \<longleftrightarrow> e \<noteq> 0 \<and> uvm_ok e m root \<and>
     unat dst + unat len < 2 ^ 64 \<and> unat srcva + unat len < 2 ^ 64 \<and>
     (\<forall>k<unat len. (\<forall>p \<in> tables m root. \<not> in_page p (dst + word_of_nat k)) \<and>
        (\<forall>x. user_pte m root x \<longrightarrow> \<not> in_page (user_page m root x) (dst + word_of_nat k)))"

definition copied_in :: "memory \<Rightarrow> uint64 \<Rightarrow> uint64 \<Rightarrow> uint64 \<Rightarrow> nat \<Rightarrow> memory \<Rightarrow> bool" where
  "copied_in m root dst srcva n m' \<longleftrightarrow>
     (\<forall>k<n. m' (dst + word_of_nat k) = m (user_addr m root (srcva + word_of_nat k))) \<and>
     (\<forall>a. (\<forall>k<n. a \<noteq> dst + word_of_nat k) \<longrightarrow> m' a = m a)"

lemma copyin_step:
  assumes "pt_wf (mem s) root" "user_pte (mem s) root va" "user_page (mem s) root va \<noteq> 0" "0 < len"
  shows "copyin root dst va len s = copyin root (dst + chunk va len) (PGROUNDDOWN va + PGSIZE) (len - chunk va len)
    (s\<lparr>mem := memmove dst (user_page (mem s) root va + (va - PGROUNDDOWN va)) (ucast (chunk va len)) (mem s)\<rparr>)"
  using assms by (subst copyin.simps) (simp add: Let_def walkaddr_eq)

lemma copyin_done: "copyin root dst va 0 s = Inr (0, s)"
  by (simp add: copyin.simps)

lemma copyin_fault:
  assumes "pt_wf (mem s) root" "\<not> user_pte (mem s) root va" "0 < len"
  shows "copyin root dst va len s = Inr (-1, s)"
  using assms by (subst copyin.simps) (simp add: Let_def walkaddr_eq)

lemma copyin_first:
  assumes pre: "copyin_pre e m root dst va len" and u: "user_pte m root va"
  defines "n \<equiv> unat (chunk va len)"
    and "m1 \<equiv> memmove dst (user_page m root va + (va - PGROUNDDOWN va)) (ucast (chunk va len)) m"
  shows "copied_in m root dst va n m1" "pte_of m1 root = pte_of m root" "n \<le> unat len"
    "uvm_ok e m1 root" "tables m1 root = tables m root" "user_page m root va \<noteq> 0"
    "\<And>x a. user_pte m root x \<Longrightarrow> in_page (user_page m root x) a \<Longrightarrow> m1 a = m a"
    "\<And>a. (\<forall>k<n. a \<noteq> dst + word_of_nat k) \<Longrightarrow> m1 a = m a"
proof -
  have p: "e \<noteq> 0" "uvm_ok e m root" "unat va + unat len < 2 ^ 64" "unat dst + unat len < 2 ^ 64"
    using pre by (auto simp: copyin_pre_def)
  have mg: "managed e (user_page m root va)" using p(2) u by (auto simp: uvm_ok_def)
  then show "user_page m root va \<noteq> 0" using p(1) by (auto simp: managed_def)
  note cb = chunk_bounds [of va len]
  show le: "n \<le> unat len" using cb(1) by (simp add: n_def)
  have "unat (user_page m root va + (va - PGROUNDDOWN va)) = unat (user_page m root va) + unat va mod 4096"
    using managed_no_wrap [OF mg] unat_add_small [of "user_page m root va" "unat va mod 4096"] mod_less_divisor [of 4096 "unat va"]
    by (simp flip: unat_offset)
  then have ap: "m1 a = (if unat (a - dst) < n then m (user_page m root va + (va - PGROUNDDOWN va) + (a - dst)) else m a)" for a
    unfolding m1_def n_def using memmove_apply [of _ "ucast (chunk va len)" dst m a] cb p(4) managed_no_wrap [OF mg] by (simp add: ucast_chunk)
  show out: "m1 a = m a" if "\<forall>k<n. a \<noteq> dst + word_of_nat k" for a
    using ap [of a] that offset_range [of a dst "chunk va len"] by (auto simp: n_def)
  have "m1 (dst + word_of_nat k) = m (user_addr m root (va + word_of_nat k))" if "k < n" for k
    using ap [of "dst + word_of_nat k"] that user_addr_chunk(1) [OF that [unfolded n_def] p(3)]
    by (simp add: unat_word_of_nat_less n_def)
  then show "copied_in m root dst va n m1" using out by (simp add: copied_in_def)
  have t: "m1 a = m a" if "q \<in> tables m root" "in_page q a" for q a
    using pre that le by (intro out) (auto simp: copyin_pre_def)
  show "uvm_ok e m1 root" "pte_of m1 root = pte_of m root" "tables m1 root = tables m root"
    using uvm_ok_frame [OF p(2), of m1] t by blast+
  show "m1 a = m a" if "user_pte m root x" "in_page (user_page m root x) a" for x a
    using pre that le by (intro out) (auto simp: copyin_pre_def)
qed

lemma copyin_next:
  assumes pre: "copyin_pre e m root dst va len" and u: "user_pte m root va" and ne: "unat len \<noteq> unat (chunk va len)"
  defines "n \<equiv> unat (chunk va len)"
    and "m1 \<equiv> memmove dst (user_page m root va + (va - PGROUNDDOWN va)) (ucast (chunk va len)) m"
  shows "n < unat len" "unat (len - chunk va len) = unat len - n" "PGROUNDDOWN va + PGSIZE = va + word_of_nat n"
    and "copyin_pre e m1 root (dst + word_of_nat n) (va + word_of_nat n) (len - chunk va len)"
proof -
  have p: "e \<noteq> 0" "unat va + unat len < 2 ^ 64" "unat dst + unat len < 2 ^ 64"
    using pre by (auto simp: copyin_pre_def)
  note f = copyin_first [OF pre u, folded m1_def n_def]
  show n: "n < unat len" using f(3) ne by (simp add: n_def)
  then show len: "unat (len - chunk va len) = unat len - n" by (simp add: unat_sub_if' n_def)
  show "PGROUNDDOWN va + PGSIZE = va + word_of_nat n" using next_chunk [OF ne p(2)] by (simp add: n_def)
  have "unat (x + word_of_nat n) + unat (len - chunk va len) < 2 ^ 64" if "unat x + unat len < 2 ^ 64" for x :: uint64
  proof -
    have "unat (x + word_of_nat n) = unat x + n" using that n by (intro unat_add_small) linarith
    then show ?thesis using that n unfolding len by linarith
  qed
  moreover have "user_pte m1 root = user_pte m root" "user_page m1 root = user_page m root"
    using f(2) by (auto simp: user_pte_def user_page_def fun_eq_iff)
  ultimately show "copyin_pre e m1 root (dst + word_of_nat n) (va + word_of_nat n) (len - chunk va len)"
    using pre p f(4,5) n unfolding copyin_pre_def add_word_of_nat len by (simp add: less_diff_conv2 add.commute del: of_nat_add)
qed

lemma copied_in_join:
  assumes 1: "copied_in m root dst va n m1"
    and 2: "copied_in m1 root (dst + word_of_nat n) (va + word_of_nat n) j m'"
    and same: "pte_of m1 root = pte_of m root"
    and user: "\<And>k. k < j \<Longrightarrow> m1 (user_addr m root (va + word_of_nat (n + k))) = m (user_addr m root (va + word_of_nat (n + k)))"
    and nw: "unat dst + (n + j) < 2 ^ 64"
  shows "copied_in m root dst va (n + j) m'"
proof -
  have ua: "user_addr m1 root = user_addr m root"
    using same by (intro ext) (simp add: user_addr_def user_page_def)
  have 3: "m' (dst + word_of_nat (n + k)) = m1 (user_addr m root (va + word_of_nat (n + k)))" if "k < j" for k
    using 2 that unfolding copied_in_def ua add_word_of_nat by blast
  have 4: "m' a = m1 a" if "\<And>k. k < j \<Longrightarrow> a \<noteq> dst + word_of_nat (n + k)" for a
    using 2 that unfolding copied_in_def add_word_of_nat by blast
  have inj: "dst + word_of_nat i \<noteq> dst + word_of_nat (n + k)" if "i < n" "k < j" for i k
    using unat_add_small [of dst i] unat_add_small [of dst "n + k"] nw that by auto
  show ?thesis
    unfolding copied_in_def
  proof (intro conjI allI impI)
    fix k assume k: "k < n + j"
    show "m' (dst + word_of_nat k) = m (user_addr m root (va + word_of_nat k))"
    proof (cases "k < n")
      case True
      then show ?thesis using 1 4 [OF inj] by (simp add: copied_in_def del: of_nat_add)
    next
      case False
      then obtain i where "k = n + i" "i < j" using k by (metis add_less_cancel_left le_Suc_ex not_less)
      then show ?thesis using 3 user by metis
    qed
  next
    fix a assume a: "\<forall>k<n + j. a \<noteq> dst + word_of_nat k"
    then have "m' a = m1 a" by (intro 4) (simp del: of_nat_add)
    also have "\<dots> = m a" using a 1 by (simp add: copied_in_def)
    finally show "m' a = m a" .
  qed
qed

lemma copyin_spec:
  assumes "copyin_pre e (mem s) root dst srcva len"
  shows "\<exists>r m'. copyin root dst srcva len s = Inr (r, s\<lparr>mem := m'\<rparr>) \<and> pte_of m' root = pte_of (mem s) root \<and>
    (if \<forall>k<unat len. user_pte (mem s) root (srcva + word_of_nat k) then r = 0 \<and> copied_in (mem s) root dst srcva (unat len) m' else r = -1)"
  using assms
proof (induction "unat len" arbitrary: dst srcva len s rule: less_induct)
  case (less len dst va s)
  let ?m = "mem s" and ?n = "unat (chunk va len)"
  have p: "uvm_ok e ?m root" "pt_wf ?m root" "unat va + unat len < 2 ^ 64" "unat dst + unat len < 2 ^ 64"
    using less.prems by (auto simp: copyin_pre_def uvm_ok_def)
  consider "len = 0" | "0 < len" "\<not> user_pte ?m root va" | "0 < len" "user_pte ?m root va"
    using word_neq_0_conv [of len] by blast
  then show ?case
  proof cases
    case 1
    then show ?thesis by (intro exI [of _ 0] exI [of _ ?m]) (simp add: copyin_done copied_in_def)
  next
    case 2
    then have "\<not> (\<forall>k<unat len. user_pte ?m root (va + word_of_nat k))" by (auto simp: word_less_nat_alt intro!: exI [of _ 0])
    then show ?thesis using copyin_fault [OF p(2) 2(2,1), of dst] by (intro exI [of _ "-1"] exI [of _ ?m]) simp
  next
    case 3
    define m1 where "m1 = memmove dst (user_page ?m root va + (va - PGROUNDDOWN va)) (ucast (chunk va len)) ?m"
    let ?s1 = "s\<lparr>mem := m1\<rparr>"
    note f = copyin_first [OF less.prems 3(2), folded m1_def]
    note step = copyin_step [OF p(2) 3(2) f(6) 3(1), of dst, folded m1_def]
    have first: "user_pte ?m root (va + word_of_nat k)" if "k < ?n" for k
      using 3(2) user_addr_chunk(2) [OF that p(3)] by (metis user_pte_page)
    show ?thesis
    proof (cases "unat len = ?n")
      case eq: True
      then have "len = chunk va len" by (rule word_unat_eq_iff [THEN iffD2])
      then have "copyin root dst va len s = Inr (0, ?s1)" using step by (simp add: copyin_done)
      then show ?thesis using f(1,2) first eq by (intro exI [of _ 0] exI [of _ m1]) simp
    next
      case ne: False
      note nx = copyin_next [OF less.prems 3(2) ne, folded m1_def]
      obtain r m' where m': "copyin root (dst + word_of_nat ?n) (va + word_of_nat ?n) (len - chunk va len) ?s1 = Inr (r, s\<lparr>mem := m'\<rparr>)"
        "pte_of m' root = pte_of m1 root"
        "if \<forall>k<unat len - ?n. user_pte m1 root (va + word_of_nat (?n + k))
         then r = 0 \<and> copied_in m1 root (dst + word_of_nat ?n) (va + word_of_nat ?n) (unat len - ?n) m' else r = -1"
        using less.hyps [OF chunk_less [OF 3(1), of va], of ?s1 "dst + word_of_nat ?n" "va + word_of_nat ?n"] nx(4)
        unfolding nx(2) add_word_of_nat by (auto simp del: of_nat_add cong: if_cong)
      have all: "(\<forall>k<unat len. user_pte ?m root (va + word_of_nat k)) \<longleftrightarrow> (\<forall>k<unat len - ?n. user_pte m1 root (va + word_of_nat (?n + k)))"
        (is "?L \<longleftrightarrow> ?R")
      proof
        assume ?R
        then show ?L using first f(2) le_Suc_ex [of ?n] unfolding user_pte_def
          by (metis (no_types, lifting) add.commute add_less_cancel_left le_add_diff_inverse less_or_eq_imp_le not_le nx(1))
      next
        assume ?L
        then show ?R using f(2) nx(1) by (simp add: user_pte_def less_diff_conv add.commute del: of_nat_add)
      qed
      have "copied_in ?m root dst va (?n + (unat len - ?n)) m'" if a: "\<forall>k<unat len. user_pte ?m root (va + word_of_nat k)"
      proof (rule copied_in_join [OF f(1) _ f(2)])
        show "copied_in m1 root (dst + word_of_nat ?n) (va + word_of_nat ?n) (unat len - ?n) m'" using m'(3) a all by (simp split: if_splits)
        show "unat dst + (?n + (unat len - ?n)) < 2 ^ 64" using p(4) nx(1) by simp
        fix k assume "k < unat len - ?n"
        then have "user_pte ?m root (va + word_of_nat (?n + k))" using a by (simp del: of_nat_add)
        then show "m1 (user_addr ?m root (va + word_of_nat (?n + k))) = ?m (user_addr ?m root (va + word_of_nat (?n + k)))"
          using f(7) user_addr_in_page by blast
      qed
      then show ?thesis using step m' f(2) all nx(1,3) by (intro exI [of _ r] exI [of _ m']) (auto split: if_splits)
    qed
  qed
qed


section \<open>A new address space\<close>

lemma empty_table:
  assumes "aligned p" "p \<noteq> 0" "\<And>a. in_page p a \<Longrightarrow> m a = 0"
  shows "pt_wf m p" "tables m p = {p}" "pte_of m p va = 0"
proof -
  have e: "entry m p i = 0" if "i < 512" for i
  proof -
    have "entry m p i = entry (\<lambda>_. 0) p i" using assms(3) that by (intro entry_page) auto
    then show ?thesis by (simp add: entry_def load64_zero)
  qed
  have t: "table_at m p is = (if is = [] then Some p else None)" if "vpath is" for "is"
    using that e by (cases "is") (auto simp: vpath_def table_at.simps)
  show tp: "tables m p = {p}"
  proof
    show "tables m p \<subseteq> {p}" using t by (auto simp: tables_def split: if_splits)
    show "{p} \<subseteq> tables m p" using tablesI [of "[]" m p p] by simp
  qed
  show "pt_wf m p" using assms tp t by (auto simp: pt_wf_def split: if_splits)
  show "pte_of m p va = 0" using t [OF vpath_vidx(3)] by (simp add: pte_of_def)
qed

lemma uvmcreate_spec:
  assumes "kmem_inv s (p # ps)"
  obtains s' where "uvmcreate s = Inr (p, s')" "uvm_inv s' p ps" "kernel_end s' = kernel_end s"
    "\<And>va. pte_of (mem s') p va = 0"
proof -
  obtain s1 where s1: "kalloc s = Inr (p, s1)" "kmem_inv s1 ps" "kernel_end s1 = kernel_end s"
    using kalloc_inv [OF assms] by blast
  have p: "p \<noteq> 0" "aligned p" "p \<notin> set ps" "managed (kernel_end s) p" using assms by (auto simp: kmem_inv_def managed_def)
  let ?m = "memset p 0 (ucast PGSIZE) (mem s1)"
  have z: "?m a = 0" if "in_page p a" for a using that by (simp add: memset_page)
  note e = empty_table [OF p(2,1) z]
  have "kmem_inv (s1\<lparr>mem := ?m\<rparr>) ps" by (rule kmem_inv_write [OF s1(2) p(2,3)]) (simp add: memset_page)
  then have "uvm_inv (s1\<lparr>mem := ?m\<rparr>) p ps"
    using e p(3,4) s1(3) by (simp add: uvm_inv_def vm_inv_def uvm_ok_def user_pte_def)
  moreover have "uvmcreate s = Inr (p, s1\<lparr>mem := ?m\<rparr>)" using s1(1) p(1) by (simp add: uvmcreate_def)
  ultimately show thesis using that e(3) s1(3) by simp
qed

text \<open>Concrete states for the examples: four free pages, and an address space of one page made from them.\<close>

lemma four_pages: "\<exists>s. kmem_inv (s :: phys) [0x87FFF000, 0x87FFE000, 0x87FFD000, 0x87FFC000] \<and> kernel_end s = 0x87FFC000"
proof -
  let ?b = "boot_phys\<lparr>kernel_end := 0x87FFC000\<rparr>"
  have 0: "kmem_inv ?b []" "kernel_end ?b = 0x87FFC000"
    by (simp_all add: kmem_inv_def boot_phys_def free_lock_def cpu_sane_def zero_lock_def zero_cpu_def)
  note m = managed_def aligned_def PGSIZE_def PHYSTOP_def KERNBASE_def
  obtain s1 :: phys where 1: "kmem_inv s1 [0x87FFC000]" "kernel_end s1 = 0x87FFC000"
    using kfree_inv [OF 0(1), of "0x87FFC000"] 0(2) by (auto simp: m)
  obtain s2 :: phys where 2: "kmem_inv s2 [0x87FFD000, 0x87FFC000]" "kernel_end s2 = 0x87FFC000"
    using kfree_inv [OF 1(1), of "0x87FFD000"] 1(2) by (auto simp: m)
  obtain s3 :: phys where 3: "kmem_inv s3 [0x87FFE000, 0x87FFD000, 0x87FFC000]" "kernel_end s3 = 0x87FFC000"
    using kfree_inv [OF 2(1), of "0x87FFE000"] 2(2) by (auto simp: m)
  show ?thesis using kfree_inv [OF 3(1), of "0x87FFF000"] 3(2) by (auto simp: m)
qed

lemma one_page_space:
  "\<exists>(s :: phys) root ps. uvm_inv s root ps \<and> kernel_end s = 0x87FFC000 \<and>
     (\<forall>x<PGSIZE. writable (mem s) root x) \<and> (\<forall>x<MAXVA. PGSIZE \<le> x \<longrightarrow> pte_of (mem s) root x = 0)"
proof -
  obtain s0 :: phys where "kmem_inv s0 [0x87FFF000, 0x87FFE000, 0x87FFD000, 0x87FFC000]" "kernel_end s0 = 0x87FFC000"
    using four_pages by blast
  then obtain root ps and s1 :: phys where 1: "uvm_inv s1 root ps" "length ps = 3" "kernel_end s1 = 0x87FFC000"
    "\<And>va. pte_of (mem s1) root va = 0"
    using uvmcreate_spec [of s0 "0x87FFF000" "[0x87FFE000, 0x87FFD000, 0x87FFC000]"] by (metis length_Cons list.size(3) numeral_3_eq_3)
  have z: "PGROUNDUP 0 = 0" "pages 0 PGSIZE = 1" "user_perm 4 OR PTE_V = 0x17"
    by (simp_all add: PGROUNDUP_def pages_def PGSIZE_def PTE_R_def PTE_U_def PTE_V_def)
  have le: "(0 :: uint64) \<le> PGSIZE" "PGSIZE \<le> MAXVA" "(4 :: uint32) < 1024" by (simp_all add: PGSIZE_def MAXVA_def)
  obtain s2 :: phys and ps2 where 2: "uvm_inv s2 root ps2" "kernel_end s2 = 0x87FFC000" "grown root (mem s1) (mem s2) 0 PGSIZE 0x17"
    using uvmalloc_spec [OF 1(1), of 0 PGSIZE 4] 1(2-4) le unfolding z by auto
  have b: "below 0 PGSIZE x \<longleftrightarrow> x < PGSIZE" for x
    by (simp add: below_def word_less_nat_alt unat_PGROUNDDOWN PGSIZE_def div_eq_0_iff)
  have w: "bit pte 2" if "PTE_FLAGS pte = 0x17" for pte
  proof -
    have "bit (PTE_FLAGS pte) 2" unfolding that by simp
    then show ?thesis by (simp add: PTE_FLAGS_def bit_and_iff)
  qed
  have lt: "x < MAXVA" if "x < PGSIZE" for x using that by (rule less_trans) (simp add: PGSIZE_def MAXVA_def)
  have "writable (mem s2) root x" if "x < PGSIZE" for x
    using 2(3) lt [OF that] that w by (auto simp: grown_def b writable_def)
  moreover have "pte_of (mem s2) root x = 0" if "x < MAXVA" "PGSIZE \<le> x" for x
    using 2(3) that 1(4) [of x] by (simp add: grown_def b leD)
  ultimately show ?thesis using 2(1,2) by blast
qed


section \<open>Properties\<close>

lemma range_last:
  assumes "aligned va" "aligned sz" "sz \<noteq> 0" "unat va + unat sz \<le> 2 ^ 38"
  shows "aligned (va + sz - PGSIZE)" "va \<le> va + sz - PGSIZE" "va + sz - PGSIZE < MAXVA"
    "covers va (va + sz - PGSIZE) x \<longleftrightarrow> below va (va + sz) x"
proof -
  obtain i j where ij: "unat va = 4096 * i" "unat sz = 4096 * j"
    using assms(1,2) unfolding aligned_unat by (metis mult_div_mod_eq add_0_right)
  have j: "0 < j" using assms(3) ij(2) by (metis mult_0_right gr0I unat_eq_0)
  have e: "unat (va + sz) = 4096 * (i + j)" using assms(4) ij by (simp add: unat_word_ariths)
  have l: "unat (va + sz - PGSIZE) = 4096 * (i + j - 1)"
    using e j by (simp add: unat_sub_if' PGSIZE_def diff_mult_distrib2)
  show "aligned (va + sz - PGSIZE)" "va \<le> va + sz - PGSIZE" "va + sz - PGSIZE < MAXVA"
    using l ij j assms(4) by (simp_all add: aligned_unat word_le_nat_alt word_less_nat_alt unat_MAXVA diff_mult_distrib2)
  obtain k where k: "unat (PGROUNDDOWN x) = 4096 * k" using unat_PGROUNDDOWN [of x] by auto
  have "4096 * k \<le> 4096 * (i + j - 1) \<longleftrightarrow> 4096 * k < 4096 * (i + j)" using j by auto
  then show "covers va (va + sz - PGSIZE) x \<longleftrightarrow> below va (va + sz) x"
    unfolding covers_def below_def word_le_nat_alt word_less_nat_alt e l k by simp
qed

lemma aligned_multiple: "aligned a \<longleftrightarrow> (\<exists>k. a = 4096 * k)"
proof
  assume "aligned a"
  then have "a div 4096 * 4096 = a" using word_mod_div_equality [of a 4096] by (simp add: aligned_def PGSIZE_def)
  then show "\<exists>k. a = 4096 * k" by (metis mult.commute)
next
  assume "\<exists>k. a = 4096 * k"
  then obtain k where "a = push_bit 12 k" by (auto simp: push_bit_eq_mult mult.commute)
  then show "aligned a" by (simp add: aligned_iff take_bit_push_bit)
qed

lemma aligned_sum:
  assumes "aligned a" "aligned b" shows "aligned (a + b)" "aligned (a - b)"
  using assms unfolding aligned_multiple by (metis distrib_left, metis right_diff_distrib)

lemma example_space:
  "\<exists>(s :: phys) root ps. uvm_inv s root ps \<and>
     (\<forall>v a. unat v < 4096 \<and> unat a + 16 \<le> 0x87FFC000 \<longrightarrow>
        copyout_pre 0x87FFC000 (mem s) root v a 16 \<and> copyin_pre 0x87FFC000 (mem s) root a v 16) \<and>
     (\<forall>k<unat (16 :: uint64). writable (mem s) root (0xFF0 + word_of_nat k)) \<and> \<not> writable (mem s) root 0x1000"
proof -
  obtain s :: phys and root ps where s: "uvm_inv s root ps" "kernel_end s = 0x87FFC000" "\<forall>x<PGSIZE. writable (mem s) root x"
    "\<forall>x<MAXVA. PGSIZE \<le> x \<longrightarrow> pte_of (mem s) root x = 0"
    using one_page_space by blast
  have out: "\<not> in_page p (a + word_of_nat k)" if "managed 0x87FFC000 p" "k < 16" "unat a + 16 \<le> 0x87FFC000" for p a k
  proof
    assume "in_page p (a + word_of_nat k)"
    moreover have "unat (a + word_of_nat k) < unat (0x87FFC000 :: uint64)" using that(2,3) unat_add_small [of a k] by simp
    ultimately show False using that(1) in_page_iff [of p "a + word_of_nat k"] PGROUNDDOWN_le [of "a + word_of_nat k"]
      by (auto simp: managed_def word_le_nat_alt)
  qed
  have "copyout_pre 0x87FFC000 (mem s) root v a 16 \<and> copyin_pre 0x87FFC000 (mem s) root a v 16"
    if "unat v < 4096" "unat a + 16 \<le> 0x87FFC000" for v a
    using that uvm_invD(2,7,9) [OF s(1)] s(2) out by (simp add: copyout_pre_def copyin_pre_def)
  moreover have "writable (mem s) root (0xFF0 + word_of_nat k)" if "k < unat (16 :: uint64)" for k
  proof -
    have "0xFF0 + word_of_nat k < PGSIZE" using that unat_add_small [of "0xFF0" k] by (simp add: word_less_nat_alt PGSIZE_def)
    then show ?thesis using s(3) by blast
  qed
  moreover have "pte_of (mem s) root 0x1000 = 0" using s(4) by (simp add: PGSIZE_def MAXVA_def)
  then have "\<not> writable (mem s) root 0x1000" by (simp add: writable_def user_pte_def)
  ultimately show ?thesis using s(1) by blast
qed

text \<open>
  C1. \<^verbatim>\<open>mappages\<close> on an aligned range below \<^verbatim>\<open>MAXVA\<close> that holds no mapping does not panic. If it
  returns 0, every address of the range translates to the physical page at the same distance
  from \<open>pa\<close>, with the given permissions and the valid bit; if it returns -1, no free page is left.
  In both cases the page table stays a well-formed tree, disjoint from the free list, and every
  address outside the range keeps its entry.
\<close>

theorem mappages_translates:
  assumes "vm_inv s root ps" "aligned va" "aligned sz" "sz \<noteq> 0" "unat va + unat sz \<le> 2 ^ 38"
    and "aligned pa" "scast perm < (1024 :: uint64)"
    and "\<forall>x<MAXVA. below va (va + sz) x \<longrightarrow> \<not> bit (pte_of (mem s) root x) 0"
  shows "\<exists>r s' ps'. mappages root va sz pa perm s = Inr (r, s') \<and> vm_inv s' root ps' \<and>
    (\<forall>x<MAXVA. \<not> below va (va + sz) x \<longrightarrow> pte_of (mem s') root x = pte_of (mem s) root x) \<and>
    (r = 0 \<and> (\<forall>x<MAXVA. below va (va + sz) x \<longrightarrow>
        PTE2PA (pte_of (mem s') root x) = pa + (PGROUNDDOWN x - va) \<and>
        PTE_FLAGS (pte_of (mem s') root x) = (scast perm OR PTE_V)) \<or>
     r = -1 \<and> ps' = [])"
proof -
  note l = range_last [OF assms(2-5)]
  have "mappages root va sz pa perm s = mappages_from root va (va + sz - PGSIZE) pa perm s"
    using assms(2-4) by (simp add: mappages_def aligned_def)
  then obtain r s' ps' where m: "mappages root va sz pa perm s = Inr (r, s')" "vm_inv s' root ps'"
    "mapped root va (va + sz - PGSIZE) pa perm r ps' (mem s) (mem s')"
    using mappages_from_spec [OF assms(1,2) l(1-3), of pa perm] assms(8) unfolding l(4) vm_grow_def by auto
  have f: "scast perm OR PTE_V < (1024 :: uint64)" using or_small [of "scast perm" 10 PTE_V] assms(7) by (simp add: PTE_V_def)
  have "aligned (pa + (PGROUNDDOWN x - va))" for x using assms(2,6) by (simp add: aligned_sum aligned_PGROUND(1))
  note e = PTE2PA_PA2PTE [OF this f] PTE_FLAGS_PA2PTE [OF f]
  show ?thesis
    using m e unfolding mapped_def l(4) or.assoc by (intro exI [of _ r] exI [of _ s'] exI [of _ ps']) (auto simp: or.assoc)
qed

theorem mappages_translates_witness:
  "\<exists>(s :: phys) root ps. uvm_inv s root ps \<and> (\<exists>r s' ps'. mappages root 0x1000 PGSIZE 0x80001000 4 s = Inr (r, s') \<and> vm_inv s' root ps' \<and>
     (r = 0 \<and> PTE2PA (pte_of (mem s') root 0x1234) = 0x80001000 \<or> r = -1 \<and> ps' = []))"
proof -
  obtain s :: phys and root ps where s: "uvm_inv s root ps" "\<forall>x<MAXVA. PGSIZE \<le> x \<longrightarrow> pte_of (mem s) root x = 0"
    using one_page_space by blast
  have f: "\<forall>x<MAXVA. below 0x1000 (0x1000 + PGSIZE) x \<longrightarrow> \<not> bit (pte_of (mem s) root x) 0"
    using s(2) PGROUNDDOWN_le by (fastforce simp: below_def PGSIZE_def intro: order_trans)
  have x: "(0x1234 :: uint64) < MAXVA" "below 0x1000 (0x1000 + PGSIZE) 0x1234" "PGROUNDDOWN 0x1234 = 0x1000"
    by (simp_all add: MAXVA_def below_def PGROUNDDOWN_def PGSIZE_def)
  have "\<exists>r s' ps'. mappages root 0x1000 PGSIZE 0x80001000 4 s = Inr (r, s') \<and> vm_inv s' root ps' \<and>
     (r = 0 \<and> PTE2PA (pte_of (mem s') root 0x1234) = 0x80001000 \<or> r = -1 \<and> ps' = [])"
    using mappages_translates [of s root ps "0x1000" PGSIZE "0x80001000" 4] uvm_invD(1) [OF s(1)] f x
    by (fastforce simp: aligned_def PGSIZE_def)
  then show ?thesis using s(1) by blast
qed

text \<open>
  C2. \<^verbatim>\<open>uvmalloc\<close> either returns the new size, and then every page added to the address space is
  mapped for the user with the given permissions and reads as zero, or returns 0, which happens only
  if fewer free pages were left than three per page added, and then no page of the range stays
  mapped. Either way the rest of the address space, the contents of its pages included, and the
  separation of tables, user pages and free pages are kept.
\<close>

theorem uvmalloc_grows_or_restores:
  assumes "uvm_inv s root ps" "oldsz \<le> newsz" "newsz \<le> MAXVA" "xperm < 1024"
    and "\<forall>x<MAXVA. below (PGROUNDUP oldsz) newsz x \<longrightarrow> \<not> bit (pte_of (mem s) root x) 0"
  shows "\<exists>r s' ps'. uvmalloc root oldsz newsz xperm s = Inr (r, s') \<and> uvm_inv s' root ps' \<and>
    (r = newsz \<and> grown root (mem s) (mem s') (PGROUNDUP oldsz) newsz (user_perm xperm OR PTE_V) \<or>
     r = 0 \<and> length ps < 3 * pages (PGROUNDUP oldsz) newsz \<and> ungrown root (mem s) (mem s') (PGROUNDUP oldsz) newsz)"
  using uvmalloc_spec [OF assms(1-4)] assms(5) by blast

theorem uvmalloc_grows_or_restores_witness:
  "\<exists>(s :: phys) root ps r s'. uvm_inv s root ps \<and> uvmalloc root PGSIZE 0x2345 4 s = Inr (r, s') \<and>
     (r = 0x2345 \<and> user_pte (mem s') root 0x2000 \<or> r = 0 \<and> \<not> user_pte (mem s') root 0x2000)"
proof -
  obtain s :: phys and root ps where s: "uvm_inv s root ps" "\<forall>x<MAXVA. PGSIZE \<le> x \<longrightarrow> pte_of (mem s) root x = 0"
    using one_page_space by blast
  have x: "(0x2000 :: uint64) < MAXVA" "below 0x1000 0x2345 0x2000" "PGROUNDUP PGSIZE = 0x1000" "PGSIZE \<le> 0x2345" "0x2345 \<le> MAXVA"
    by (simp_all add: MAXVA_def below_def PGROUNDDOWN_def PGROUNDUP_def PGSIZE_def)
  have f: "\<forall>x<MAXVA. below (PGROUNDUP PGSIZE) 0x2345 x \<longrightarrow> \<not> bit (pte_of (mem s) root x) 0"
    unfolding x(3) using s(2) PGROUNDDOWN_le by (fastforce simp: below_def PGSIZE_def intro: order_trans)
  have "\<exists>r s' ps'. uvmalloc root PGSIZE 0x2345 4 s = Inr (r, s') \<and> uvm_inv s' root ps' \<and>
     (r = 0x2345 \<and> user_pte (mem s') root 0x2000 \<or> r = 0 \<and> \<not> user_pte (mem s') root 0x2000)"
    using uvmalloc_grows_or_restores [OF s(1) x(4,5) _ f, of 4] x(1,2)
    unfolding x(3) grown_def ungrown_def user_pte_def by fastforce
  then show ?thesis using s(1) by blast
qed

text \<open>
  C3. \<^verbatim>\<open>copyout\<close> returns 0 exactly if every byte of the destination lies on a page the user may
  write; then the bytes of the kernel buffer are at the translated addresses, page boundaries
  included, and no other byte of memory has changed. Otherwise it returns -1. It never panics and
  never changes a translation.
\<close>

theorem copyout_checked:
  assumes "copyout_pre e (mem s) root dstva src len"
  shows "\<exists>r m'. copyout root dstva src len s = Inr (r, s\<lparr>mem := m'\<rparr>) \<and> pte_of m' root = pte_of (mem s) root \<and>
    (if \<forall>k<unat len. writable (mem s) root (dstva + word_of_nat k)
     then r = 0 \<and> copied_out (mem s) root dstva src (unat len) m' else r = -1)"
proof (cases "\<forall>k<unat len. writable (mem s) root (dstva + word_of_nat k)")
  case True
  then show ?thesis using copyout_spec [OF assms] by auto
next
  case False
  then show ?thesis using copyout_fails [OF assms] by auto
qed

theorem copyout_checked_witness:
  "\<exists>(s :: phys) root ps m1 m2. uvm_inv s root ps \<and> copyout root 0xFF0 0x80000000 16 s = Inr (0, s\<lparr>mem := m1\<rparr>) \<and>
     copyout root 0xFF1 0x80000000 16 s = Inr (-1, s\<lparr>mem := m2\<rparr>)"
proof -
  obtain s :: phys and root ps where s: "uvm_inv s root ps" "\<And>v a. unat v < 4096 \<Longrightarrow> unat a + 16 \<le> 0x87FFC000 \<Longrightarrow> copyout_pre 0x87FFC000 (mem s) root v a 16"
    and w: "\<forall>k<unat (16 :: uint64). writable (mem s) root (0xFF0 + word_of_nat k)" "\<not> writable (mem s) root 0x1000"
    using example_space by blast
  have nw: "\<not> (\<forall>k<unat (16 :: uint64). writable (mem s) root (0xFF1 + word_of_nat k))"
  proof
    assume "\<forall>k<unat (16 :: uint64). writable (mem s) root (0xFF1 + word_of_nat k)"
    from this [rule_format, of 15] show False using w(2) by simp
  qed
  have pre: "copyout_pre 0x87FFC000 (mem s) root 0xFF0 0x80000000 16" "copyout_pre 0x87FFC000 (mem s) root 0xFF1 0x80000000 16"
    using s(2) by simp_all
  show ?thesis using s(1) copyout_checked [OF pre(1)] copyout_checked [OF pre(2)] unfolding if_P [OF w(1)] if_not_P [OF nw] by blast
qed

lemma copied_out_tables:
  assumes "uvm_ok e m root" "copied_out m root va src n m'" "\<And>k. k < n \<Longrightarrow> user_pte m root (va + word_of_nat k)"
  shows "tables m' root = tables m root"
proof (rule uvm_ok_frame(3) [OF assms(1)])
  fix p a assume p: "p \<in> tables m root" "in_page p a"
  have "a \<noteq> user_addr m root (va + word_of_nat k)" if "k < n" for k
  proof
    let ?q = "user_page m root (va + word_of_nat k)"
    assume "a = user_addr m root (va + word_of_nat k)"
    then have "in_page ?q a" by (simp add: user_addr_in_page)
    moreover have "aligned ?q" "?q \<notin> tables m root" "aligned p"
      using assms(1) assms(3) [OF that] p(1) tables_aligned by (auto simp: uvm_ok_def managed_def)
    ultimately show False using in_page_unique [of p ?q a] p by blast
  qed
  then show "m' a = m a" using assms(2) by (simp add: copied_out_def)
qed

text \<open>
  C4. What \<^verbatim>\<open>copyout\<close> stores in user memory \<^verbatim>\<open>copyin\<close> reads back: copying a kernel buffer out to writable
  pages and in again to a kernel buffer outside the tables and the user pages reproduces its bytes.
\<close>

theorem copyout_copyin_roundtrip:
  assumes "copyout_pre e (mem s) root va src len" "copyin_pre e (mem s) root dst va len"
    and "\<forall>k<unat len. writable (mem s) root (va + word_of_nat k)"
  shows "\<exists>s1 s2. copyout root va src len s = Inr (0, s1) \<and> copyin root dst va len s1 = Inr (0, s2) \<and>
    (\<forall>k<unat len. mem s2 (dst + word_of_nat k) = mem s (src + word_of_nat k))"
proof -
  obtain m1 where m1: "copyout root va src len s = Inr (0, s\<lparr>mem := m1\<rparr>)" "uvm_ok e m1 root"
    "pte_of m1 root = pte_of (mem s) root" "copied_out (mem s) root va src (unat len) m1"
    using copyout_spec [OF assms(1)] assms(3) by blast
  have u: "user_pte m1 root = user_pte (mem s) root" "user_page m1 root = user_page (mem s) root" "user_addr m1 root = user_addr (mem s) root"
    using m1(3) by (auto simp: user_pte_def user_page_def user_addr_def fun_eq_iff)
  have w: "user_pte (mem s) root (va + word_of_nat k)" if "k < unat len" for k using assms(3) that by (simp add: writable_def)
  have "tables m1 root = tables (mem s) root"
    using assms(1) by (intro copied_out_tables [of e, OF _ m1(4) w]) (simp_all add: copyout_pre_def)
  then have "copyin_pre e (mem (s\<lparr>mem := m1\<rparr>)) root dst va len"
    using assms(2) m1(2) u by (simp add: copyin_pre_def)
  from copyin_spec [OF this] obtain m2 where "copyin root dst va len (s\<lparr>mem := m1\<rparr>) = Inr (0, s\<lparr>mem := m2\<rparr>)"
    "copied_in m1 root dst va (unat len) m2"
    using w u(1) by auto
  then show ?thesis using m1(1,4) u(3) by (auto simp: copied_in_def copied_out_def)
qed

theorem copyout_copyin_roundtrip_witness:
  "\<exists>(s :: phys) root s1 s2. copyout root 0xFF0 0x80000000 16 s = Inr (0, s1) \<and> copyin root 0x80000100 0xFF0 16 s1 = Inr (0, s2) \<and>
     mem s2 0x80000103 = mem s 0x80000003"
proof -
  obtain s :: phys and root where s: "copyout_pre 0x87FFC000 (mem s) root 0xFF0 0x80000000 16"
    "copyin_pre 0x87FFC000 (mem s) root 0x80000100 0xFF0 16" "\<forall>k<unat (16 :: uint64). writable (mem s) root (0xFF0 + word_of_nat k)"
  proof -
    have "unat (0xFF0 :: uint64) < 4096" "unat (0x80000000 :: uint64) + 16 \<le> 0x87FFC000" "unat (0x80000100 :: uint64) + 16 \<le> 0x87FFC000"
      by simp_all
    then show thesis using that example_space by blast
  qed
  obtain s1 s2 where c: "copyout root 0xFF0 0x80000000 16 s = Inr (0, s1)" "copyin root 0x80000100 0xFF0 16 s1 = Inr (0, s2)"
    "\<forall>k<unat (16 :: uint64). mem s2 (0x80000100 + word_of_nat k) = mem s (0x80000000 + word_of_nat k)"
    using copyout_copyin_roundtrip [OF s] by blast
  from c(3) [rule_format, of 3] show ?thesis using c(1,2) by auto
qed

end
