(* ===== verification/Sched.thy ===== *)
theory Sched imports UserMemory begin

text \<open>
  The part of \<^verbatim>\<open>kernel/proc.c\<close> that the other components call: switching between a process and
  its CPU's scheduler, \<^verbatim>\<open>sleep\<close> and \<^verbatim>\<open>wakeup\<close>, killing, and copying to an address that is either
  a user or a kernel one; and the sleep locks of \<^verbatim>\<open>kernel/sleeplock.c\<close>. A call of \<^verbatim>\<open>swtch\<close> leaves
  the running thread, so a function that calls it is given in two parts, one up to the switch and
  one from the return. An operation that finds it has to sleep ends with \<open>Sleeps\<close>.
\<close>

section \<open>State\<close>

record sleeplock =
  sl_locked :: uint32
  sl_name :: string
  sl_pid :: int

definition zero_sleeplock :: sleeplock where
  "zero_sleeplock = \<lparr>sl_locked = 0, sl_name = [], sl_pid = 0\<rparr>"

text \<open>
  \<open>hregs\<close> are the callee-saved registers of each hart; \<open>frame\<close> is the address of the buffer that
  the running kernel function keeps on its stack and passes to functions it calls.
\<close>

record ksched = kvm +
  hregs :: "nat \<Rightarrow> proc_context"
  nextpid :: int
  initproc :: "nat option"
  sleeplocks :: "sleeplock_id \<Rightarrow> sleeplock"
  ticks :: uint32
  frame :: uint64

definition upd_proc :: "nat \<Rightarrow> (proc \<Rightarrow> proc) \<Rightarrow> 'a machine_scheme \<Rightarrow> 'a machine_scheme" where
  "upd_proc i f s = s\<lparr>procs := (procs s)(i := f (procs s i))\<rparr>"

text \<open>The current process, which the caller dereferences: a null pointer faults.\<close>

definition curproc :: "'a machine_scheme \<Rightarrow> (nat \<times> 'a machine_scheme) res" where
  "curproc s = bindE (myproc s) (\<lambda>(p, s). case p of None \<Rightarrow> Inl Fault | Some p \<Rightarrow> Inr (p, s))"

definition procinit :: "'a machine_scheme \<Rightarrow> 'a machine_scheme res" where
  "procinit s =
     (let s = initlock L_pid ''nextpid'' s;
          s = initlock L_wait ''wait_lock'' s in
      forE (\<lambda>i s. Inr (upd_proc i (\<lambda>p. p\<lparr>p_state := UNUSED, p_kstack := KSTACK (word_of_nat i)\<rparr>) (initlock (L_proc i) ''proc'' s)))
        [0..<NPROC] s)"

text \<open>Signed overflow of \<^verbatim>\<open>nextpid\<close> is undefined in C.\<close>

definition allocpid :: "'a ksched_scheme \<Rightarrow> (int \<times> 'a ksched_scheme) res" where
  "allocpid s =
     bindE (acquire L_pid s) (\<lambda>s.
     let pid = nextpid s in
     if nextpid s = 2 ^ 31 - 1 then Inl Fault
     else bindE (release L_pid (s\<lparr>nextpid := nextpid s + 1\<rparr>)) (\<lambda>s. Inr (pid, s)))"

section \<open>Context switches\<close>

text \<open>
  \<^verbatim>\<open>swtch(old, new)\<close> stores the fourteen callee-saved registers of the hart in \<open>old\<close> and loads them
  from \<open>new\<close>: the value for \<open>old\<close>, and the state.
\<close>

definition swtch :: "proc_context \<Rightarrow> 'a ksched_scheme \<Rightarrow> proc_context \<times> 'a ksched_scheme" where
  "swtch new s = (hregs s (hart s), s\<lparr>hregs := (hregs s)(hart s := new)\<rparr>)"

text \<open>\<^verbatim>\<open>sched\<close> up to its \<^verbatim>\<open>swtch\<close>, with the local \<^verbatim>\<open>intena\<close> as result, and from there on.\<close>

definition sched_out :: "'a ksched_scheme \<Rightarrow> (bool \<times> 'a ksched_scheme) res" where
  "sched_out s =
     bindE (curproc s) (\<lambda>(p, s).
     if \<not> holding (L_proc p) s then Inl (Panic ''sched p->lock'')
     else if noff (mycpu s) \<noteq> 1 then Inl (Panic ''sched locks'')
     else if p_state (procs s p) = RUNNING then Inl (Panic ''sched running'')
     else if intr_get s then Inl (Panic ''sched interruptible'')
     else let i = intena (mycpu s);
              (old, s) = swtch (cpu_context (mycpu s)) s in
          Inr (i, upd_proc p (\<lambda>p. p\<lparr>p_context := old\<rparr>) s))"

definition sched_in :: "bool \<Rightarrow> 'a ksched_scheme \<Rightarrow> 'a ksched_scheme" where
  "sched_in i s = set_mycpu ((mycpu s)\<lparr>intena := i\<rparr>) s"

text \<open>One turn of the scheduler's loop: choosing process \<open>p\<close>, and the return from it.\<close>

definition scheduler_pick :: "nat \<Rightarrow> 'a ksched_scheme \<Rightarrow> (bool \<times> 'a ksched_scheme) res" where
  "scheduler_pick p s =
     bindE (acquire (L_proc p) s) (\<lambda>s.
     if p_state (procs s p) = RUNNABLE then
       let s = upd_proc p (\<lambda>p. p\<lparr>p_state := RUNNING\<rparr>) s;
           s = set_mycpu ((mycpu s)\<lparr>cpu_proc := Some p\<rparr>) s;
           (old, s) = swtch (p_context (procs s p)) s;
           s = set_mycpu ((mycpu s)\<lparr>cpu_context := old\<rparr>) s in
       Inr (True, s)
     else bindE (release (L_proc p) s) (\<lambda>s. Inr (False, s)))"

definition scheduler_back :: "nat \<Rightarrow> 'a ksched_scheme \<Rightarrow> 'a ksched_scheme res" where
  "scheduler_back p s = release (L_proc p) (set_mycpu ((mycpu s)\<lparr>cpu_proc := None\<rparr>) s)"

definition yield_out :: "'a ksched_scheme \<Rightarrow> (bool \<times> 'a ksched_scheme) res" where
  "yield_out s =
     bindE (curproc s) (\<lambda>(p, s).
     bindE (acquire (L_proc p) s) (\<lambda>s.
     sched_out (upd_proc p (\<lambda>p. p\<lparr>p_state := RUNNABLE\<rparr>) s)))"

definition yield_in :: "nat \<Rightarrow> bool \<Rightarrow> 'a ksched_scheme \<Rightarrow> 'a ksched_scheme res" where
  "yield_in p i s = release (L_proc p) (sched_in i s)"

section \<open>Sleep and wakeup\<close>

definition sleep_out :: "chan_id \<Rightarrow> lock_id \<Rightarrow> 'a ksched_scheme \<Rightarrow> (bool \<times> 'a ksched_scheme) res" where
  "sleep_out chan lk s =
     bindE (curproc s) (\<lambda>(p, s).
     bindE (acquire (L_proc p) s) (\<lambda>s.
     bindE (release lk s) (\<lambda>s.
     sched_out (upd_proc p (\<lambda>p. p\<lparr>p_chan := Some chan, p_state := SLEEPING\<rparr>) s))))"

definition sleep_in :: "nat \<Rightarrow> lock_id \<Rightarrow> bool \<Rightarrow> 'a ksched_scheme \<Rightarrow> 'a ksched_scheme res" where
  "sleep_in p lk i s =
     (let s = upd_proc p (\<lambda>p. p\<lparr>p_chan := None\<rparr>) (sched_in i s) in
      bindE (release (L_proc p) s) (acquire lk))"

definition wakeup_one :: "chan_id \<Rightarrow> nat \<Rightarrow> 'a machine_scheme \<Rightarrow> 'a machine_scheme res" where
  "wakeup_one chan i s =
     bindE (myproc s) (\<lambda>(me, s).
     if me \<noteq> Some i then
       bindE (acquire (L_proc i) s) (\<lambda>s.
       let s = (if p_state (procs s i) = SLEEPING \<and> p_chan (procs s i) = Some chan
                then upd_proc i (\<lambda>p. p\<lparr>p_state := RUNNABLE\<rparr>) s else s) in
       release (L_proc i) s)
     else Inr s)"

definition wakeup :: "chan_id \<Rightarrow> 'a machine_scheme \<Rightarrow> 'a machine_scheme res" where
  "wakeup chan s = forE (wakeup_one chan) [0..<NPROC] s"

fun kill_from :: "nat list \<Rightarrow> int \<Rightarrow> 'a machine_scheme \<Rightarrow> (int \<times> 'a machine_scheme) res" where
  "kill_from [] pid s = Inr (-1, s)"
| "kill_from (i # is) pid s =
     bindE (acquire (L_proc i) s) (\<lambda>s.
     if p_pid (procs s i) = pid then
       let s = upd_proc i (\<lambda>p. p\<lparr>p_killed := 1\<rparr>) s;
           s = (if p_state (procs s i) = SLEEPING then upd_proc i (\<lambda>p. p\<lparr>p_state := RUNNABLE\<rparr>) s else s) in
       bindE (release (L_proc i) s) (\<lambda>s. Inr (0, s))
     else bindE (release (L_proc i) s) (\<lambda>s. kill_from is pid s))"

definition kill :: "int \<Rightarrow> 'a machine_scheme \<Rightarrow> (int \<times> 'a machine_scheme) res" where
  "kill pid s = kill_from [0..<NPROC] pid s"

definition setkilled :: "nat \<Rightarrow> 'a machine_scheme \<Rightarrow> 'a machine_scheme res" where
  "setkilled p s =
     bindE (acquire (L_proc p) s) (\<lambda>s. release (L_proc p) (upd_proc p (\<lambda>p. p\<lparr>p_killed := 1\<rparr>) s))"

definition killed :: "nat \<Rightarrow> 'a machine_scheme \<Rightarrow> (int \<times> 'a machine_scheme) res" where
  "killed p s =
     bindE (acquire (L_proc p) s) (\<lambda>s.
     let k = p_killed (procs s p) in
     bindE (release (L_proc p) s) (\<lambda>s. Inr (k, s)))"

section \<open>Copying to a user or a kernel address\<close>

text \<open>
  Kernel objects other than physical pages are fields of the state, not bytes of \<open>mem\<close>. When
  \<^verbatim>\<open>copyout\<close> reads such an object its source is the list of the object's bytes, and when \<^verbatim>\<open>copyin\<close>
  fills one the result is the list of bytes it has stored before returning. \<open>copyout_bytes\<close> and
  \<open>copyin_bytes\<close> are the same loops for that case.
\<close>

fun store_bytes :: "uint64 \<Rightarrow> uint8 list \<Rightarrow> memory \<Rightarrow> memory" where
  "store_bytes a [] m = m"
| "store_bytes a (b # bs) m = store_bytes (a + 1) bs (m(a := b))"

definition load_bytes :: "memory \<Rightarrow> uint64 \<Rightarrow> nat \<Rightarrow> uint8 list" where
  "load_bytes m a n = map (\<lambda>k. m (a + word_of_nat k)) [0..<n]"

lemma length_load_bytes [simp]: "length (load_bytes m a n) = n"
  by (simp add: load_bytes_def)

definition page_rest :: "uint64 \<Rightarrow> nat" where
  "page_rest va = 4096 - unat (va - PGROUNDDOWN va)"

lemma page_rest_pos: "0 < page_rest va"
  by (simp add: page_rest_def unat_offset)

function copyout_bytes :: "uint64 \<Rightarrow> uint64 \<Rightarrow> uint8 list \<Rightarrow> 'a phys_scheme \<Rightarrow> (int \<times> 'a phys_scheme) res" where
  "copyout_bytes pagetable dstva src s =
     (if src \<noteq> [] then
        let va0 = PGROUNDDOWN dstva in
        if MAXVA \<le> va0 then Inr (-1, s)
        else bindE (walk pagetable va0 False s) (\<lambda>(pte, s).
          if pte = 0 \<or> load64 (mem s) pte AND PTE_V = 0 \<or> load64 (mem s) pte AND PTE_U = 0 \<or>
             load64 (mem s) pte AND PTE_W = 0
          then Inr (-1, s)
          else let pa0 = PTE2PA (load64 (mem s) pte);
                   n = page_rest dstva;
                   s = s\<lparr>mem := store_bytes (pa0 + (dstva - va0)) (take n src) (mem s)\<rparr> in
               copyout_bytes pagetable (va0 + PGSIZE) (drop n src) s)
      else Inr (0, s))"
  by pat_completeness auto

termination
  by (relation "measure (\<lambda>(_, _, src, _). length src)") (simp_all add: page_rest_pos)

function copyin_bytes :: "uint64 \<Rightarrow> uint64 \<Rightarrow> nat \<Rightarrow> 'a phys_scheme \<Rightarrow> (int \<times> uint8 list \<times> 'a phys_scheme) res" where
  "copyin_bytes pagetable srcva len s =
     (if 0 < len then
        let va0 = PGROUNDDOWN srcva in
        bindE (walkaddr pagetable va0 s) (\<lambda>(pa0, s).
        if pa0 = 0 then Inr (-1, [], s)
        else let n = min len (page_rest srcva);
                 bs = load_bytes (mem s) (pa0 + (srcva - va0)) n in
             bindE (copyin_bytes pagetable (va0 + PGSIZE) (len - n) s) (\<lambda>(r, rest, s). Inr (r, bs @ rest, s)))
      else Inr (0, [], s))"
  by pat_completeness auto

termination
  by (relation "measure (\<lambda>(_, _, len, _). len)") (auto simp: page_rest_pos)

declare copyout_bytes.simps [simp del] copyin_bytes.simps [simp del]

definition either_copyout :: "bool \<Rightarrow> uint64 \<Rightarrow> uint8 list \<Rightarrow> 'a phys_scheme \<Rightarrow> (int \<times> 'a phys_scheme) res" where
  "either_copyout user_dst dst src s =
     bindE (myproc s) (\<lambda>(p, s).
     if user_dst then
       case p of None \<Rightarrow> Inl Fault
       | Some p \<Rightarrow> copyout_bytes (p_pagetable (procs s p)) dst src s
     else Inr (0, s\<lparr>mem := store_bytes dst src (mem s)\<rparr>))"

definition either_copyin :: "bool \<Rightarrow> uint64 \<Rightarrow> nat \<Rightarrow> 'a phys_scheme \<Rightarrow> (int \<times> uint8 list \<times> 'a phys_scheme) res" where
  "either_copyin user_src src len s =
     bindE (myproc s) (\<lambda>(p, s).
     if user_src then
       case p of None \<Rightarrow> Inl Fault
       | Some p \<Rightarrow> copyin_bytes (p_pagetable (procs s p)) src len s
     else Inr (0, load_bytes (mem s) src len, s))"

section \<open>Sleep locks (\<^verbatim>\<open>kernel/sleeplock.c\<close>)\<close>

definition initsleeplock :: "sleeplock_id \<Rightarrow> string \<Rightarrow> 'a ksched_scheme \<Rightarrow> 'a ksched_scheme" where
  "initsleeplock k name s =
     (let s = initlock (L_sleep k) ''sleep lock'' s in
      s\<lparr>sleeplocks := (sleeplocks s)(k := \<lparr>sl_locked = 0, sl_name = name, sl_pid = 0\<rparr>)\<rparr>)"

definition acquiresleep :: "sleeplock_id \<Rightarrow> 'a ksched_scheme \<Rightarrow> 'a ksched_scheme res" where
  "acquiresleep k s =
     bindE (acquire (L_sleep k) s) (\<lambda>s.
     if sl_locked (sleeplocks s k) \<noteq> 0 then Inl Sleeps
     else bindE (curproc s) (\<lambda>(p, s).
       let s = s\<lparr>sleeplocks := (sleeplocks s)(k := (sleeplocks s k)\<lparr>sl_locked := 1, sl_pid := p_pid (procs s p)\<rparr>)\<rparr> in
       release (L_sleep k) s))"

definition releasesleep :: "sleeplock_id \<Rightarrow> 'a ksched_scheme \<Rightarrow> 'a ksched_scheme res" where
  "releasesleep k s =
     bindE (acquire (L_sleep k) s) (\<lambda>s.
     let s = s\<lparr>sleeplocks := (sleeplocks s)(k := (sleeplocks s k)\<lparr>sl_locked := 0, sl_pid := 0\<rparr>)\<rparr> in
     bindE (wakeup (Ch_sleep k) s) (release (L_sleep k)))"

definition holdingsleep :: "sleeplock_id \<Rightarrow> 'a ksched_scheme \<Rightarrow> (bool \<times> 'a ksched_scheme) res" where
  "holdingsleep k s =
     bindE (acquire (L_sleep k) s) (\<lambda>s.
     bindE (if sl_locked (sleeplocks s k) \<noteq> 0
            then bindE (curproc s) (\<lambda>(p, s). Inr (sl_pid (sleeplocks s k) = p_pid (procs s p), s))
            else Inr (False, s)) (\<lambda>(r, s).
     bindE (release (L_sleep k) s) (\<lambda>s. Inr (r, s))))"


section \<open>Effects of the operations\<close>

text \<open>
  A calm CPU: the saved interrupt flag agrees with the interrupt state, as it does after any
  critical section, so that another critical section leaves no trace.
\<close>

definition calm_cpu :: "nat \<Rightarrow> (nat \<Rightarrow> bool) \<Rightarrow> (nat \<Rightarrow> cpu) \<Rightarrow> bool" where
  "calm_cpu h i c \<longleftrightarrow> cpu_sane h i c \<and> settled h i c = c"

abbreviation calm :: "'a machine_scheme \<Rightarrow> bool" where
  "calm s \<equiv> calm_cpu (hart s) (sie s) (cpus s)"

lemmas calm_def = calm_cpu_def

lemma calm_entered [simp]: "cpu_sane h i c \<Longrightarrow> calm_cpu h (i(h := False)) (entered h i c)"
  by (simp add: calm_def)

lemma myproc_calm [simp]: "calm s \<Longrightarrow> myproc s = Inr (cpu_proc (cpus s (hart s)), s)"
  by (simp add: calm_def)

definition woken :: "chan_id \<Rightarrow> nat option \<Rightarrow> nat list \<Rightarrow> (nat \<Rightarrow> proc) \<Rightarrow> nat \<Rightarrow> proc" where
  "woken chan me is ps = (\<lambda>i. if i \<in> set is \<and> me \<noteq> Some i \<and> p_state (ps i) = SLEEPING \<and> p_chan (ps i) = Some chan
     then (ps i)\<lparr>p_state := RUNNABLE\<rparr> else ps i)"

lemma wakeup_one_eq:
  assumes "calm s" "lock_free (L_proc i) s"
  shows "wakeup_one chan i s = Inr (s\<lparr>procs := woken chan (cpu_proc (cpus s (hart s))) [i] (procs s)\<rparr>)"
proof -
  have "woken chan me [i] ps = (if me \<noteq> Some i \<and> p_state (ps i) = SLEEPING \<and> p_chan (ps i) = Some chan
      then ps(i := (ps i)\<lparr>p_state := RUNNABLE\<rparr>) else ps)" for me ps
    by (auto simp: woken_def fun_eq_iff)
  then show ?thesis using assms
    by (simp add: wakeup_one_def critical calm_def upd_proc_def Let_def)
qed

lemma woken_Cons: "woken chan me is (woken chan me [i] ps) = woken chan me (i # is) ps"
  by (auto simp: woken_def fun_eq_iff)

lemma wakeup_from:
  assumes "calm s" "\<forall>i \<in> set is. lock_free (L_proc i) s"
  shows "forE (wakeup_one chan) is s = Inr (s\<lparr>procs := woken chan (cpu_proc (cpus s (hart s))) is (procs s)\<rparr>)"
  using assms
proof (induction "is" arbitrary: s)
  case Nil
  then show ?case by (simp add: woken_def)
next
  case (Cons i "is")
  let ?s = "s\<lparr>procs := woken chan (cpu_proc (cpus s (hart s))) [i] (procs s)\<rparr>"
  have "calm ?s" "\<forall>i \<in> set is. lock_free (L_proc i) ?s" using Cons.prems by (simp_all add: calm_def)
  from Cons.IH [OF this] show ?case
    using Cons.prems by (simp add: wakeup_one_eq woken_Cons)
qed

lemma wakeup_eq:
  assumes "calm s" "\<forall>i<NPROC. lock_free (L_proc i) s"
  shows "wakeup chan s = Inr (s\<lparr>procs := woken chan (cpu_proc (cpus s (hart s))) [0..<NPROC] (procs s)\<rparr>)"
  using assms by (simp add: wakeup_def wakeup_from)

section \<open>Sleep locks\<close>

text \<open>Nobody holds a spin lock and the running process is \<open>p\<close>.\<close>

definition running_cpu :: "nat \<Rightarrow> nat \<Rightarrow> (nat \<Rightarrow> bool) \<Rightarrow> (nat \<Rightarrow> cpu) \<Rightarrow> (lock_id \<Rightarrow> spinlock) \<Rightarrow> bool" where
  "running_cpu p h i c l \<longleftrightarrow> calm_cpu h i c \<and> (\<forall>lk. free_lock (l lk)) \<and> cpu_proc (c h) = Some p"

abbreviation runs :: "nat \<Rightarrow> 'a machine_scheme \<Rightarrow> bool" where
  "runs p s \<equiv> running_cpu p (hart s) (sie s) (cpus s) (locks s)"

lemmas runs_def = running_cpu_def

lemma runsD:
  assumes "runs p s"
  shows "calm s" "lock_free lk s" "cpu_ok s" "settled (hart s) (sie s) (cpus s) = cpus s" "cpu_proc (cpus s (hart s)) = Some p"
  using assms by (auto simp: runs_def calm_def)

lemma curproc_runs: "runs p s \<Longrightarrow> curproc s = Inr (p, s)"
  by (simp add: curproc_def runs_def)

lemma acquiresleep_eq:
  assumes "runs p s"
  shows "acquiresleep k s = (if sl_locked (sleeplocks s k) \<noteq> 0 then Inl Sleeps
    else Inr (s\<lparr>sleeplocks := (sleeplocks s)(k := (sleeplocks s k)\<lparr>sl_locked := 1, sl_pid := p_pid (procs s p)\<rparr>)\<rparr>))"
  using runsD [OF assms]
  by (simp add: acquiresleep_def curproc_def critical Let_def)

lemma holdingsleep_eq:
  assumes "runs p s"
  shows "holdingsleep k s = Inr (sl_locked (sleeplocks s k) \<noteq> 0 \<and> sl_pid (sleeplocks s k) = p_pid (procs s p), s)"
  using runsD [OF assms]
  by (simp add: holdingsleep_def curproc_def critical Let_def)

lemma releasesleep_eq:
  assumes "runs p s"
  shows "releasesleep k s = Inr (s\<lparr>sleeplocks := (sleeplocks s)(k := (sleeplocks s k)\<lparr>sl_locked := 0, sl_pid := 0\<rparr>),
    procs := woken (Ch_sleep k) (Some p) [0..<NPROC] (procs s)\<rparr>)"
  using runsD [OF assms]
  by (simp add: releasesleep_def critical wakeup_eq Let_def)

section \<open>What operations leave alone\<close>

text \<open>A change of the spin locks, the CPUs and the process table only.\<close>

definition mframe :: "'a machine_scheme \<Rightarrow> 'a machine_scheme \<Rightarrow> bool" where
  "mframe s s' \<longleftrightarrow> hart s' = hart s \<and> machine.more s' = machine.more s"

lemma mframe_refl [simp]: "mframe s s"
  by (simp add: mframe_def)

lemma mframe_trans [trans]: "mframe s s' \<Longrightarrow> mframe s' s'' \<Longrightarrow> mframe s s''"
  by (simp add: mframe_def)

lemma mframe_eq: "mframe s s' \<Longrightarrow> s' = s\<lparr>sie := sie s', cpus := cpus s', locks := locks s', procs := procs s'\<rparr>"
  by (cases s; cases s') (simp add: mframe_def)

lemma push_off_frame: "mframe s (push_off s)"
  by (simp add: mframe_def push_off_def set_mycpu_def intr_off_def Let_def)

lemma pop_off_frame: "pop_off s = Inr s' \<Longrightarrow> mframe s s'"
  by (auto simp: mframe_def pop_off_def set_mycpu_def intr_on_def Let_def split: if_splits)

lemma acquire_frame: "acquire k s = Inr s' \<Longrightarrow> mframe s s'"
  by (auto simp: mframe_def acquire_def test_and_set_def set_lk_cpu_def Let_def push_off_def set_mycpu_def intr_off_def split: if_splits)

lemma release_frame: "release k s = Inr s' \<Longrightarrow> mframe s s'"
  by (auto simp: release_def Let_def split: if_splits dest!: pop_off_frame)
    (auto simp: mframe_def set_lk_cpu_def lock_release_word_def)

lemma myproc_frame: "myproc s = Inr (p, s') \<Longrightarrow> mframe s s'"
  by (auto simp: myproc_def Let_def res_iff dest!: pop_off_frame intro: mframe_trans push_off_frame)

lemma curproc_frame: "curproc s = Inr (p, s') \<Longrightarrow> mframe s s'"
  by (auto simp: curproc_def res_iff split: option.splits dest: myproc_frame)

lemma upd_proc_frame [simp]: "mframe s (upd_proc p f s)"
  by (simp add: mframe_def upd_proc_def)

lemma wakeup_one_frame: "wakeup_one chan i s = Inr s' \<Longrightarrow> mframe s s'"
  by (auto simp: wakeup_one_def res_iff Let_def split: if_splits dest!: myproc_frame acquire_frame release_frame)
    (auto simp: mframe_def upd_proc_def)

lemma wakeup_frame: "wakeup chan s = Inr s' \<Longrightarrow> mframe s s'"
  unfolding wakeup_def by (rule forE_frame [OF wakeup_one_frame mframe_refl mframe_trans])

lemma killed_frame: "killed p s = Inr (k, s') \<Longrightarrow> mframe s s'"
  by (auto simp: killed_def res_iff Let_def dest!: acquire_frame release_frame intro: mframe_trans)

section \<open>Reading one byte of user memory\<close>

lemma walk_level_pure: "walk_level n pt va False s = Inr (r, s') \<Longrightarrow> s' = s"
  by (induction n arbitrary: pt) (auto simp: Let_def split: if_splits)

lemma walk_level_total: "\<exists>r. walk_level n pt va False s = Inr (r, s)"
  by (induction n arbitrary: pt) (auto simp: Let_def)

lemma walk_level_mem:
  "mem t = mem s \<Longrightarrow> walk_level n pt va False s = Inr (r, s) \<Longrightarrow> walk_level n pt va False t = Inr (r, t)"
  by (induction n arbitrary: pt) (auto simp: Let_def split: if_splits)

text \<open>The byte a process reads at a virtual address, if that is on a valid user page.\<close>

definition user_byte :: "uint64 \<Rightarrow> uint64 \<Rightarrow> 'a phys_scheme \<Rightarrow> uint8 option" where
  "user_byte pt va s =
     (case walkaddr pt (PGROUNDDOWN va) s of
        Inl e \<Rightarrow> None
      | Inr (pa, _) \<Rightarrow> if pa = 0 then None else Some (mem s (pa + (va - PGROUNDDOWN va))))"

lemma walkaddr_total:
  fixes s :: "'a phys_scheme"
  shows "\<exists>pa. \<forall>t :: 'a phys_scheme. mem t = mem s \<longrightarrow> walkaddr pt va t = Inr (pa, t)"
proof (cases "MAXVA \<le> va")
  case False
  obtain pte where p: "walk_level 2 pt va False s = Inr (pte, s)" using walk_level_total by blast
  have "walkaddr pt va t = Inr (if pte = 0 \<or> load64 (mem s) pte AND PTE_V = 0 \<or> load64 (mem s) pte AND PTE_U = 0 then 0
      else PTE2PA (load64 (mem s) pte), t)" if "mem t = mem s" for t :: "'a phys_scheme"
    using walk_level_mem [OF that p] False that by (simp add: walkaddr_def walk_def)
  then show ?thesis by blast
qed (simp add: walkaddr_def)

lemma copyin_one:
  "copyin_bytes pt va 1 s = (case user_byte pt va s of None \<Rightarrow> Inr (-1, [], s) | Some b \<Rightarrow> Inr (0, [b], s))"
proof -
  obtain pa where pa: "walkaddr pt (PGROUNDDOWN va) s = Inr (pa, s)" using walkaddr_total by blast
  have n: "min (Suc 0) (page_rest va) = Suc 0" using page_rest_pos [of va] by simp
  show ?thesis
    by (subst copyin_bytes.simps, subst copyin_bytes.simps) (simp add: pa user_byte_def n load_bytes_def Let_def)
qed

lemma user_byte_mem:
  fixes s t :: "'a phys_scheme"
  assumes "mem t = mem s" shows "user_byte pt va t = user_byte pt va s"
proof -
  obtain pa where "\<forall>t :: 'a phys_scheme. mem t = mem s \<longrightarrow> walkaddr pt (PGROUNDDOWN va) t = Inr (pa, t)" using walkaddr_total by blast
  then have "walkaddr pt (PGROUNDDOWN va) t = Inr (pa, t)" "walkaddr pt (PGROUNDDOWN va) s = Inr (pa, s)" using assms by blast+
  then show ?thesis using assms by (simp add: user_byte_def)
qed

lemma killed_procs: "killed p s = Inr (k, s') \<Longrightarrow> procs s' = procs s"
  by (auto simp: killed_def res_iff Let_def acquire_def release_def test_and_set_def set_lk_cpu_def lock_release_word_def pop_off_def
      push_off_def set_mycpu_def intr_off_def intr_on_def split: if_splits)

lemma curproc_procs: "curproc s = Inr (p, s') \<Longrightarrow> procs s' = procs s"
  by (auto simp: curproc_def myproc_def res_iff Let_def pop_off_def push_off_def set_mycpu_def intr_off_def intr_on_def
      split: if_splits option.splits)

lemma acquire_procs: "acquire k s = Inr s' \<Longrightarrow> procs s' = procs s"
  by (auto simp: acquire_def test_and_set_def set_lk_cpu_def Let_def push_off_def set_mycpu_def intr_off_def split: if_splits)

lemma copyout_one:
  "\<exists>pa. copyout_bytes pt va [c] s = Inr (-1, s) \<or> copyout_bytes pt va [c] s = Inr (0, s\<lparr>mem := (mem s)(pa := c)\<rparr>)"
proof (cases "MAXVA \<le> PGROUNDDOWN va")
  case False
  obtain pte where p: "walk_level 2 pt (PGROUNDDOWN va) False s = Inr (pte, s)" using walk_level_total by blast
  have n: "take (page_rest va) [c] = [c]" "drop (page_rest va) [c] = []" using page_rest_pos [of va] by simp_all
  show ?thesis using False p
    by (subst (1 2) copyout_bytes.simps) (auto simp: walk_def n copyout_bytes.simps [of _ _ "[]"] Let_def)
qed (simp add: copyout_bytes.simps)

end
