(* ===== verification/Ring.thy ===== *)
theory Ring imports Prelude begin

text \<open>
  Ring buffers with free-running counters, as used by pipes, the UART's transmit buffer and the
  console's input buffer: an array of \<open>n\<close> elements, a read and a write counter of fixed width that
  wrap around, and an index that is the counter modulo \<open>n\<close>. The contents are a queue as long as \<open>n\<close>
  divides the range of the counters.
\<close>

section \<open>Arrays with two counters\<close>

definition ring_queue :: "nat \<Rightarrow> (nat \<Rightarrow> 'b) \<Rightarrow> 'w::len word \<Rightarrow> 'w word \<Rightarrow> 'b list" where
  "ring_queue n f r w = map (\<lambda>k. f ((unat r + k) mod n)) [0..<unat (w - r)]"

lemma length_ring_queue [simp]: "length (ring_queue n f r w) = unat (w - r)"
  by (simp add: ring_queue_def)

lemma ring_queue_nil [simp]: "ring_queue n f r r = []"
  by (simp add: ring_queue_def)

lemma unat_plus_one:
  assumes "Suc (unat (x :: 'w::len word)) < 2 ^ LENGTH('w)" shows "unat (x + 1) = Suc (unat x)"
  using assms by (simp add: unat_word_ariths)

lemma unat_minus_one:
  assumes "(x :: 'w::len word) \<noteq> 0" shows "Suc (unat (x - 1)) = unat x"
  using assms by (simp add: unat_minus_one unat_gt_0)

lemma unat_mod_ring:
  assumes "n dvd 2 ^ LENGTH('w)" shows "unat (r + v :: 'w::len word) mod n = (unat r + unat v) mod n"
  using assms by (simp add: unat_word_ariths mod_mod_cancel)

lemma ring_put:
  fixes r w :: "'w::len word"
  assumes n: "n dvd 2 ^ LENGTH('w)" "n < 2 ^ LENGTH('w)" and room: "unat (w - r) < n"
  shows "ring_queue n (f(unat w mod n := x)) r (w + 1) = ring_queue n f r w @ [x]" "unat (w + 1 - r) = Suc (unat (w - r))"
proof -
  have "unat ((w - r) + 1) = Suc (unat (w - r))" using n room by (intro unat_plus_one) simp
  then show len: "unat (w + 1 - r) = Suc (unat (w - r))" by (simp add: algebra_simps)
  have w: "unat w mod n = (unat r + unat (w - r)) mod n" using unat_mod_ring [OF n(1), of r "w - r"] by simp
  have "(unat r + k) mod n \<noteq> (unat r + unat (w - r)) mod n" if "k < unat (w - r)" for k
  proof
    assume "(unat r + k) mod n = (unat r + unat (w - r)) mod n"
    then have "n dvd unat (w - r) - k" using mod_eq_dvd_iff_nat [of "unat r + k" "unat r + unat (w - r)" n] that by simp
    then have "n \<le> unat (w - r) - k" using that by (intro dvd_imp_le) auto
    then show False using room by simp
  qed
  then show "ring_queue n (f(unat w mod n := x)) r (w + 1) = ring_queue n f r w @ [x]"
    by (simp add: ring_queue_def len w)
qed

lemma ring_pop:
  fixes r w :: "'w::len word"
  assumes n: "n dvd 2 ^ LENGTH('w)" and ne: "r \<noteq> w"
  shows "ring_queue n f r w = f (unat r mod n) # ring_queue n f (r + 1) w" "Suc (unat (w - (r + 1))) = unat (w - r)"
proof -
  have "w - r \<noteq> 0" using ne by simp
  from unat_minus_one [OF this] show len: "Suc (unat (w - (r + 1))) = unat (w - r)" by (simp add: algebra_simps)
  have "f ((unat r + Suc k) mod n) = f ((unat (r + 1) + k) mod n)" for k
  proof -
    have "(unat (r + 1) + k) mod n = (unat (r + 1) mod n + k) mod n" by (simp add: mod_add_left_eq)
    also have "\<dots> = (unat r + Suc k) mod n" unfolding unat_mod_ring [OF n] by (simp add: mod_add_left_eq)
    finally show ?thesis by simp
  qed
  then show "ring_queue n f r w = f (unat r mod n) # ring_queue n f (r + 1) w"
    unfolding ring_queue_def len [symmetric] by (simp add: upt_conv_Cons del: upt_Suc flip: map_Suc_upt)
qed

section \<open>The queue contract\<close>

locale fifo =
  fixes inv :: "'s \<Rightarrow> bool" and queue :: "'s \<Rightarrow> 'b list" and cap :: nat
    and put :: "'b \<Rightarrow> 's \<Rightarrow> 's" and front :: "'s \<Rightarrow> 'b" and pop :: "'s \<Rightarrow> 's"
  assumes cap: "inv s \<Longrightarrow> length (queue s) \<le> cap"
    and put: "inv s \<Longrightarrow> length (queue s) < cap \<Longrightarrow> inv (put x s) \<and> queue (put x s) = queue s @ [x]"
    and pop: "inv s \<Longrightarrow> queue s \<noteq> [] \<Longrightarrow> inv (pop s) \<and> queue s = front s # queue (pop s)"
begin

lemma puts:
  "inv s \<Longrightarrow> length (queue s) + length xs \<le> cap \<Longrightarrow> inv (fold put xs s) \<and> queue (fold put xs s) = queue s @ xs"
proof (induction xs arbitrary: s)
  case (Cons x xs)
  then have "inv (put x s)" "queue (put x s) = queue s @ [x]" using put [of s x] by auto
  then show ?case using Cons.IH [of "put x s"] Cons.prems by simp
qed simp

lemma pops:
  "inv s \<Longrightarrow> k \<le> length (queue s) \<Longrightarrow> inv ((pop ^^ k) s) \<and> queue ((pop ^^ k) s) = drop k (queue s)"
proof (induction k)
  case (Suc k)
  then have "inv ((pop ^^ k) s)" "queue ((pop ^^ k) s) = drop k (queue s)" "drop k (queue s) \<noteq> []" by auto
  then show ?case using pop [of "(pop ^^ k) s"] by (auto simp: drop_Suc) (metis drop_Suc list.sel(3) tl_drop)
qed simp

lemma in_order:
  assumes "inv s" "k < length (queue s)"
  shows "front ((pop ^^ k) s) = queue s ! k"
  using pops [of s k] pop [of "(pop ^^ k) s"] assms by (metis drop_eq_Nil hd_drop_conv_nth leD list.sel(1) order_less_imp_le)

end

section \<open>Appending and shortening\<close>

lemma ring_append:
  fixes r w e :: "'w::len word"
  assumes "unat (w - r) + unat (e - w) < 2 ^ LENGTH('w)"
  shows "n dvd 2 ^ LENGTH('w) \<Longrightarrow> ring_queue n f r e = ring_queue n f r w @ ring_queue n f w e"
    "unat (e - r) = unat (w - r) + unat (e - w)"
proof -
  have "unat ((w - r) + (e - w)) = unat (w - r) + unat (e - w)"
    unfolding unat_word_ariths(1) using assms by (rule mod_less)
  then show len: "unat (e - r) = unat (w - r) + unat (e - w)" by (simp add: algebra_simps)
  assume n: "n dvd 2 ^ LENGTH('w)"
  have "f ((unat r + (unat (w - r) + k)) mod n) = f ((unat w + k) mod n)" for k
  proof -
    have "(unat r + unat (w - r)) mod n = unat w mod n" using unat_mod_ring [OF n, of r "w - r"] by simp
    then have "(unat r + unat (w - r) + k) mod n = (unat w + k) mod n" by (metis mod_add_left_eq)
    then show ?thesis by (simp add: add.assoc)
  qed
  then show "ring_queue n f r e = ring_queue n f r w @ ring_queue n f w e"
    unfolding ring_queue_def len upt_add_eq_append [OF le0] map_append
    by (simp add: map_add_upt [symmetric] comp_def add.commute)
qed

lemma ring_drop_last:
  fixes r w :: "'w::len word"
  assumes n: "n dvd 2 ^ LENGTH('w)" and ne: "r \<noteq> w"
  shows "ring_queue n f r w = ring_queue n f r (w - 1) @ [f (unat (w - 1) mod n)]" "Suc (unat (w - 1 - r)) = unat (w - r)"
proof -
  have "w - r \<noteq> 0" using ne by simp
  from unat_minus_one [OF this] show len: "Suc (unat (w - 1 - r)) = unat (w - r)" by (simp add: algebra_simps)
  have "unat (w - 1) mod n = (unat r + unat (w - 1 - r)) mod n" using unat_mod_ring [OF n, of r "w - 1 - r"] by simp
  then show "ring_queue n f r w = ring_queue n f r (w - 1) @ [f (unat (w - 1) mod n)]"
    unfolding ring_queue_def len [symmetric] by simp
qed

end
