(* ===== verification/Console.thy ===== *)
theory Console imports Sched Ring begin

text \<open>
  The console: the UART driver \<^verbatim>\<open>kernel/uart.c\<close>, formatted output \<^verbatim>\<open>kernel/printf.c\<close>, the debug
  switch \<^verbatim>\<open>kernel/debug.c\<close> and line input \<^verbatim>\<open>kernel/console.c\<close>, with \<^verbatim>\<open>procdump\<close> of \<^verbatim>\<open>kernel/proc.c\<close>. The
  UART itself is a field of the state: the value a register read returns is a function of the
  register accesses made before.
\<close>

unbundle bit_operations_syntax

section \<open>State\<close>

definition RHR :: nat where "RHR = 0"
definition THR :: nat where "THR = 0"
definition IER :: nat where "IER = 1"
definition FCR :: nat where "FCR = 2"
definition ISR :: nat where "ISR = 2"
definition LCR :: nat where "LCR = 3"
definition LSR :: nat where "LSR = 5"
definition LSR_RX_READY :: uint8 where "LSR_RX_READY = push_bit 0 1"
definition LSR_TX_IDLE :: uint8 where "LSR_TX_IDLE = push_bit 5 1"

definition UART_TX_BUF_SIZE :: nat where "UART_TX_BUF_SIZE = 32"
definition INPUT_BUF_SIZE :: nat where "INPUT_BUF_SIZE = 128"
definition BACKSPACE :: uint32 where "BACKSPACE = 0x100"

definition ctrl :: "char \<Rightarrow> uint32" where
  "ctrl x = of_char x - of_char CHR ''@''"

datatype uaccess = URead nat | UWrite nat uint8

datatype devfn = Fn_consoleread | Fn_consolewrite

record devsw_entry =
  dev_read :: "devfn option"
  dev_write :: "devfn option"

record kio = ksched +
  uart_log :: "uaccess list"
  uart_dev :: "uaccess list \<Rightarrow> nat \<Rightarrow> uint8"
  uart_tx_buf :: "nat \<Rightarrow> uint8"
  uart_tx_w :: uint64
  uart_tx_r :: uint64
  panicked :: bool
  pr_locking :: bool
  debug_mode :: bool
  cons_buf :: "nat \<Rightarrow> uint8"
  cons_r :: uint32
  cons_w :: uint32
  cons_e :: uint32
  devsw :: "nat \<Rightarrow> devsw_entry"

section \<open>UART\<close>

definition ReadReg :: "nat \<Rightarrow> 'a kio_scheme \<Rightarrow> uint8 \<times> 'a kio_scheme" where
  "ReadReg r s = (uart_dev s (uart_log s) r, s\<lparr>uart_log := uart_log s @ [URead r]\<rparr>)"

definition WriteReg :: "nat \<Rightarrow> uint8 \<Rightarrow> 'a kio_scheme \<Rightarrow> 'a kio_scheme" where
  "WriteReg r v s = s\<lparr>uart_log := uart_log s @ [UWrite r v]\<rparr>"

definition uartinit :: "'a kio_scheme \<Rightarrow> 'a kio_scheme" where
  "uartinit s =
     (let s = WriteReg IER 0 s;
          s = WriteReg LCR (push_bit 7 1) s;
          s = WriteReg 0 3 s;
          s = WriteReg 1 0 s;
          s = WriteReg LCR (push_bit 0 3) s;
          s = WriteReg FCR (push_bit 0 1 OR push_bit 1 3) s;
          s = WriteReg IER (push_bit 1 1 OR push_bit 0 1) s in
      initlock L_uart_tx ''uart'' s)"

text \<open>The transmit buffer: storing a character, the next one to send, and taking it.\<close>

definition tx_put :: "uint8 \<Rightarrow> 'a kio_scheme \<Rightarrow> 'a kio_scheme" where
  "tx_put c s = s\<lparr>uart_tx_buf := (uart_tx_buf s)(unat (uart_tx_w s) mod UART_TX_BUF_SIZE := c), uart_tx_w := uart_tx_w s + 1\<rparr>"

definition tx_front :: "'a kio_scheme \<Rightarrow> uint8" where
  "tx_front s = uart_tx_buf s (unat (uart_tx_r s) mod UART_TX_BUF_SIZE)"

definition tx_pop :: "'a kio_scheme \<Rightarrow> 'a kio_scheme" where
  "tx_pop s = s\<lparr>uart_tx_r := uart_tx_r s + 1\<rparr>"

text \<open>
  \<open>n\<close> is the number of characters in the transmit buffer, \<^verbatim>\<open>uart_tx_w - uart_tx_r\<close>; nothing the loop
  calls changes the two indices.
\<close>

fun uartstart_from :: "nat \<Rightarrow> 'a kio_scheme \<Rightarrow> 'a kio_scheme res" where
  "uartstart_from 0 s = Inr (snd (ReadReg ISR s))"
| "uartstart_from (Suc n) s =
     (let (lsr, s) = ReadReg LSR s in
      if lsr AND LSR_TX_IDLE = 0 then Inr s
      else let c = tx_front s;
               s = tx_pop s in
           bindE (wakeup Ch_uart_tx_r s) (\<lambda>s. uartstart_from n (WriteReg THR c s)))"

definition uartstart :: "'a kio_scheme \<Rightarrow> 'a kio_scheme res" where
  "uartstart s = uartstart_from (unat (uart_tx_w s - uart_tx_r s)) s"

definition uartputc :: "uint32 \<Rightarrow> 'a kio_scheme \<Rightarrow> 'a kio_scheme res" where
  "uartputc c s =
     bindE (acquire L_uart_tx s) (\<lambda>s.
     if panicked s then Inl Spins
     else if uart_tx_w s = uart_tx_r s + word_of_nat UART_TX_BUF_SIZE then Inl Sleeps
     else bindE (uartstart (tx_put (ucast c) s)) (release L_uart_tx))"

text \<open>The wait for the transmit register to be empty, which on a dead device does not end.\<close>

partial_function (option) uart_wait :: "'a kio_scheme \<Rightarrow> 'a kio_scheme option" where
  "uart_wait s =
     (let (lsr, s) = ReadReg LSR s in if lsr AND LSR_TX_IDLE = 0 then uart_wait s else Some s)"

definition uartputc_sync :: "uint32 \<Rightarrow> 'a kio_scheme \<Rightarrow> 'a kio_scheme res" where
  "uartputc_sync c s =
     (let s = push_off s in
      if panicked s then Inl Spins
      else case uart_wait s of
        None \<Rightarrow> Inl Spins
      | Some s \<Rightarrow> pop_off (WriteReg THR (ucast c) s))"

definition uartgetc :: "'a kio_scheme \<Rightarrow> int \<times> 'a kio_scheme" where
  "uartgetc s =
     (let (lsr, s) = ReadReg LSR s in
      if lsr AND 1 \<noteq> 0 then let (c, s) = ReadReg RHR s in (int (unat c), s) else (-1, s))"

definition consputc :: "uint32 \<Rightarrow> 'a kio_scheme \<Rightarrow> 'a kio_scheme res" where
  "consputc c s =
     (if c = BACKSPACE then
        bindE (uartputc_sync 8 s) (\<lambda>s. bindE (uartputc_sync 32 s) (uartputc_sync 8))
      else uartputc_sync c s)"

section \<open>Formatted output\<close>

definition digit_chars :: string where
  "digit_chars = ''0123456789abcdef''"

function digits_rev :: "nat \<Rightarrow> nat \<Rightarrow> nat list" where
  "digits_rev base x = x mod base # (if 1 < base \<and> x div base \<noteq> 0 then digits_rev base (x div base) else [])"
  by pat_completeness auto

termination
  by (relation "measure snd") (auto intro!: div_less_dividend gr0I)

declare digits_rev.simps [simp del]

text \<open>
  The digits and the sign go to an array of 16 characters, last digit first; a longer number would
  be stored past its end.
\<close>

definition printint_chars :: "uint64 \<Rightarrow> nat \<Rightarrow> bool \<Rightarrow> string" where
  "printint_chars xx base sign =
     (let neg = (sign \<and> xx <s 0);
          x = (if neg then - xx else xx) in
      map (\<lambda>d. digit_chars ! d) (digits_rev base (unat x)) @ (if neg then ''-'' else ''''))"

definition put_chars :: "string \<Rightarrow> 'a kio_scheme \<Rightarrow> 'a kio_scheme res" where
  "put_chars cs s = forE (\<lambda>c. consputc (of_char c)) cs s"

definition printint :: "uint64 \<Rightarrow> nat \<Rightarrow> bool \<Rightarrow> 'a kio_scheme \<Rightarrow> 'a kio_scheme res" where
  "printint xx base sign s =
     (let buf = printint_chars xx base sign in
      if 16 < length buf then Inl Fault else put_chars (rev buf) s)"

definition printptr_chars :: "uint64 \<Rightarrow> string" where
  "printptr_chars x = ''0x'' @ map (\<lambda>i. digit_chars ! unat (drop_bit 60 (push_bit (4 * i) x))) [0..<16]"

text \<open>
  An argument of \<^verbatim>\<open>printf\<close> is an int, a 64-bit value or a string pointer; reading one of the wrong
  kind, or more than there are, is undefined.
\<close>

datatype va = VInt uint32 | VLong uint64 | VStr "string option"

datatype directive = D_int nat bool | D_long nat bool | D_ptr | D_str | D_percent | D_end | D_unknown char

definition peek :: "nat \<Rightarrow> string \<Rightarrow> char" where
  "peek k cs = (if k < length cs then cs ! k else CHR 0x00)"

text \<open>What follows a percent sign, and how many characters it takes.\<close>

definition directive_of :: "string \<Rightarrow> directive \<times> nat" where
  "directive_of f =
     (let c0 = peek 0 f;
          c1 = (if c0 \<noteq> CHR 0x00 then peek 1 f else CHR 0x00);
          c2 = (if c1 \<noteq> CHR 0x00 then peek 2 f else CHR 0x00) in
      if c0 = CHR ''d'' then (D_int 10 True, 1)
      else if c0 = CHR ''l'' \<and> c1 = CHR ''d'' then (D_long 10 True, 2)
      else if c0 = CHR ''l'' \<and> c1 = CHR ''l'' \<and> c2 = CHR ''d'' then (D_long 10 True, 3)
      else if c0 = CHR ''u'' then (D_int 10 False, 1)
      else if c0 = CHR ''l'' \<and> c1 = CHR ''u'' then (D_long 10 False, 2)
      else if c0 = CHR ''l'' \<and> c1 = CHR ''l'' \<and> c2 = CHR ''u'' then (D_long 10 False, 3)
      else if c0 = CHR ''x'' then (D_int 16 False, 1)
      else if c0 = CHR ''l'' \<and> c1 = CHR ''x'' then (D_long 16 False, 2)
      else if c0 = CHR ''l'' \<and> c1 = CHR ''l'' \<and> c2 = CHR ''x'' then (D_long 16 False, 3)
      else if c0 = CHR ''p'' then (D_ptr, 1)
      else if c0 = CHR ''s'' then (D_str, 1)
      else if c0 = CHR ''%'' then (D_percent, 1)
      else if c0 = CHR 0x00 then (D_end, 0)
      else (D_unknown c0, 1))"

fun do_directive :: "directive \<Rightarrow> va list \<Rightarrow> 'a kio_scheme \<Rightarrow> (va list \<times> 'a kio_scheme) res" where
  "do_directive (D_int base sign) (VInt v # ap) s = bindE (printint (scast v) base sign s) (\<lambda>s. Inr (ap, s))"
| "do_directive (D_long base sign) (VLong v # ap) s = bindE (printint v base sign s) (\<lambda>s. Inr (ap, s))"
| "do_directive D_ptr (VLong v # ap) s = bindE (put_chars (printptr_chars v) s) (\<lambda>s. Inr (ap, s))"
| "do_directive D_str (VStr p # ap) s =
     bindE (put_chars (case p of None \<Rightarrow> ''(null)'' | Some cs \<Rightarrow> cs) s) (\<lambda>s. Inr (ap, s))"
| "do_directive D_percent ap s = bindE (put_chars ''%'' s) (\<lambda>s. Inr (ap, s))"
| "do_directive (D_unknown c) ap s = bindE (put_chars [CHR ''%'', c] s) (\<lambda>s. Inr (ap, s))"
| "do_directive _ ap s = Inl Fault"

function printf_from :: "string \<Rightarrow> va list \<Rightarrow> 'a kio_scheme \<Rightarrow> 'a kio_scheme res" where
  "printf_from [] ap s = Inr s"
| "printf_from (c # f) ap s =
     (if c \<noteq> CHR ''%'' then bindE (put_chars [c] s) (printf_from f ap)
      else let (d, k) = directive_of f in
           if d = D_end then Inr s
           else bindE (do_directive d ap s) (\<lambda>(ap, s). printf_from (drop k f) ap s))"
  by pat_completeness auto

termination
  by (relation "measure (\<lambda>(f, _, _). length f)") auto

declare printf_from.simps [simp del]

definition printf :: "string \<Rightarrow> va list \<Rightarrow> 'a kio_scheme \<Rightarrow> 'a kio_scheme res" where
  "printf fmt ap s =
     (let locking = pr_locking s in
      bindE (if locking then acquire L_pr s else Inr s) (\<lambda>s.
      bindE (printf_from fmt ap s) (\<lambda>s.
      if locking then release L_pr s else Inr s)))"

text \<open>The state \<^verbatim>\<open>panic\<close> spins in.\<close>

definition nl :: string where "nl = [CHR 0x0A]"

definition panic :: "string \<Rightarrow> 'a kio_scheme \<Rightarrow> 'a kio_scheme res" where
  "panic msg s =
     bindE (printf ''panic: '' [] (s\<lparr>pr_locking := False\<rparr>)) (\<lambda>s.
     bindE (printf (''%s'' @ nl) [VStr (Some msg)] s) (\<lambda>s. Inr (s\<lparr>panicked := True\<rparr>)))"

definition printfinit :: "'a kio_scheme \<Rightarrow> 'a kio_scheme" where
  "printfinit s = (initlock L_pr ''pr'' s)\<lparr>pr_locking := True\<rparr>"

definition get_mode :: "'a kio_scheme \<Rightarrow> bool" where
  "get_mode s = debug_mode s"

definition debug :: "string \<Rightarrow> va list \<Rightarrow> 'a kio_scheme \<Rightarrow> 'a kio_scheme res" where
  "debug fmt ap s = (if \<not> get_mode s then Inr s else printf fmt ap s)"

definition debugswitch :: "'a kio_scheme \<Rightarrow> 'a kio_scheme res" where
  "debugswitch s =
     (let s = s\<lparr>debug_mode := \<not> debug_mode s\<rparr> in
      printf (''Switch debug mode to %d'' @ nl) [VInt (if debug_mode s then 1 else 0)] s)"

definition sys_debugswitch :: "'a kio_scheme \<Rightarrow> (uint64 \<times> 'a kio_scheme) res" where
  "sys_debugswitch s = bindE (debugswitch s) (\<lambda>s. Inr (0, s))"

fun state_name :: "procstate \<Rightarrow> string" where
  "state_name UNUSED = ''unused''"
| "state_name USED = ''used''"
| "state_name SLEEPING = ''sleep ''"
| "state_name RUNNABLE = ''runble''"
| "state_name RUNNING = ''run   ''"
| "state_name ZOMBIE = ''zombie''"

definition name_string :: "uint8 list \<Rightarrow> string" where
  "name_string bs = map (\<lambda>c. char_of (unat c)) (takeWhile (\<lambda>c. c \<noteq> 0) bs)"

definition procdump :: "'a kio_scheme \<Rightarrow> 'a kio_scheme res" where
  "procdump s =
     bindE (printf nl [] s) (forE (\<lambda>p s.
       if p_state (procs s p) = UNUSED then Inr s
       else bindE (printf ''%d %s %s'' [VInt (word_of_int (p_pid (procs s p))), VStr (Some (state_name (p_state (procs s p)))),
                     VStr (Some (name_string (p_name (procs s p))))] s) (printf nl [])) [0..<NPROC])"

section \<open>Line input\<close>

definition consoleinit :: "'a kio_scheme \<Rightarrow> 'a kio_scheme" where
  "consoleinit s =
     (let s = uartinit (initlock L_cons ''cons'' s) in
      s\<lparr>devsw := (devsw s)(1 := \<lparr>dev_read = Some Fn_consoleread, dev_write = Some Fn_consolewrite\<rparr>)\<rparr>)"

fun consolewrite_from :: "bool \<Rightarrow> uint64 \<Rightarrow> nat \<Rightarrow> int \<Rightarrow> 'a kio_scheme \<Rightarrow> (int \<times> 'a kio_scheme) res" where
  "consolewrite_from user_src src 0 i s = Inr (i, s)"
| "consolewrite_from user_src src (Suc n) i s =
     bindE (either_copyin user_src src 1 s) (\<lambda>(r, bs, s).
     if r = -1 then Inr (i, s)
     else bindE (uartputc (ucast (bs ! 0)) s) (consolewrite_from user_src (src + 1) n (i + 1)))"

definition consolewrite :: "bool \<Rightarrow> uint64 \<Rightarrow> int \<Rightarrow> 'a kio_scheme \<Rightarrow> (int \<times> 'a kio_scheme) res" where
  "consolewrite user_src src n s = consolewrite_from user_src src (nat n) 0 s"

text \<open>The loop of \<^verbatim>\<open>consoleread\<close>; \<open>n\<close> bytes are still wanted, \<open>i\<close> have been copied.\<close>

fun consoleread_from :: "bool \<Rightarrow> uint64 \<Rightarrow> nat \<Rightarrow> nat \<Rightarrow> 'a kio_scheme \<Rightarrow> (int option \<times> 'a kio_scheme) res" where
  "consoleread_from user_dst dst 0 i s = Inr (Some (int i), s)"
| "consoleread_from user_dst dst (Suc n) i s =
     (if cons_r s = cons_w s then
        bindE (curproc s) (\<lambda>(p, s).
        bindE (killed p s) (\<lambda>(k, s).
        if k \<noteq> 0 then bindE (release L_cons s) (\<lambda>s. Inr (None, s)) else Inl Sleeps))
      else
        let c = cons_buf s (unat (cons_r s) mod INPUT_BUF_SIZE);
            s = s\<lparr>cons_r := cons_r s + 1\<rparr> in
        if ucast c = ctrl CHR ''D'' then
          Inr (Some (int i), if 0 < i then s\<lparr>cons_r := cons_r s - 1\<rparr> else s)
        else bindE (either_copyout user_dst dst [c] s) (\<lambda>(r, s).
          if r = -1 then Inr (Some (int i), s)
          else if c = 10 then Inr (Some (int i + 1), s)
          else consoleread_from user_dst (dst + 1) n (i + 1) s))"

definition consoleread :: "bool \<Rightarrow> uint64 \<Rightarrow> int \<Rightarrow> 'a kio_scheme \<Rightarrow> (int \<times> 'a kio_scheme) res" where
  "consoleread user_dst dst n s =
     bindE (acquire L_cons s) (\<lambda>s.
     bindE (consoleread_from user_dst dst (nat n) 0 s) (\<lambda>(r, s).
     case r of
       None \<Rightarrow> Inr (-1, s)
     | Some i \<Rightarrow> bindE (release L_cons s) (\<lambda>s. Inr (i, s))))"

fun kill_line :: "nat \<Rightarrow> 'a kio_scheme \<Rightarrow> 'a kio_scheme res" where
  "kill_line 0 s = Inr s"
| "kill_line (Suc n) s =
     (if cons_buf s (unat (cons_e s - 1) mod INPUT_BUF_SIZE) \<noteq> 10
      then bindE (consputc BACKSPACE (s\<lparr>cons_e := cons_e s - 1\<rparr>)) (kill_line n)
      else Inr s)"

definition console_char :: "uint32 \<Rightarrow> 'a kio_scheme \<Rightarrow> 'a kio_scheme res" where
  "console_char c s =
     (if c \<noteq> 0 \<and> unat (cons_e s - cons_r s) < INPUT_BUF_SIZE then
        let c = (if c = 13 then 10 else c) in
        bindE (consputc c s) (\<lambda>s.
        let s = s\<lparr>cons_buf := (cons_buf s)(unat (cons_e s) mod INPUT_BUF_SIZE := ucast c), cons_e := cons_e s + 1\<rparr> in
        if c = 10 \<or> c = ctrl CHR ''D'' \<or> cons_e s - cons_r s = word_of_nat INPUT_BUF_SIZE
        then wakeup Ch_cons_r (s\<lparr>cons_w := cons_e s\<rparr>)
        else Inr s)
      else Inr s)"

definition consoleintr :: "uint32 \<Rightarrow> 'a kio_scheme \<Rightarrow> 'a kio_scheme res" where
  "consoleintr c s =
     bindE (acquire L_cons s) (\<lambda>s.
     bindE (if c = ctrl CHR ''P'' then procdump s
            else if c = ctrl CHR ''U'' then kill_line (unat (cons_e s - cons_w s)) s
            else if c = ctrl CHR ''H'' \<or> c = 0x7f then
              (if cons_e s \<noteq> cons_w s then consputc BACKSPACE (s\<lparr>cons_e := cons_e s - 1\<rparr>) else Inr s)
            else console_char c s) (release L_cons))"

partial_function (option) uart_input :: "'a kio_scheme \<Rightarrow> 'a kio_scheme res option" where
  "uart_input s =
     (let (c, s) = uartgetc s in
      if c = -1 then Some (Inr s)
      else case consoleintr (word_of_int c) s of
        Inl e \<Rightarrow> Some (Inl e)
      | Inr s \<Rightarrow> uart_input s)"

definition uartintr :: "'a kio_scheme \<Rightarrow> 'a kio_scheme res" where
  "uartintr s =
     (case uart_input s of
        None \<Rightarrow> Inl Spins
      | Some r \<Rightarrow> bindE r (\<lambda>s. bindE (acquire L_uart_tx s) (\<lambda>s. bindE (uartstart s) (release L_uart_tx))))"


section \<open>Number formatting\<close>

definition digits_value :: "nat \<Rightarrow> nat list \<Rightarrow> nat" where
  "digits_value base ds = foldr (\<lambda>d acc. d + base * acc) ds 0"

lemma digits_rev_value: "digits_value base (digits_rev base x) = x" if "1 < base"
  using that
proof (induction base x rule: digits_rev.induct)
  case (1 base x)
  show ?case
  proof (cases "x div base = 0")
    case True
    then show ?thesis using 1(2) by (simp add: digits_rev.simps [of base x] digits_value_def div_eq_0_iff)
  next
    case False
    then show ?thesis using 1 by (simp add: digits_rev.simps [of base x] digits_value_def)
  qed
qed

lemma digits_rev_less: "1 < base \<Longrightarrow> d \<in> set (digits_rev base x) \<Longrightarrow> d < base"
proof (induction base x rule: digits_rev.induct)
  case (1 base x)
  have "d = x mod base \<or> x div base \<noteq> 0 \<and> d \<in> set (digits_rev base (x div base))"
    using 1(3) by (subst (asm) digits_rev.simps) (auto split: if_splits)
  then show ?case using 1(1,2) by (auto simp: 1(2))
qed

lemma digits_rev_nonempty: "digits_rev base x \<noteq> []"
  by (subst digits_rev.simps) simp

lemma digits_rev_last: "1 < base \<Longrightarrow> digits_rev base x = [0] \<or> last (digits_rev base x) \<noteq> 0"
proof (induction base x rule: digits_rev.induct)
  case (1 base x)
  show ?case
  proof (cases "x div base = 0")
    case True
    then show ?thesis using 1(2) by (subst (1 2) digits_rev.simps) (auto simp: div_eq_0_iff)
  next
    case False
    have e: "digits_rev base x = x mod base # digits_rev base (x div base)"
      using False 1(2) by (subst digits_rev.simps) simp
    have "digits_rev base (x div base) \<noteq> [0]"
      using False digits_rev_value [OF 1(2), of "x div base"] by (auto simp: digits_value_def)
    then show ?thesis using 1 False unfolding e by (simp add: digits_rev_nonempty)
  qed
qed

lemma length_digits_rev: "length (digits_rev base x) \<le> Suc n \<longleftrightarrow> x < base ^ Suc n" if "1 < base"
  using that
proof (induction n arbitrary: x)
  case 0
  show ?case using 0 by (subst digits_rev.simps) (auto simp: div_eq_0_iff digits_rev_nonempty)
next
  case (Suc n)
  have "x < base ^ Suc (Suc n) \<longleftrightarrow> x div base < base ^ Suc n"
    using Suc.prems by (simp add: div_less_iff_less_mult mult.commute)
  moreover have "length (digits_rev base x) = Suc (if x div base \<noteq> 0 then length (digits_rev base (x div base)) else 0)"
    using Suc.prems by (subst digits_rev.simps) simp
  moreover have "0 < base ^ Suc n" using Suc.prems by simp
  ultimately show ?case using Suc.IH [OF Suc.prems, of "x div base"] by (auto simp del: power_Suc)
qed

lemma sint_of_uint:
  "sint (x :: 'a::len word) = (if uint x < 2 ^ (LENGTH('a) - 1) then uint x else uint x - 2 ^ LENGTH('a))"
proof -
  have l: "(2 :: int) ^ LENGTH('a) = 2 * 2 ^ (LENGTH('a) - 1)"
    using len_gt_0 [where 'a = 'a] by (metis Suc_pred power_Suc len_gt_0 One_nat_def)
  have b: "0 \<le> uint x" "uint x < 2 ^ LENGTH('a)" by simp_all
  have s: "sint x = (uint x + 2 ^ (LENGTH('a) - 1)) mod 2 ^ LENGTH('a) - 2 ^ (LENGTH('a) - 1)"
    unfolding sint_uint signed_take_bit_eq_take_bit_shift by (simp add: take_bit_eq_mod)
  show ?thesis
  proof (cases "uint x < 2 ^ (LENGTH('a) - 1)")
    case True
    then have "(uint x + 2 ^ (LENGTH('a) - 1)) mod 2 ^ LENGTH('a) = uint x + 2 ^ (LENGTH('a) - 1)"
      using b l by (intro mod_pos_pos_trivial) auto
    then show ?thesis using s True by simp
  next
    case False
    have "(uint x + 2 ^ (LENGTH('a) - 1)) mod 2 ^ LENGTH('a) = (uint x + 2 ^ (LENGTH('a) - 1) - 2 ^ LENGTH('a)) mod 2 ^ LENGTH('a)"
      by simp
    also have "\<dots> = uint x + 2 ^ (LENGTH('a) - 1) - 2 ^ LENGTH('a)"
      using False b l by (intro mod_pos_pos_trivial) auto
    finally show ?thesis using s False by simp
  qed
qed

lemma uint_scast_64: "uint (scast (v :: uint32) :: uint64) = (if uint v < 2 ^ 31 then uint v else uint v + (2 ^ 64 - 2 ^ 32))"
proof -
  have "(scast v :: uint64) = word_of_int (sint v)" by simp
  then have u: "uint (scast v :: uint64) = sint v mod 2 ^ 64" by (simp only: uint_word_of_int) simp
  have b: "0 \<le> uint v" "uint v < 2 ^ 32" using uint_ge_0 [of v] uint_bounded [of v] by simp_all
  show ?thesis
  proof (cases "uint v < 2 ^ 31")
    case True
    then show ?thesis using b unfolding u sint_of_uint by simp
  next
    case False
    have "(uint v - 2 ^ 32) mod 2 ^ 64 = (uint v - 2 ^ 32 + 2 ^ 64) mod 2 ^ 64" by (rule mod_add_self2 [symmetric])
    also have "\<dots> = uint v - 2 ^ 32 + 2 ^ 64" using False b by (intro mod_pos_pos_trivial) auto
    finally show ?thesis using False unfolding u sint_of_uint by simp
  qed
qed

lemma sless_zero: "(x :: uint64) <s 0 \<longleftrightarrow> 2 ^ 63 \<le> uint x"
  using uint_ge_0 [of x] uint_bounded [of x] by (simp add: word_sless_alt sint_of_uint not_less)

lemma uint_magnitude: "uint (if x <s 0 then - x else x) = \<bar>sint (x :: uint64)\<bar>"
proof (cases "x <s 0")
  case True
  have b: "0 \<le> uint x" "uint x < 2 ^ 64" "2 ^ 63 \<le> uint x" using uint_ge_0 [of x] uint_bounded [of x] True sless_zero by simp_all
  have "uint (- x) = (- uint x) mod 2 ^ 64" by (simp add: uint_word_ariths)
  also have "\<dots> = (2 ^ 64 - uint x) mod 2 ^ 64" by (metis add.commute diff_conv_add_uminus mod_add_self1)
  also have "\<dots> = 2 ^ 64 - uint x" using b by (intro mod_pos_pos_trivial) auto
  finally show ?thesis using True b by (simp add: sint_of_uint)
next
  case False
  then show ?thesis using sless_zero [of x] uint_ge_0 [of x] uint_bounded [of x] by (simp add: sint_of_uint)
qed

lemma length_printint_chars:
  "length (printint_chars x base sign) = length (digits_rev base (unat (if sign \<and> x <s 0 then - x else x))) + (if sign \<and> x <s 0 then 1 else 0)"
  by (simp add: printint_chars_def Let_def)

text \<open>
  C19. What \<^verbatim>\<open>printint\<close> prints denotes its argument: the characters it collects, last digit first, are digits
  below the base without leading zeros whose value is the argument, or its absolute value followed by
  a minus sign when it is printed as signed and is negative. This covers the most negative number.
\<close>

theorem printint_denotes:
  assumes "base \<in> {10, 16}"
  shows "\<exists>ds. printint_chars x base sign = map (\<lambda>d. digit_chars ! d) ds @ (if sign \<and> sint x < 0 then ''-'' else []) \<and>
    (\<forall>d \<in> set ds. d < base) \<and> int (digits_value base ds) = (if sign then \<bar>sint x\<bar> else uint x) \<and>
    (ds = [0] \<or> last ds \<noteq> 0)"
proof (intro exI conjI)
  let ?y = "if sign \<and> x <s 0 then - x else x"
  have b: "1 < base" using assms by auto
  have n: "x <s 0 \<longleftrightarrow> sint x < 0" by (simp add: word_sless_alt)
  show "printint_chars x base sign =
      map (\<lambda>d. digit_chars ! d) (digits_rev base (unat ?y)) @ (if sign \<and> sint x < 0 then ''-'' else [])"
    unfolding printint_chars_def Let_def n by simp
  show "\<forall>d \<in> set (digits_rev base (unat ?y)). d < base" using digits_rev_less [OF b] by blast
  have "int (unat ?y) = (if sign then \<bar>sint x\<bar> else uint x)"
    using uint_magnitude [of x] by (cases sign) simp_all
  then show "int (digits_value base (digits_rev base (unat ?y))) = (if sign then \<bar>sint x\<bar> else uint x)"
    unfolding digits_rev_value [OF b] .
  show "digits_rev base (unat ?y) = [0] \<or> last (digits_rev base (unat ?y)) \<noteq> 0" by (rule digits_rev_last [OF b])
qed

theorem printint_denotes_witness:
  "\<exists>ds. printint_chars (- 42) 10 True = map (\<lambda>d. digit_chars ! d) ds @ ''-'' \<and> int (digits_value 10 ds) = 42"
proof -
  have "sint (- 42 :: uint64) = - 42" by simp
  then show ?thesis using printint_denotes [of 10 "- 42" True] by auto
qed

text \<open>
  C20. The array of 16 characters in which \<^verbatim>\<open>printint\<close> collects them: it is large enough for every \<^verbatim>\<open>%d\<close> and
  every hexadecimal number, but an unsigned 64-bit decimal fits only below \<open>10 ^ 16\<close>, and since \<^verbatim>\<open>%u\<close> passes its
  argument through a signed int every unsigned int from \<open>2 ^ 31\<close> on becomes a number of 20 digits that
  is stored past the end of the array.
\<close>

theorem printint_buffer_bounds:
  "length (printint_chars (scast (v :: uint32)) 10 True) \<le> 11 \<and>
   length (printint_chars x 16 False) \<le> 16 \<and>
   (length (printint_chars x 10 False) \<le> 16 \<longleftrightarrow> unat x < 10 ^ 16) \<and>
   (16 < length (printint_chars (scast v) 10 False) \<longleftrightarrow> 2 ^ 31 \<le> unat v)"
proof (intro conjI)
  have i: "int (unat w) < int n \<longleftrightarrow> unat w < n" for w :: "'a::len word" and n by (rule of_nat_less_iff)
  have u: "unat v < 2 ^ 31 \<longleftrightarrow> uint v < 2 ^ 31" using i [of v "2 ^ 31"] by simp
  define y where "y = (if (scast v :: uint64) <s 0 then - scast v else scast v :: uint64)"
  have "\<bar>sint (scast v :: uint64)\<bar> < 10 ^ 10"
    using uint_ge_0 [of v] uint_bounded [of v] by (simp add: sint_of_uint uint_scast_64)
  then have "uint y < 10 ^ 10" using uint_magnitude [of "scast v"] by (simp add: y_def)
  then have "unat y < 10 ^ Suc 9" using i [of y "10 ^ 10"] by simp
  then have "length (digits_rev 10 (unat y)) \<le> Suc 9" by (subst length_digits_rev) simp_all
  then show "length (printint_chars (scast v) 10 True) \<le> 11" unfolding length_printint_chars by (simp flip: y_def)
  have "unat x < 16 ^ Suc 15" using unsigned_less [of x, where ?'a = nat] by simp
  then show "length (printint_chars x 16 False) \<le> 16"
    using length_digits_rev [of 16 "unat x" 15] by (simp add: length_printint_chars)
  have d: "length (printint_chars y 10 False) \<le> 16 \<longleftrightarrow> unat y < 10 ^ 16" for y
    using length_digits_rev [of 10 "unat y" 15] by (simp add: length_printint_chars)
  show "length (printint_chars x 10 False) \<le> 16 \<longleftrightarrow> unat x < 10 ^ 16" by (rule d)
  have "uint (scast v :: uint64) < 10 ^ 16 \<longleftrightarrow> uint v < 2 ^ 31"
    using uint_ge_0 [of v] uint_bounded [of v] by (simp add: uint_scast_64)
  then have "unat (scast v :: uint64) < 10 ^ 16 \<longleftrightarrow> unat v < 2 ^ 31"
    using u i [of "scast v :: uint64" "10 ^ 16"] by simp
  then show "16 < length (printint_chars (scast v) 10 False) \<longleftrightarrow> 2 ^ 31 \<le> unat v"
    using d [of "scast v"] by linarith
qed

section \<open>What console output leaves alone\<close>

text \<open>The console's own fields under such a change, and under one that also touches the UART.\<close>

lemma mframe_kio:
  assumes "mframe s s'"
  shows "cons_buf s' = cons_buf s" "cons_r s' = cons_r s" "cons_w s' = cons_w s" "cons_e s' = cons_e s"
    "uart_tx_buf s' = uart_tx_buf s" "uart_tx_r s' = uart_tx_r s" "uart_tx_w s' = uart_tx_w s" "uart_log s' = uart_log s"
    "uart_dev s' = uart_dev s" "panicked s' = panicked s" "pr_locking s' = pr_locking s"
  by (subst mframe_eq [OF assms], simp)+

definition ioframe :: "'a kio_scheme \<Rightarrow> 'a kio_scheme \<Rightarrow> bool" where
  "ioframe s s' \<longleftrightarrow> mframe (s\<lparr>uart_log := uart_log s'\<rparr>) s'"

lemma ioframe_refl [simp]: "ioframe s s"
  by (simp add: ioframe_def)

lemma ioframe_trans [trans]: "ioframe s s' \<Longrightarrow> ioframe s' s'' \<Longrightarrow> ioframe s s''"
  by (cases s; cases s'; cases s'') (simp add: ioframe_def mframe_def)

lemma mframe_ioframe: "mframe s s' \<Longrightarrow> ioframe s s'"
  unfolding ioframe_def by (simp add: mframe_kio)

lemma ioframe_log [simp]: "ioframe s (s\<lparr>uart_log := l\<rparr>)"
  by (simp add: ioframe_def)

lemma ioframe_kio:
  assumes "ioframe s s'"
  shows "cons_buf s' = cons_buf s" "cons_r s' = cons_r s" "cons_w s' = cons_w s" "cons_e s' = cons_e s"
    "uart_tx_buf s' = uart_tx_buf s" "uart_tx_r s' = uart_tx_r s" "uart_tx_w s' = uart_tx_w s"
  using mframe_kio [OF assms [unfolded ioframe_def]] by simp_all

lemma uart_wait_frame:
  assumes "uart_wait s = Some s'" shows "ioframe s s'"
  using assms
  by (rule uart_wait.raw_induct [rotated])
    (auto simp: ReadReg_def Let_def split: if_splits intro: ioframe_trans [OF ioframe_log])

lemma uartputc_sync_frame:
  assumes "uartputc_sync c s = Inr s'" shows "ioframe s s'"
proof -
  obtain s1 where 1: "uart_wait (push_off s) = Some s1" "pop_off (WriteReg THR (ucast c) s1) = Inr s'"
    using assms by (auto simp: uartputc_sync_def Let_def split: if_splits option.splits)
  have "ioframe s (push_off s)" by (rule mframe_ioframe [OF push_off_frame])
  also have "ioframe (push_off s) s1" by (rule uart_wait_frame [OF 1(1)])
  also have "ioframe s1 (WriteReg THR (ucast c) s1)" by (simp add: WriteReg_def)
  also have "ioframe (WriteReg THR (ucast c) s1) s'" by (rule mframe_ioframe [OF pop_off_frame [OF 1(2)]])
  finally show ?thesis .
qed

lemma consputc_frame: "consputc c s = Inr s' \<Longrightarrow> ioframe s s'"
  by (auto simp: consputc_def res_iff split: if_splits dest!: uartputc_sync_frame intro: ioframe_trans)

lemma put_chars_frame: "put_chars cs s = Inr s' \<Longrightarrow> ioframe s s'"
  unfolding put_chars_def by (rule forE_frame [OF consputc_frame ioframe_refl ioframe_trans])

lemma printint_frame: "printint x base sign s = Inr s' \<Longrightarrow> ioframe s s'"
  by (auto simp: printint_def Let_def split: if_splits dest: put_chars_frame)

lemma do_directive_frame: "do_directive d ap s = Inr (ap', s') \<Longrightarrow> ioframe s s'"
  by (induction d ap s rule: do_directive.induct) (auto simp: res_iff dest: printint_frame put_chars_frame)

lemma printf_from_frame: "printf_from f ap s = Inr s' \<Longrightarrow> ioframe s s'"
proof (induction f ap s arbitrary: s' rule: printf_from.induct)
  case (2 c f ap s)
  show ?case
  proof (cases "c = CHR ''%''")
    case False
    then obtain s1 where "put_chars [c] s = Inr s1" "printf_from f ap s1 = Inr s'"
      using 2(3) by (auto simp: printf_from.simps res_iff)
    then show ?thesis using 2(1) [OF False] put_chars_frame ioframe_trans by blast
  next
    case True
    obtain d k where d: "directive_of f = (d, k)" by (cases "directive_of f")
    show ?thesis
    proof (cases "d = D_end")
      case False
      then obtain ap1 s1 where 1: "do_directive d ap s = Inr (ap1, s1)" "printf_from (drop k f) ap1 s1 = Inr s'"
        using 2(3) True d by (auto simp: printf_from.simps res_iff)
      then have "ioframe s1 s'" using 2(2) [of "(d, k)" d k "(ap1, s1)" ap1 s1] True d False by simp
      then show ?thesis using do_directive_frame [OF 1(1)] ioframe_trans by blast
    qed (use 2(3) True d in \<open>simp add: printf_from.simps\<close>)
  qed
qed (simp add: printf_from.simps)

lemma printf_frame: "printf f ap s = Inr s' \<Longrightarrow> ioframe s s'"
  by (auto simp: printf_def Let_def res_iff split: if_splits dest!: printf_from_frame acquire_frame release_frame mframe_ioframe intro: ioframe_trans)

lemma procdump_frame: "procdump s = Inr s' \<Longrightarrow> ioframe s s'"
proof -
  have "ioframe s1 s'" if "forE (\<lambda>p s. if p_state (procs s p) = UNUSED then Inr s
       else bindE (printf ''%d %s %s'' [VInt (word_of_int (p_pid (procs s p))), VStr (Some (state_name (p_state (procs s p)))),
                     VStr (Some (name_string (p_name (procs s p))))] s) (printf nl [])) ps s1 = Inr s'" for s1 ps
    using that by (rule forE_frame [where R = ioframe, rotated 3]) (auto split: if_splits simp: res_iff dest!: printf_frame intro: ioframe_trans)
  then show "procdump s = Inr s' \<Longrightarrow> ioframe s s'"
    by (auto simp: procdump_def res_iff dest!: printf_frame intro: ioframe_trans)
qed


section \<open>The transmit buffer\<close>

abbreviation tx_inv :: "'a kio_scheme \<Rightarrow> bool" where
  "tx_inv s \<equiv> unat (uart_tx_w s - uart_tx_r s) \<le> UART_TX_BUF_SIZE"

abbreviation tx_queue :: "'a kio_scheme \<Rightarrow> uint8 list" where
  "tx_queue s \<equiv> ring_queue UART_TX_BUF_SIZE (uart_tx_buf s) (uart_tx_r s) (uart_tx_w s)"

lemma tx_size: "UART_TX_BUF_SIZE dvd 2 ^ LENGTH(64)" "UART_TX_BUF_SIZE < 2 ^ LENGTH(64)"
  by (simp_all add: UART_TX_BUF_SIZE_def dvd_def)

interpretation tx: fifo tx_inv tx_queue UART_TX_BUF_SIZE tx_put tx_front tx_pop
proof
  show "length (tx_queue s) \<le> UART_TX_BUF_SIZE" if "tx_inv s" for s :: "'a kio_scheme" using that by simp
  show "tx_inv (tx_put x s) \<and> tx_queue (tx_put x s) = tx_queue s @ [x]"
    if "tx_inv s" "length (tx_queue s) < UART_TX_BUF_SIZE" for x and s :: "'a kio_scheme"
    using that ring_put(1) [OF tx_size, where w = "uart_tx_w s" and r = "uart_tx_r s" and f = "uart_tx_buf s" and x = x]
      ring_put(2) [OF tx_size, where w = "uart_tx_w s" and r = "uart_tx_r s"] by (simp add: tx_put_def)
  show "tx_inv (tx_pop s) \<and> tx_queue s = tx_front s # tx_queue (tx_pop s)"
    if "tx_inv s" "tx_queue s \<noteq> []" for s :: "'a kio_scheme"
  proof -
    have "uart_tx_r s \<noteq> uart_tx_w s" using that(2) by auto
    from ring_pop(1) [OF tx_size(1) this, of "uart_tx_buf s"] ring_pop(2) [OF tx_size(1) this] show ?thesis using that(1) by (simp add: tx_pop_def tx_front_def)
  qed
qed

text \<open>The bytes given to the UART so far.\<close>

definition sent :: "uaccess list \<Rightarrow> uint8 list" where
  "sent l = concat (map (\<lambda>a. case a of UWrite r v \<Rightarrow> if r = THR then [v] else [] | URead r \<Rightarrow> []) l)"

lemma sent_simps [simp]: "sent (l @ [URead r]) = sent l" "sent (l @ [UWrite THR v]) = sent l @ [v]"
  by (simp_all add: sent_def)

lemma mframe_tx:
  assumes "mframe s s'" shows "tx_queue s' = tx_queue s" "tx_inv s' \<longleftrightarrow> tx_inv s" "sent (uart_log s') = sent (uart_log s)"
  by (simp_all add: mframe_kio [OF assms])

lemma uartstart_from_order:
  assumes "uartstart_from n s = Inr s'" "tx_inv s" "n = length (tx_queue s)"
  shows "tx_inv s' \<and> sent (uart_log s') @ tx_queue s' = sent (uart_log s) @ tx_queue s"
  using assms
proof (induction n arbitrary: s)
  case (Suc n)
  let ?s1 = "snd (ReadReg LSR s)"
  have 1: "tx_inv ?s1" "tx_queue ?s1 = tx_queue s" "sent (uart_log ?s1) = sent (uart_log s)"
    using Suc.prems(2) by (simp_all add: ReadReg_def)
  show ?case
  proof (cases "fst (ReadReg LSR s) AND LSR_TX_IDLE = 0")
    case True
    then have "s' = ?s1" using Suc.prems(1) by (simp add: split_beta Let_def)
    then show ?thesis using 1 by simp
  next
    case False
    then obtain s2 where 2: "wakeup Ch_uart_tx_r (tx_pop ?s1) = Inr s2" "uartstart_from n (WriteReg THR (tx_front ?s1) s2) = Inr s'"
      using Suc.prems(1) by (auto simp: split_beta Let_def res_iff)
    have ne: "tx_queue ?s1 \<noteq> []" using Suc.prems(3) 1(2) by (metis list.size(3) nat.distinct(1))
    note p = tx.pop [OF 1(1) ne]
    note f = mframe_tx [OF wakeup_frame [OF 2(1)]]
    let ?s3 = "WriteReg THR (tx_front ?s1) s2"
    have "sent (uart_log (tx_pop ?s1)) = sent (uart_log s)" using 1(3) by (simp add: tx_pop_def)
    then have 3: "tx_inv ?s3" "tx_queue ?s3 = tx_queue (tx_pop ?s1)" "sent (uart_log ?s3) = sent (uart_log s) @ [tx_front ?s1]"
      using p f by (simp_all add: WriteReg_def)
    have "n = length (tx_queue ?s3)" using Suc.prems(3) 1(2) 3(2) arg_cong [OF conjunct2 [OF p], of length] by simp
    from Suc.IH [OF 2(2) 3(1) this] show ?thesis using 3 p 1(2) by simp
  qed
qed (auto simp: ReadReg_def)

lemma uartstart_order:
  assumes "uartstart s = Inr s'" "tx_inv s"
  shows "tx_inv s' \<and> sent (uart_log s') @ tx_queue s' = sent (uart_log s) @ tx_queue s"
  using uartstart_from_order [OF assms(1) [unfolded uartstart_def] assms(2)] by simp

text \<open>
  C25. Output through the transmit buffer keeps its order and loses nothing: after \<^verbatim>\<open>uartputc\<close> the bytes already
  given to the UART followed by those in the buffer are the same as before with the new character
  at the end, and \<^verbatim>\<open>uartstart\<close>, called there and on every interrupt, only moves characters from the
  buffer to the UART. The buffer never holds more than its 32 characters, although both counters
  run freely.
\<close>

theorem uart_output_in_order:
  assumes "tx_inv s"
  shows "(uartputc c s = Inr s' \<longrightarrow> tx_inv s' \<and> sent (uart_log s') @ tx_queue s' = sent (uart_log s) @ tx_queue s @ [ucast c]) \<and>
    (uartstart s = Inr s' \<longrightarrow> tx_inv s' \<and> sent (uart_log s') @ tx_queue s' = sent (uart_log s) @ tx_queue s)"
proof (intro conjI impI)
  assume "uartputc c s = Inr s'"
  then obtain s1 s2 where 1: "acquire L_uart_tx s = Inr s1" "uart_tx_w s1 \<noteq> uart_tx_r s1 + word_of_nat UART_TX_BUF_SIZE"
      "uartstart (tx_put (ucast c) s1) = Inr s2" "release L_uart_tx s2 = Inr s'"
    by (auto simp: uartputc_def res_iff split: if_splits)
  note a = mframe_tx [OF acquire_frame [OF 1(1)]] and r = mframe_tx [OF release_frame [OF 1(4)]]
  have "uart_tx_w s1 - uart_tx_r s1 \<noteq> word_of_nat UART_TX_BUF_SIZE" using 1(2) by (auto simp: algebra_simps)
  moreover have "word_of_nat (unat (uart_tx_w s1 - uart_tx_r s1)) = uart_tx_w s1 - uart_tx_r s1" by simp
  ultimately have "unat (uart_tx_w s1 - uart_tx_r s1) \<noteq> UART_TX_BUF_SIZE" by metis
  then have "length (tx_queue s1) < UART_TX_BUF_SIZE" using a(2) assms by simp
  then have p: "tx_inv (tx_put (ucast c) s1)" "tx_queue (tx_put (ucast c) s1) = tx_queue s @ [ucast c]"
    using tx.put [of s1 "ucast c"] a assms by simp_all
  have l: "sent (uart_log (tx_put (ucast c) s1)) = sent (uart_log s)" using a by (simp add: tx_put_def)
  show "tx_inv s'" using uartstart_order [OF 1(3) p(1)] r(2) by simp
  show "sent (uart_log s') @ tx_queue s' = sent (uart_log s) @ tx_queue s @ [ucast c]"
    using uartstart_order [OF 1(3) p(1)] r(1,3) p(2) l by simp
next
  assume "uartstart s = Inr s'"
  from uartstart_order [OF this assms]
  show "tx_inv s'" "sent (uart_log s') @ tx_queue s' = sent (uart_log s) @ tx_queue s" by simp_all
qed


text \<open>A console at rest whose UART never becomes ready, with every lock free.\<close>

definition quiet_io :: kio where
  "quiet_io = \<lparr>hart = 0, sie = (\<lambda>_. False), cpus = (\<lambda>_. zero_cpu), locks = (\<lambda>_. zero_lock), procs = (\<lambda>_. zero_proc),
     mem = (\<lambda>_. 0), freelist = 0, kernel_end = 0, kernel_pagetable = 0, etext = 0, trampoline = 0, satp = (\<lambda>_. 0),
     hregs = (\<lambda>_. zero_context), nextpid = 1, initproc = None, sleeplocks = (\<lambda>_. zero_sleeplock), ticks = 0, frame = 0,
     uart_log = [], uart_dev = (\<lambda>_ _. 0), uart_tx_buf = (\<lambda>_. 0), uart_tx_w = 0, uart_tx_r = 0, panicked = False,
     pr_locking = False, debug_mode = False, cons_buf = (\<lambda>_. 0), cons_r = 0, cons_w = 0, cons_e = 0,
     devsw = (\<lambda>_. \<lparr>dev_read = None, dev_write = None\<rparr>)\<rparr>"

lemmas quiet_run = quiet_io_def zero_lock_def zero_cpu_def acquire_def push_off_def intr_off_def intr_get_def set_mycpu_def mycpu_def
  cpuid_def holding_def test_and_set_def set_lk_cpu_def release_def lock_release_word_def pop_off_def intr_on_def

theorem uart_output_in_order_witness:
  "\<exists>s'. uartputc 65 quiet_io = Inr s' \<and> sent (uart_log s') @ tx_queue s' = [65]"
proof -
  obtain s' where s: "uartputc 65 quiet_io = Inr s'"
    by (auto simp: uartputc_def uartstart_def tx_put_def ReadReg_def quiet_run UART_TX_BUF_SIZE_def Let_def)
  have "tx_inv quiet_io" "sent (uart_log quiet_io) = []" "tx_queue quiet_io = []" by (simp_all add: quiet_io_def sent_def)
  with uart_output_in_order [of quiet_io 65 s'] s show ?thesis by auto
qed

section \<open>Line input\<close>

abbreviation cons_ready :: "'a kio_scheme \<Rightarrow> uint8 list" where
  "cons_ready s \<equiv> ring_queue INPUT_BUF_SIZE (cons_buf s) (cons_r s) (cons_w s)"

abbreviation cons_edit :: "'a kio_scheme \<Rightarrow> uint8 list" where
  "cons_edit s \<equiv> ring_queue INPUT_BUF_SIZE (cons_buf s) (cons_w s) (cons_e s)"

definition cons_inv :: "'a kio_scheme \<Rightarrow> bool" where
  "cons_inv s \<longleftrightarrow> length (cons_ready s) + length (cons_edit s) \<le> INPUT_BUF_SIZE \<and> 10 \<notin> set (cons_edit s)"

text \<open>The line editor: complete lines that can be read, and the line being typed.\<close>

definition line_edit :: "uint32 \<Rightarrow> uint8 list \<times> uint8 list \<Rightarrow> uint8 list \<times> uint8 list" where
  "line_edit c = (\<lambda>(rd, ed).
     if c = ctrl CHR ''P'' then (rd, ed)
     else if c = ctrl CHR ''U'' then (rd, [])
     else if c = ctrl CHR ''H'' \<or> c = 0x7f then (rd, butlast ed)
     else if c \<noteq> 0 \<and> length rd + length ed < INPUT_BUF_SIZE then
       let c = (if c = 13 then 10 else c); ed = ed @ [ucast c] in
       if c = 10 \<or> c = ctrl CHR ''D'' \<or> length rd + length ed = INPUT_BUF_SIZE then (rd @ ed, []) else (rd, ed)
     else (rd, ed))"

lemma cons_size: "INPUT_BUF_SIZE dvd 2 ^ LENGTH(32)" "INPUT_BUF_SIZE < 2 ^ LENGTH(32)"
  by (simp_all add: INPUT_BUF_SIZE_def dvd_def)

lemma cons_length:
  assumes "cons_inv s"
  shows "unat (cons_e s - cons_r s) = length (cons_ready s) + length (cons_edit s)"
  using ring_append(2) [of "cons_w s" "cons_r s" "cons_e s"] assms by (simp add: cons_inv_def INPUT_BUF_SIZE_def)

lemma mframe_cons:
  assumes "ioframe s s'" shows "cons_ready s' = cons_ready s" "cons_edit s' = cons_edit s" "cons_inv s' \<longleftrightarrow> cons_inv s"
  by (simp_all add: ioframe_kio [OF assms] cons_inv_def)


text \<open>Typing a character, committing the line, and erasing its last character.\<close>

lemma cons_type:
  assumes "cons_inv s" "length (cons_ready s) + length (cons_edit s) < INPUT_BUF_SIZE"
    and s': "s' = s\<lparr>cons_buf := (cons_buf s)(unat (cons_e s) mod INPUT_BUF_SIZE := c), cons_e := cons_e s + 1\<rparr>"
  shows "cons_ready s' = cons_ready s" "cons_edit s' = cons_edit s @ [c]"
proof -
  let ?f = "(cons_buf s)(unat (cons_e s) mod INPUT_BUF_SIZE := c)"
  have l: "unat (cons_e s - cons_r s) < INPUT_BUF_SIZE" "unat (cons_e s - cons_w s) < INPUT_BUF_SIZE"
    using assms(2) cons_length [OF assms(1)] by simp_all
  have n: "unat (cons_w s - cons_r s) + unat (cons_e s + 1 - cons_w s) < 2 ^ LENGTH(32)"
    using ring_put(2) [OF cons_size l(2)] assms(2) by (simp add: INPUT_BUF_SIZE_def)
  have o: "unat (cons_w s - cons_r s) + unat (cons_e s - cons_w s) < 2 ^ LENGTH(32)"
    using assms(2) by (simp add: INPUT_BUF_SIZE_def)
  show e: "cons_edit s' = cons_edit s @ [c]" using ring_put(1) [OF cons_size l(2)] by (simp add: s')
  have "cons_ready s' @ cons_edit s' = ring_queue INPUT_BUF_SIZE ?f (cons_r s) (cons_e s + 1)"
    using ring_append(1) [OF n cons_size(1), of ?f] by (simp add: s')
  also have "\<dots> = ring_queue INPUT_BUF_SIZE (cons_buf s) (cons_r s) (cons_e s) @ [c]" by (rule ring_put(1) [OF cons_size l(1)])
  also have "\<dots> = cons_ready s @ cons_edit s @ [c]" using ring_append(1) [OF o cons_size(1)] by simp
  finally show "cons_ready s' = cons_ready s" unfolding e by simp
qed

lemma cons_commit:
  assumes "cons_inv s" "s' = s\<lparr>cons_w := cons_e s\<rparr>"
  shows "cons_ready s' = cons_ready s @ cons_edit s" "cons_edit s' = []"
proof -
  have "unat (cons_w s - cons_r s) + unat (cons_e s - cons_w s) < 2 ^ LENGTH(32)"
    using assms(1) by (simp add: cons_inv_def INPUT_BUF_SIZE_def)
  from ring_append(1) [OF this cons_size(1)] show "cons_ready s' = cons_ready s @ cons_edit s" by (simp add: assms(2))
qed (simp add: assms(2))

lemma cons_erase:
  assumes "cons_e s \<noteq> cons_w s"
  shows "cons_edit s = cons_edit (s\<lparr>cons_e := cons_e s - 1\<rparr>) @ [cons_buf s (unat (cons_e s - 1) mod INPUT_BUF_SIZE)]"
  using ring_drop_last(1) [OF cons_size(1), of "cons_w s" "cons_e s"] assms by simp

lemma cons_edit_nil: "cons_edit s = [] \<longleftrightarrow> cons_e s = cons_w s"
  using length_ring_queue [of INPUT_BUF_SIZE "cons_buf s" "cons_w s" "cons_e s"] by (auto simp: unsigned_eq_0_iff simp del: length_ring_queue)

lemma cons_butlast:
  assumes "cons_inv s" "cons_e s \<noteq> cons_w s" "consputc BACKSPACE (s\<lparr>cons_e := cons_e s - 1\<rparr>) = Inr s'"
  shows "cons_inv s'" "cons_ready s' = cons_ready s" "cons_edit s' = butlast (cons_edit s)"
proof -
  note f = mframe_cons [OF consputc_frame [OF assms(3)]]
  show "cons_ready s' = cons_ready s" "cons_edit s' = butlast (cons_edit s)"
    using f cons_erase [OF assms(2)] by simp_all
  then show "cons_inv s'" using assms(1) by (auto simp: cons_inv_def simp del: length_ring_queue dest: in_set_butlastD)
qed

lemma kill_line_clears:
  assumes "kill_line n s = Inr s'" "cons_inv s" "n = length (cons_edit s)"
  shows "cons_inv s' \<and> cons_ready s' = cons_ready s \<and> cons_edit s' = []"
  using assms
proof (induction n arbitrary: s)
  case 0
  then show ?case by (simp add: cons_edit_nil unsigned_eq_0_iff)
next
  case (Suc n)
  have ne: "cons_e s \<noteq> cons_w s" using Suc.prems(3) cons_edit_nil [of s] by (metis list.size(3) nat.distinct(1))
  have "cons_buf s (unat (cons_e s - 1) mod INPUT_BUF_SIZE) \<in> set (cons_edit s)"
    by (subst cons_erase [OF ne]) simp
  then have "cons_buf s (unat (cons_e s - 1) mod INPUT_BUF_SIZE) \<noteq> 10" using Suc.prems(2) by (auto simp: cons_inv_def)
  then obtain s1 where 1: "consputc BACKSPACE (s\<lparr>cons_e := cons_e s - 1\<rparr>) = Inr s1" "kill_line n s1 = Inr s'"
    using Suc.prems(1) by (auto simp: res_iff)
  note b = cons_butlast [OF Suc.prems(2) ne 1(1)]
  have "n = length (cons_edit s1)" unfolding b(3) length_butlast using Suc.prems(3) by simp
  from Suc.IH [OF 1(2) b(1) this] show ?case using b(2) by simp
qed

lemma console_char_edit:
  assumes "console_char c s = Inr s'" "cons_inv s" "unat c < 256"
    and "c \<noteq> ctrl CHR ''P''" "c \<noteq> ctrl CHR ''U''" "c \<noteq> ctrl CHR ''H''" "c \<noteq> 0x7f"
  shows "cons_inv s' \<and> (cons_ready s', cons_edit s') = line_edit c (cons_ready s, cons_edit s)"
proof (cases "c \<noteq> 0 \<and> unat (cons_e s - cons_r s) < INPUT_BUF_SIZE")
  case False
  then show ?thesis using assms cons_length [OF assms(2)] by (auto simp: console_char_def line_edit_def)
next
  case True
  define d where "d = (if c = 13 then 10 else c)"
  obtain s1 where 1: "consputc d s = Inr s1" using assms(1) True by (auto simp: console_char_def Let_def d_def res_iff split: if_splits)
  note f = mframe_cons [OF consputc_frame [OF 1]] ioframe_kio [OF consputc_frame [OF 1]]
  define s2 where "s2 = s1\<lparr>cons_buf := (cons_buf s1)(unat (cons_e s1) mod INPUT_BUF_SIZE := ucast d), cons_e := cons_e s1 + 1\<rparr>"
  have i1: "cons_inv s1" using f assms(2) by simp
  have room: "length (cons_ready s1) + length (cons_edit s1) < INPUT_BUF_SIZE" using True f cons_length [OF assms(2)] by simp
  note t = cons_type [OF i1 room s2_def]
  have "unat d < 256" using assms(3) by (simp add: d_def)
  then have ten: "(ucast d :: uint8) = 10 \<longleftrightarrow> d = 10" by (simp add: word_unat_eq_iff unsigned_ucast_eq take_bit_eq_mod)
  have fill: "cons_e s2 - cons_r s2 = word_of_nat INPUT_BUF_SIZE \<longleftrightarrow> length (cons_ready s) + length (cons_edit s @ [ucast d]) = INPUT_BUF_SIZE"
  proof -
    have "unat (cons_e s1 - cons_r s1) < INPUT_BUF_SIZE" using True f by simp
    from ring_put(2) [OF cons_size this] have "unat (cons_e s2 - cons_r s2) = Suc (length (cons_ready s) + length (cons_edit s))"
      using f cons_length [OF assms(2)] by (simp add: s2_def)
    moreover have "cons_e s2 - cons_r s2 = word_of_nat INPUT_BUF_SIZE \<longleftrightarrow> unat (cons_e s2 - cons_r s2) = INPUT_BUF_SIZE"
      by (simp add: word_unat_eq_iff INPUT_BUF_SIZE_def)
    ultimately show ?thesis by simp
  qed
  have bound: "length (cons_ready s2) + length (cons_edit s2) \<le> INPUT_BUF_SIZE" using room unfolding t by (simp del: length_ring_queue)
  show ?thesis
  proof (cases "d = 10 \<or> d = ctrl CHR ''D'' \<or> cons_e s2 - cons_r s2 = word_of_nat INPUT_BUF_SIZE")
    case False
    then have s': "s' = s2" using assms(1) True 1 by (auto simp: console_char_def Let_def d_def s2_def)
    have "cons_inv s2" using bound False i1 ten unfolding cons_inv_def t by (auto simp del: length_ring_queue)
    then show ?thesis using True False assms(4-7) cons_length [OF assms(2)] fill f(1,2) t
      by (simp add: s' line_edit_def Let_def d_def del: length_ring_queue split: if_splits)
  next
    case True': True
    then have w: "wakeup Ch_cons_r (s2\<lparr>cons_w := cons_e s2\<rparr>) = Inr s'"
      using assms(1) True 1 by (auto simp: console_char_def Let_def d_def s2_def)
    note g = mframe_cons [OF mframe_ioframe [OF wakeup_frame [OF w]]]
    have "unat (cons_w s2 - cons_r s2) + unat (cons_e s2 - cons_w s2) < 2 ^ LENGTH(32)" using bound by (simp add: INPUT_BUF_SIZE_def)
    from ring_append(1) [OF this cons_size(1), of "cons_buf s2"]
    have c: "cons_ready s' = cons_ready s @ cons_edit s @ [ucast d]" "cons_edit s' = []" using g f t by simp_all
    have "length (cons_ready s') \<le> INPUT_BUF_SIZE" using bound unfolding c t by (simp del: length_ring_queue add: f)
    then have "cons_inv s'" unfolding cons_inv_def c(2) by simp
    then show ?thesis using True True' assms(4-7) cons_length [OF assms(2)] fill c
      by (simp add: line_edit_def Let_def d_def del: length_ring_queue split: if_splits)
  qed
qed


text \<open>
  C24. The console's input is a line editor: with the invariant that the counters describe at most 128
  characters and that the line being typed holds no newline, \<^verbatim>\<open>consoleintr\<close> changes the pair of the
  complete lines waiting for \<^verbatim>\<open>consoleread\<close> and the line being typed exactly as the abstract editor does
  (control-U empties the line, backspace removes its last character, a newline, control-D or a full
  buffer hands the line over), and keeps the invariant.
\<close>

theorem consoleintr_refines_line_editor:
  assumes "consoleintr c s = Inr s'" "cons_inv s" "unat c < 256"
  shows "cons_inv s' \<and> (cons_ready s', cons_edit s') = line_edit c (cons_ready s, cons_edit s)"
proof -
  obtain s1 s2 where 1: "acquire L_cons s = Inr s1" "release L_cons s2 = Inr s'"
    and 2: "(if c = ctrl CHR ''P'' then procdump s1
            else if c = ctrl CHR ''U'' then kill_line (unat (cons_e s1 - cons_w s1)) s1
            else if c = ctrl CHR ''H'' \<or> c = 0x7f then
              (if cons_e s1 \<noteq> cons_w s1 then consputc BACKSPACE (s1\<lparr>cons_e := cons_e s1 - 1\<rparr>) else Inr s1)
            else console_char c s1) = Inr s2"
    using assms(1) by (auto simp: consoleintr_def res_iff)
  note a = mframe_cons [OF mframe_ioframe [OF acquire_frame [OF 1(1)]]]
  note r = mframe_cons [OF mframe_ioframe [OF release_frame [OF 1(2)]]]
  have i1: "cons_inv s1" using a(3) assms(2) by simp
  have "cons_inv s2 \<and> (cons_ready s2, cons_edit s2) = line_edit c (cons_ready s1, cons_edit s1)"
  proof -
    consider "c = ctrl CHR ''P''" | "c = ctrl CHR ''U''" | "c = ctrl CHR ''H'' \<or> c = 0x7f"
      | "c \<noteq> ctrl CHR ''P''" "c \<noteq> ctrl CHR ''U''" "c \<noteq> ctrl CHR ''H''" "c \<noteq> 0x7f" by blast
    then show ?thesis
    proof cases
      case 1
      then have "procdump s1 = Inr s2" using 2 by simp
      from mframe_cons [OF procdump_frame [OF this]] show ?thesis using 1 i1 by (simp add: line_edit_def)
    next
      case u: 2
      then have "kill_line (length (cons_edit s1)) s1 = Inr s2" using 2 by (simp add: ctrl_def)
      from kill_line_clears [OF this i1 refl] show ?thesis using u by (simp add: line_edit_def ctrl_def)
    next
      case b: 3
      then have e: "line_edit c (cons_ready s1, cons_edit s1) = (cons_ready s1, butlast (cons_edit s1))"
        by (auto simp: line_edit_def ctrl_def)
      show ?thesis
      proof (cases "cons_e s1 = cons_w s1")
        case True
        then have "s2 = s1" using 2 b by (auto simp: ctrl_def)
        then show ?thesis using e i1 True by simp
      next
        case False
        then have "consputc BACKSPACE (s1\<lparr>cons_e := cons_e s1 - 1\<rparr>) = Inr s2" using 2 b by (auto simp: ctrl_def)
        from cons_butlast [OF i1 False this] show ?thesis using e by simp
      qed
    next
      case o: 4
      then have "console_char c s1 = Inr s2" using 2 by simp
      from console_char_edit [OF this i1 assms(3) o] show ?thesis .
    qed
  qed
  then show ?thesis using a r by simp
qed

theorem consoleintr_refines_line_editor_witness:
  "\<exists>s'. consoleintr 0x15 quiet_io = Inr s' \<and> (cons_ready s', cons_edit s') = line_edit 0x15 ([], [])"
proof -
  obtain s' where s: "consoleintr 0x15 quiet_io = Inr s'"
    by (auto simp: consoleintr_def ctrl_def quiet_run Let_def)
  have "cons_inv quiet_io" "cons_ready quiet_io = []" "cons_edit quiet_io = []" by (simp_all add: quiet_io_def cons_inv_def)
  with consoleintr_refines_line_editor [OF s] s show ?thesis by auto
qed

end
