(* ===== verification/ListHead.thy ===== *)
theory ListHead
  imports Prelude
begin

text \<open>
  \<^verbatim>\<open>kernel/list.h\<close>: circular doubly-linked lists whose nodes are embedded in other
  structures. The heap maps the address of a node to its two pointers, so every
  operation is the source's sequence of pointer assignments, in its order, and nodes
  may alias. The abstraction \<open>is_list h head xs\<close> says that the nodes \<open>xs\<close>, in this order,
  form the circular list headed by \<open>head\<close>; each operation is related to the
  corresponding operation on \<open>xs\<close>.
\<close>

section \<open>Nodes and operations\<close>

record list_head =
  prev :: uint64
  "next" :: uint64

type_synonym list_heap = "uint64 \<Rightarrow> list_head"

abbreviation set_next :: "uint64 \<Rightarrow> uint64 \<Rightarrow> list_heap \<Rightarrow> list_heap" where
  "set_next p v h \<equiv> h(p := (h p)\<lparr>next := v\<rparr>)"

abbreviation set_prev :: "uint64 \<Rightarrow> uint64 \<Rightarrow> list_heap \<Rightarrow> list_heap" where
  "set_prev p v h \<equiv> h(p := (h p)\<lparr>prev := v\<rparr>)"

definition INIT_LIST_HEAD :: "uint64 \<Rightarrow> list_heap \<Rightarrow> list_heap" where
  "INIT_LIST_HEAD head h =
     (let h = set_next head head h in
      set_prev head head h)"

definition list_add :: "uint64 \<Rightarrow> uint64 \<Rightarrow> list_heap \<Rightarrow> list_heap" where
  "list_add node head h =
     (let nxt = next (h head);
          h = set_prev nxt node h;
          h = set_next node nxt h;
          h = set_prev node head h in
      set_next head node h)"

definition list_add_tail :: "uint64 \<Rightarrow> uint64 \<Rightarrow> list_heap \<Rightarrow> list_heap" where
  "list_add_tail node head h =
     (let prv = prev (h head);
          h = set_next prv node h;
          h = set_next node head h;
          h = set_prev node prv h in
      set_prev head node h)"

definition list_del :: "uint64 \<Rightarrow> list_heap \<Rightarrow> list_heap" where
  "list_del node h =
     (let nxt = next (h node);
          prv = prev (h node);
          h = set_prev nxt prv h in
      set_next prv nxt h)"

definition list_del_init :: "uint64 \<Rightarrow> list_heap \<Rightarrow> list_heap" where
  "list_del_init node h = INIT_LIST_HEAD node (list_del node h)"

definition list_empty :: "uint64 \<Rightarrow> list_heap \<Rightarrow> bool" where
  "list_empty head h \<longleftrightarrow> next (h head) = head"

definition list_is_singular :: "uint64 \<Rightarrow> list_heap \<Rightarrow> bool" where
  "list_is_singular head h \<longleftrightarrow> \<not> list_empty head h \<and> prev (h head) = next (h head)"

definition list_splice :: "uint64 \<Rightarrow> uint64 \<Rightarrow> list_heap \<Rightarrow> list_heap" where
  "list_splice list head h =
     (let head_first = next (h head);
          list_first = next (h list);
          list_last = prev (h list) in
      if list_empty list h then h
      else let h = set_next head list_first h;
               h = set_prev list_first head h;
               h = set_next list_last head_first h in
           set_prev head_first list_last h)"

definition list_splice_tail :: "uint64 \<Rightarrow> uint64 \<Rightarrow> list_heap \<Rightarrow> list_heap" where
  "list_splice_tail list head h =
     (let head_last = prev (h head);
          list_first = next (h list);
          list_last = prev (h list) in
      if list_empty list h then h
      else let h = set_prev head list_last h;
               h = set_next list_last head h;
               h = set_prev list_first head_last h in
           set_next head_last list_first h)"

definition list_splice_init :: "uint64 \<Rightarrow> uint64 \<Rightarrow> list_heap \<Rightarrow> list_heap" where
  "list_splice_init list head h = INIT_LIST_HEAD list (list_splice list head h)"

definition list_splice_tail_init :: "uint64 \<Rightarrow> uint64 \<Rightarrow> list_heap \<Rightarrow> list_heap" where
  "list_splice_tail_init list head h = INIT_LIST_HEAD list (list_splice_tail list head h)"

definition list_cut_position :: "uint64 \<Rightarrow> uint64 \<Rightarrow> uint64 \<Rightarrow> list_heap \<Rightarrow> list_heap" where
  "list_cut_position head_to head_from node h =
     (let head_from_first = next (h head_from) in
      if list_empty head_from h then h
      else if head_from = node then INIT_LIST_HEAD head_to h
      else let h = set_next head_from (next (h node)) h;
               h = set_prev (next (h head_from)) head_from h;
               h = set_prev head_to node h;
               h = set_next node head_to h;
               h = set_next head_to head_from_first h in
           set_prev (next (h head_to)) head_to h)"

definition list_move :: "uint64 \<Rightarrow> uint64 \<Rightarrow> list_heap \<Rightarrow> list_heap" where
  "list_move node head h = list_add node head (list_del node h)"

definition list_move_tail :: "uint64 \<Rightarrow> uint64 \<Rightarrow> list_heap \<Rightarrow> list_heap" where
  "list_move_tail node head h = list_add_tail node head (list_del node h)"

text \<open>
  \<^verbatim>\<open>container_of\<close> and the entry macros subtract the member's offset from the node address.
\<close>

definition container_of :: "uint64 \<Rightarrow> uint64 \<Rightarrow> uint64" where
  "container_of ptr off = ptr - off"

definition list_entry :: "uint64 \<Rightarrow> uint64 \<Rightarrow> uint64" where
  "list_entry node off = container_of node off"

definition list_first_entry :: "uint64 \<Rightarrow> uint64 \<Rightarrow> list_heap \<Rightarrow> uint64" where
  "list_first_entry head off h = list_entry (next (h head)) off"

definition list_last_entry :: "uint64 \<Rightarrow> uint64 \<Rightarrow> list_heap \<Rightarrow> uint64" where
  "list_last_entry head off h = list_entry (prev (h head)) off"

text \<open>
  The loop macros. The loop body is a parameter; a walk over a damaged list may not end,
  so the loops are partial functions with \<open>None\<close> for a loop that runs for ever.
  \<^verbatim>\<open>list_for_each_safe\<close> and the entry variant fetch the following node before the body
  runs.
\<close>

partial_function (option) for_each_from ::
  "(uint64 \<Rightarrow> 's \<Rightarrow> 's) \<Rightarrow> list_heap \<Rightarrow> uint64 \<Rightarrow> uint64 \<Rightarrow> 's \<Rightarrow> 's option" where
  "for_each_from body h head node s =
     (if node = head then Some s
      else for_each_from body h head (next (h node)) (body node s))"

definition list_for_each ::
  "(uint64 \<Rightarrow> 's \<Rightarrow> 's) \<Rightarrow> uint64 \<Rightarrow> list_heap \<Rightarrow> 's \<Rightarrow> 's option" where
  "list_for_each body head h s = for_each_from body h head (next (h head)) s"

partial_function (option) for_each_entry_from ::
  "(uint64 \<Rightarrow> 's \<Rightarrow> 's) \<Rightarrow> list_heap \<Rightarrow> uint64 \<Rightarrow> uint64 \<Rightarrow> uint64 \<Rightarrow> 's \<Rightarrow> 's option" where
  "for_each_entry_from body h head off entry s =
     (if entry + off = head then Some s
      else for_each_entry_from body h head off (list_entry (next (h (entry + off))) off)
             (body entry s))"

definition list_for_each_entry ::
  "(uint64 \<Rightarrow> 's \<Rightarrow> 's) \<Rightarrow> uint64 \<Rightarrow> uint64 \<Rightarrow> list_heap \<Rightarrow> 's \<Rightarrow> 's option" where
  "list_for_each_entry body head off h s =
     for_each_entry_from body h head off (list_entry (next (h head)) off) s"

partial_function (option) for_each_safe_from ::
  "(uint64 \<Rightarrow> list_heap \<Rightarrow> list_heap) \<Rightarrow> uint64 \<Rightarrow> uint64 \<Rightarrow> uint64 \<Rightarrow> list_heap \<Rightarrow>
     list_heap option" where
  "for_each_safe_from body head node safe h =
     (if node = head then Some h
      else let h = body node h in
           for_each_safe_from body head safe (next (h safe)) h)"

definition list_for_each_safe ::
  "(uint64 \<Rightarrow> list_heap \<Rightarrow> list_heap) \<Rightarrow> uint64 \<Rightarrow> list_heap \<Rightarrow> list_heap option" where
  "list_for_each_safe body head h =
     (let node = next (h head); safe = next (h node) in
      for_each_safe_from body head node safe h)"

partial_function (option) for_each_entry_safe_from ::
  "(uint64 \<Rightarrow> list_heap \<Rightarrow> list_heap) \<Rightarrow> uint64 \<Rightarrow> uint64 \<Rightarrow> uint64 \<Rightarrow> uint64 \<Rightarrow> list_heap \<Rightarrow>
     list_heap option" where
  "for_each_entry_safe_from body head off entry safe h =
     (if entry + off = head then Some h
      else let h = body entry h in
           for_each_entry_safe_from body head off safe
             (list_entry (next (h (safe + off))) off) h)"

definition list_for_each_entry_safe ::
  "(uint64 \<Rightarrow> list_heap \<Rightarrow> list_heap) \<Rightarrow> uint64 \<Rightarrow> uint64 \<Rightarrow> list_heap \<Rightarrow> list_heap option" where
  "list_for_each_entry_safe body head off h =
     (let entry = list_entry (next (h head)) off;
          safe = list_entry (next (h (entry + off))) off in
      for_each_entry_safe_from body head off entry safe h)"

section \<open>The list abstraction\<close>

text \<open>Each node of \<open>ps\<close> points forward to the next one, and that one points back.\<close>

fun linked :: "list_heap \<Rightarrow> uint64 list \<Rightarrow> bool" where
  "linked h [] = True"
| "linked h [p] = True"
| "linked h (p # q # ps) \<longleftrightarrow> next (h p) = q \<and> prev (h q) = p \<and> linked h (q # ps)"

definition is_list :: "list_heap \<Rightarrow> uint64 \<Rightarrow> uint64 list \<Rightarrow> bool" where
  "is_list h head xs \<longleftrightarrow> distinct (head # xs) \<and> linked h (head # xs @ [head])"

lemma linked_append:
  "linked h (ps @ q # qs) \<longleftrightarrow> linked h (ps @ [q]) \<and> linked h (q # qs)"
proof (induction ps)
  case (Cons p ps)
  then show ?case by (cases ps) simp_all
qed simp

lemma linked_split2:
  "linked h (ps @ p # q # qs) \<longleftrightarrow>
     linked h (ps @ [p]) \<and> next (h p) = q \<and> prev (h q) = p \<and> linked h (q # qs)"
  using linked_append [of h ps p "q # qs"] by simp

text \<open>
  What \<open>linked\<close> reads: the forward pointers of all nodes but the last, the backward
  pointers of all but the first.
\<close>

lemma linked_cong:
  "(\<And>p. p \<in> set (butlast ps) \<Longrightarrow> next (h p) = next (h' p)) \<Longrightarrow>
   (\<And>p. p \<in> set (tl ps) \<Longrightarrow> prev (h p) = prev (h' p)) \<Longrightarrow>
   linked h ps \<longleftrightarrow> linked h' ps"
proof (induction ps)
  case (Cons p ps)
  then show ?case by (cases ps) simp_all
qed simp

lemma linked_join:
  assumes "ps \<noteq> []" and "qs \<noteq> []"
  shows "linked h (ps @ qs) \<longleftrightarrow>
    linked h ps \<and> linked h qs \<and> next (h (last ps)) = hd qs \<and> prev (h (hd qs)) = last ps"
proof -
  obtain ps' p where ps: "ps = ps' @ [p]" using assms(1) by (cases ps rule: rev_cases) auto
  obtain q qs' where qs: "qs = q # qs'" using assms(2) by (cases qs) auto
  show ?thesis using linked_split2 [of h ps' p q qs'] by (auto simp: ps qs)
qed

text \<open>
  A change of the heap that leaves alone the forward pointers of all but the last node and
  the backward pointers of all but the first keeps the links.
\<close>

lemma linked_same:
  assumes "distinct ps"
    and n: "\<And>p. p \<in> set ps \<Longrightarrow> p \<noteq> last ps \<Longrightarrow> next (h' p) = next (h p)"
    and p: "\<And>p. p \<in> set ps \<Longrightarrow> p \<noteq> hd ps \<Longrightarrow> prev (h' p) = prev (h p)"
  shows "linked h' ps = linked h ps"
proof (rule linked_cong)
  fix q assume q: "q \<in> set (butlast ps)"
  then have "ps \<noteq> []" by auto
  with assms(1) have "last ps \<notin> set (butlast ps)"
    by (metis append_butlast_last_id distinct_butlast not_distinct_conv_prefix)
  with q show "next (h' q) = next (h q)" by (auto intro!: n dest: in_set_butlastD)
next
  fix q assume q: "q \<in> set (tl ps)"
  with assms(1) have "q \<noteq> hd ps" by (cases ps) auto
  with q show "prev (h' q) = prev (h q)" by (cases ps) (auto intro: p)
qed

lemma linked_Cons: "ps \<noteq> [] \<Longrightarrow> linked h (p # ps) \<longleftrightarrow>
    next (h p) = hd ps \<and> prev (h (hd ps)) = p \<and> linked h ps"
  using linked_join [of "[p]" ps h] by auto

lemma linked_snoc: "ps \<noteq> [] \<Longrightarrow> linked h (ps @ [p]) \<longleftrightarrow>
    next (h (last ps)) = p \<and> prev (h p) = last ps \<and> linked h ps"
  using linked_join [of ps "[p]" h] by auto

lemma is_list_alt:
  "is_list h head xs \<longleftrightarrow>
     distinct (head # xs) \<and> next (h head) = hd (xs @ [head]) \<and> prev (h head) = last (head # xs) \<and>
     (xs \<noteq> [] \<longrightarrow> prev (h (hd xs)) = head \<and> next (h (last xs)) = head \<and> linked h xs)"
proof (cases "xs = []")
  case False
  then have "linked h (head # xs @ [head]) \<longleftrightarrow>
      next (h head) = hd xs \<and> prev (h (hd xs)) = head \<and>
      linked h xs \<and> next (h (last xs)) = head \<and> prev (h head) = last xs"
    using linked_join [of "[head]" "xs @ [head]" h] linked_join [of xs "[head]" h] by auto
  with False show ?thesis by (auto simp: is_list_def)
qed (auto simp: is_list_def)

lemma is_list_distinct: "is_list h head xs \<Longrightarrow> distinct (head # xs)"
  by (simp add: is_list_def)

text \<open>Lists over other nodes do not notice a change.\<close>

lemma is_list_frame:
  assumes "\<And>p. p \<in> insert head (set xs) \<Longrightarrow> h' p = h p"
  shows "is_list h' head xs \<longleftrightarrow> is_list h head xs"
proof -
  have "linked h' (head # xs @ [head]) = linked h (head # xs @ [head])"
    by (rule linked_cong) (auto simp: assms dest: in_set_butlastD)
  then show ?thesis by (simp add: is_list_def)
qed

text \<open>The list as seen from another of its nodes.\<close>

lemma is_list_rotate:
  assumes "is_list h a (xs @ b # ys)" shows "is_list h b (ys @ a # xs)"
proof -
  have "linked h (a # xs @ b # ys @ [a]) \<longleftrightarrow> linked h (a # xs @ [b]) \<and> linked h (b # ys @ [a])"
    using linked_append [of h "a # xs" b "ys @ [a]"] by simp
  moreover have "linked h (b # ys @ a # xs @ [b]) \<longleftrightarrow> linked h (b # ys @ [a]) \<and> linked h (a # xs @ [b])"
    using linked_append [of h "b # ys" a "xs @ [b]"] by simp
  ultimately show ?thesis using assms by (auto simp: is_list_def)
qed

lemma is_list_unique:
  assumes "is_list h head xs" and "is_list h head ys" shows "xs = ys"
proof -
  have "linked h (p # xs @ [e]) \<Longrightarrow> linked h (p # ys @ [e]) \<Longrightarrow> e \<notin> set xs \<Longrightarrow> e \<notin> set ys \<Longrightarrow> xs = ys"
    for p e
  proof (induction xs arbitrary: p ys)
    case Nil
    then show ?case by (cases ys) auto
  next
    case (Cons x xs)
    then obtain ys' where "ys = x # ys'" by (cases ys) auto
    with Cons show ?case by auto
  qed
  with assms show ?thesis by (auto simp: is_list_def)
qed

section \<open>What the operations do to the list\<close>

lemma INIT_LIST_HEAD_is_list: "is_list (INIT_LIST_HEAD head h) head []"
  by (simp add: is_list_def INIT_LIST_HEAD_def)

lemma INIT_LIST_HEAD_other: "p \<noteq> head \<Longrightarrow> INIT_LIST_HEAD head h p = h p"
  by (simp add: INIT_LIST_HEAD_def)

lemma list_empty_iff: "is_list h head xs \<Longrightarrow> list_empty head h \<longleftrightarrow> xs = []"
  by (cases xs) (auto simp: is_list_alt list_empty_def)

lemma list_is_singular_iff:
  assumes "is_list h head xs" shows "list_is_singular head h \<longleftrightarrow> length xs = 1"
proof (cases xs)
  case (Cons x ys)
  with assms show ?thesis
    by (cases ys rule: rev_cases) (auto simp: list_is_singular_def list_empty_def is_list_alt)
qed (use assms in \<open>auto simp: list_is_singular_def list_empty_iff\<close>)

text \<open>
  Every operation changes a few nodes only: the collection \<open>pointers\<close> holds, for each
  operation, the two pointers of any node afterwards. With these tables the stretches
  between the changed nodes follow from \<open>linked_same\<close>.
\<close>

named_theorems pointers \<open>the two pointers of every node after an operation\<close>

lemma set_pointers:
  "next (set_next p v h q) = (if q = p then v else next (h q))"
  "prev (set_next p v h q) = prev (h q)"
  "next (set_prev p v h q) = next (h q)"
  "prev (set_prev p v h q) = (if q = p then v else prev (h q))"
  by simp_all

lemma list_add_pointers [pointers]:
  "next (list_add node head h p) =
     (if p = head then node else if p = node then next (h head) else next (h p))"
  "prev (list_add node head h p) =
     (if p = node then head else if p = next (h head) then node else prev (h p))"
  by (simp_all add: list_add_def Let_def)

lemma list_add_tail_pointers [pointers]:
  "next (list_add_tail node head h p) =
     (if p = node then head else if p = prev (h head) then node else next (h p))"
  "prev (list_add_tail node head h p) =
     (if p = head then node else if p = node then prev (h head) else prev (h p))"
  by (simp_all add: list_add_tail_def Let_def)

lemma list_del_pointers [pointers]:
  "next (list_del node h p) = (if p = prev (h node) then next (h node) else next (h p))"
  "prev (list_del node h p) = (if p = next (h node) then prev (h node) else prev (h p))"
  by (simp_all add: list_del_def Let_def)

lemma list_splice_pointers [pointers]:
  assumes "next (h list) \<noteq> list"
  shows
  "next (list_splice list head h p) =
     (if p = prev (h list) then next (h head) else if p = head then next (h list) else next (h p))"
  "prev (list_splice list head h p) =
     (if p = next (h head) then prev (h list) else if p = next (h list) then head else prev (h p))"
  using assms by (simp_all add: list_splice_def list_empty_def Let_def)

lemma list_splice_tail_pointers [pointers]:
  assumes "next (h list) \<noteq> list"
  shows
  "next (list_splice_tail list head h p) =
     (if p = prev (h head) then next (h list) else if p = prev (h list) then head else next (h p))"
  "prev (list_splice_tail list head h p) =
     (if p = next (h list) then prev (h head) else if p = head then prev (h list) else prev (h p))"
  using assms by (simp_all add: list_splice_tail_def list_empty_def Let_def)

lemma list_cut_position_pointers [pointers]:
  assumes "next (h from) \<noteq> from" and "from \<noteq> node"
  shows
  "next (list_cut_position to from node h p) =
     (if p = to then next (h from) else if p = node then to
      else if p = from then next (h node) else next (h p))"
  "prev (list_cut_position to from node h p) =
     (if p = next (h from) then to else if p = to then node
      else if p = next (h node) then from else prev (h p))"
  by (simp_all only: list_cut_position_def list_empty_def Let_def assms set_pointers if_True if_False
      refl simp_thms cong: if_cong)

lemma hd_last_in_set: "xs \<noteq> [] \<Longrightarrow> hd xs \<in> set xs \<and> last xs \<in> set xs"
  by simp

lemma list_add_is_list:
  assumes "is_list h head xs" and "node \<notin> insert head (set xs)"
  shows "is_list (list_add node head h) head (node # xs)"
proof -
  have "linked (list_add node head h) xs = linked h xs"
    using assms by (intro linked_same) (auto simp: is_list_alt pointers hd_append)
  then show ?thesis using assms hd_last_in_set [of xs]
    by (cases "xs = []") (auto simp: is_list_alt pointers linked_Cons hd_append)
qed

lemma list_add_tail_is_list:
  assumes "is_list h head xs" and "node \<notin> insert head (set xs)"
  shows "is_list (list_add_tail node head h) head (xs @ [node])"
proof -
  have "linked (list_add_tail node head h) xs = linked h xs"
    using assms by (intro linked_same) (auto simp: is_list_alt pointers)
  then show ?thesis using assms hd_last_in_set [of xs]
    by (cases "xs = []") (auto simp: is_list_alt pointers linked_snoc)
qed

text \<open>\<^verbatim>\<open>list_del\<close> takes the node out, seen first from the node itself.\<close>

lemma list_del_self:
  assumes "is_list h node (z # zs)"
  shows "is_list (list_del node h) z zs"
proof -
  have "linked (list_del node h) zs = linked h zs"
    using assms by (intro linked_same) (auto simp: is_list_alt pointers linked_Cons)
  then show ?thesis using assms hd_last_in_set [of zs]
    by (cases "zs = []") (auto simp: is_list_alt pointers linked_Cons)
qed

lemma list_del_is_list:
  assumes "is_list h head (xs @ node # ys)"
  shows "is_list (list_del node h) head (xs @ ys)"
proof -
  have r: "is_list h node (ys @ head # xs)" using assms by (rule is_list_rotate)
  show ?thesis
  proof (cases ys)
    case Nil
    with r list_del_self [of h node head xs] show ?thesis by simp
  next
    case (Cons y ys')
    with r list_del_self [of h node y "ys' @ head # xs"]
    have "is_list (list_del node h) y (ys' @ head # xs)" by simp
    from is_list_rotate [OF this] Cons show ?thesis by simp
  qed
qed

lemma is_list_ptrs:
  assumes "is_list h head xs"
  shows "next (h head) = hd (xs @ [head])" "prev (h head) = last (head # xs)"
    "xs \<noteq> [] \<Longrightarrow> prev (h (hd xs)) = head" "xs \<noteq> [] \<Longrightarrow> next (h (last xs)) = head"
    "linked h xs"
  using assms by (cases "xs = []"; simp add: is_list_alt)+

lemma list_splice_is_list:
  assumes "is_list h list ys" and "is_list h head xs"
    and "insert list (set ys) \<inter> insert head (set xs) = {}"
  shows "is_list (list_splice list head h) head (ys @ xs)"
proof (cases "ys = []")
  case True
  with assms show ?thesis by (simp add: list_splice_def list_empty_iff Let_def)
next
  case False
  note P = is_list_ptrs [OF assms(1)] is_list_ptrs [OF assms(2)] hd_append
  have D: "distinct (list # ys @ head # xs)"
    using assms is_list_distinct [OF assms(1)] is_list_distinct [OF assms(2)] by auto
  have ends: "hd ys \<notin> set xs" "last ys \<notin> set xs" "hd ys \<noteq> head" "last ys \<noteq> head" "hd ys \<noteq> list"
      "xs \<noteq> [] \<Longrightarrow> hd xs \<notin> set ys" "xs \<noteq> [] \<Longrightarrow> last xs \<notin> set ys" "xs \<noteq> [] \<Longrightarrow> hd xs \<noteq> head"
      "xs \<noteq> [] \<Longrightarrow> last xs \<noteq> head"
    using D hd_last_in_set [OF False] hd_last_in_set [of xs] by auto
  have e: "next (h list) \<noteq> list" using D ends False by (auto simp: P)
  have 1: "linked (list_splice list head h) ys"
    using D ends False P(5) by (subst linked_same [of _ _ h]) (auto simp: list_splice_pointers [where h = h, OF e] P)
  have 2: "linked (list_splice list head h) xs"
    using D ends False P(10) by (subst linked_same [of _ _ h]) (auto simp: list_splice_pointers [where h = h, OF e] P)
  show ?thesis using D ends False 1 2
    by (cases "xs = []") (auto simp: is_list_alt list_splice_pointers [where h = h, OF e] P linked_join)
qed

lemma list_splice_tail_is_list:
  assumes "is_list h list ys" and "is_list h head xs"
    and "insert list (set ys) \<inter> insert head (set xs) = {}"
  shows "is_list (list_splice_tail list head h) head (xs @ ys)"
proof (cases "ys = []")
  case True
  with assms show ?thesis by (simp add: list_splice_tail_def list_empty_iff Let_def)
next
  case False
  note P = is_list_ptrs [OF assms(1)] is_list_ptrs [OF assms(2)] hd_append
  have D: "distinct (list # ys @ head # xs)"
    using assms is_list_distinct [OF assms(1)] is_list_distinct [OF assms(2)] by auto
  have ends: "hd ys \<notin> set xs" "last ys \<notin> set xs" "hd ys \<noteq> head" "last ys \<noteq> head" "hd ys \<noteq> list"
      "xs \<noteq> [] \<Longrightarrow> hd xs \<notin> set ys" "xs \<noteq> [] \<Longrightarrow> last xs \<notin> set ys" "xs \<noteq> [] \<Longrightarrow> hd xs \<noteq> head"
      "xs \<noteq> [] \<Longrightarrow> last xs \<noteq> head"
    using D hd_last_in_set [OF False] hd_last_in_set [of xs] by auto
  have e: "next (h list) \<noteq> list" using D ends False by (auto simp: P)
  have 1: "linked (list_splice_tail list head h) ys"
    using D ends False P(5) by (subst linked_same [of _ _ h]) (auto simp: list_splice_tail_pointers [where h = h, OF e] P)
  have 2: "linked (list_splice_tail list head h) xs"
    using D ends False P(10) by (subst linked_same [of _ _ h]) (auto simp: list_splice_tail_pointers [where h = h, OF e] P)
  show ?thesis using D ends False 1 2
    by (cases "xs = []") (auto simp: is_list_alt list_splice_tail_pointers [where h = h, OF e] P linked_join)
qed

lemma ends_apart: "xs \<noteq> [] \<Longrightarrow> set xs \<inter> A = {} \<Longrightarrow> hd xs \<notin> A \<and> last xs \<notin> A"
  using hd_in_set last_in_set by blast

lemma list_cut_position_split:
  assumes l: "is_list h from (zs @ ys)" and z: "zs \<noteq> []" and t: "to \<notin> insert from (set (zs @ ys))"
  shows "is_list (list_cut_position to from (last zs) h) from ys \<and>
         is_list (list_cut_position to from (last zs) h) to zs"
proof -
  let ?h = "list_cut_position to from (last zs) h"
  have D: "distinct (to # from # zs @ ys)" using t is_list_distinct [OF l] by auto
  note P = is_list_ptrs [OF l]
  have J: "ys \<noteq> [] \<Longrightarrow> next (h (last zs)) = hd ys" "linked h zs" "linked h ys"
    using P(5) linked_join [OF z, of ys h] by (cases "ys = []"; simp)+
  have R: "next (h from) = hd zs" "next (h (last zs)) = hd (ys @ [from])"
    "ys \<noteq> [] \<Longrightarrow> next (h (last ys)) = from" "ys \<noteq> [] \<Longrightarrow> prev (h from) = last ys"
    using P J z by (cases "ys = []"; simp)+
  have ends: "from \<noteq> to" "ys \<noteq> [] \<Longrightarrow> hd ys \<noteq> hd zs" "ys \<noteq> [] \<Longrightarrow> last ys \<noteq> last zs" "hd zs \<noteq> from" "hd zs \<noteq> to" "last zs \<noteq> from" "last zs \<noteq> to" "hd zs \<notin> set ys" "last zs \<notin> set ys"
    "ys \<noteq> [] \<Longrightarrow> hd ys \<notin> set zs" "ys \<noteq> [] \<Longrightarrow> last ys \<notin> set zs"
    "ys \<noteq> [] \<Longrightarrow> hd ys \<noteq> from" "ys \<noteq> [] \<Longrightarrow> last ys \<noteq> from" "ys \<noteq> [] \<Longrightarrow> hd ys \<noteq> to" "ys \<noteq> [] \<Longrightarrow> last ys \<noteq> to"
    using D z hd_last_in_set [of ys] ends_apart [of zs "set ys"] hd_last_in_set [of zs]
      ends_apart [of ys "set zs", unfolded Int_commute [of "set ys"]] by auto
  have e: "next (h from) \<noteq> from" "from \<noteq> last zs" using ends by (auto simp: R)
  note Q = list_cut_position_pointers [where h = h, OF e] R
  have 1: "linked ?h zs"
    using D ends J(2) z by (subst linked_same [of _ _ h]) (auto simp: Q hd_append)
  have 2: "linked ?h ys"
    using D ends J(3) z by (subst linked_same [of _ _ h]) (auto simp: Q hd_append)
  have "is_list ?h from ys" using D ends 2 
    by (cases "ys = []") (simp_all add: is_list_alt Q)
  moreover have "is_list ?h to zs" using D ends 1 z by (simp add: is_list_alt Q)
  ultimately show ?thesis ..
qed

lemma list_cut_position_is_list:
  assumes "is_list h from (xs @ node # ys)" and "to \<notin> insert from (set (xs @ node # ys))"
  shows "is_list (list_cut_position to from node h) from ys \<and>
         is_list (list_cut_position to from node h) to (xs @ [node])"
  using list_cut_position_split [of h "from" "xs @ [node]" ys to] assms by simp

lemma list_del_other: "p \<notin> {next (h node), prev (h node)} \<Longrightarrow> list_del node h p = h p"
  by (simp add: list_del_def Let_def)

lemma list_add_other: "p \<notin> {node, head, next (h head)} \<Longrightarrow> list_add node head h p = h p"
  by (simp add: list_add_def Let_def)

lemma list_add_tail_other: "p \<notin> {node, head, prev (h head)} \<Longrightarrow> list_add_tail node head h p = h p"
  by (simp add: list_add_tail_def Let_def)

lemma list_del_neighbours:
  assumes "is_list h head (xs @ node # ys)"
  shows "next (h node) \<in> insert head (set (xs @ ys))" "prev (h node) \<in> insert head (set (xs @ ys))"
proof -
  have "is_list h node (ys @ head # xs)" using assms by (rule is_list_rotate)
  from is_list_ptrs(1,2) [OF this] 
  show "next (h node) \<in> insert head (set (xs @ ys))" "prev (h node) \<in> insert head (set (xs @ ys))"
    by (cases ys; cases xs rule: rev_cases; auto)+
qed

lemma list_del_frame:
  assumes "is_list h head (xs @ node # ys)" and "is_list h b zs"
    and "insert head (set (xs @ ys)) \<inter> insert b (set zs) = {}"
  shows "is_list (list_del node h) b zs"
proof -
  have "list_del node h p = h p" if "p \<in> insert b (set zs)" for p
    using that list_del_neighbours [OF assms(1)] assms(3) by (intro list_del_other) auto
  then show ?thesis using is_list_frame [of b zs "list_del node h" h] assms(2) by blast
qed

lemma list_add_frame:
  assumes "is_list h head xs" and "is_list h b zs"
    and "insert node (insert head (set xs)) \<inter> insert b (set zs) = {}"
  shows "is_list (list_add node head h) b zs"
proof -
  have "next (h head) \<in> insert head (set xs)"
    using is_list_ptrs(1) [OF assms(1)] by (cases xs) auto
  then have "list_add node head h p = h p" if "p \<in> insert b (set zs)" for p
    using that assms(3) by (intro list_add_other) auto
  then show ?thesis using is_list_frame [of b zs "list_add node head h" h] assms(2) by blast
qed

lemma list_add_tail_frame:
  assumes "is_list h head xs" and "is_list h b zs"
    and "insert node (insert head (set xs)) \<inter> insert b (set zs) = {}"
  shows "is_list (list_add_tail node head h) b zs"
proof -
  have "prev (h head) \<in> insert head (set xs)"
    using is_list_ptrs(2) [OF assms(1)] by (cases xs rule: rev_cases) auto
  then have "list_add_tail node head h p = h p" if "p \<in> insert b (set zs)" for p
    using that assms(3) by (intro list_add_tail_other) auto
  then show ?thesis using is_list_frame [of b zs "list_add_tail node head h" h] assms(2) by blast
qed

lemma list_del_init_is_list:
  assumes "is_list h head (xs @ node # ys)"
  shows "is_list (list_del_init node h) head (xs @ ys) \<and> is_list (list_del_init node h) node []"
proof -
  have "node \<notin> insert head (set (xs @ ys))" using is_list_distinct [OF assms] by auto
  then have "is_list (list_del_init node h) head (xs @ ys) = is_list (list_del node h) head (xs @ ys)"
    unfolding list_del_init_def by (intro is_list_frame INIT_LIST_HEAD_other) auto
  with list_del_is_list [OF assms] show ?thesis
    by (simp add: list_del_init_def INIT_LIST_HEAD_is_list)
qed

lemma list_splice_init_is_list:
  assumes "is_list h list ys" and "is_list h head xs"
    and "insert list (set ys) \<inter> insert head (set xs) = {}"
  shows "is_list (list_splice_init list head h) head (ys @ xs) \<and> is_list (list_splice_init list head h) list []"
proof -
  have "list \<notin> insert head (set (ys @ xs))" using is_list_distinct [OF assms(1)] assms(3) by auto
  then have "is_list (list_splice_init list head h) head (ys @ xs) = is_list (list_splice list head h) head (ys @ xs)"
    unfolding list_splice_init_def by (intro is_list_frame INIT_LIST_HEAD_other) auto
  with list_splice_is_list [OF assms] show ?thesis
    by (simp add: list_splice_init_def INIT_LIST_HEAD_is_list)
qed

lemma list_splice_tail_init_is_list:
  assumes "is_list h list ys" and "is_list h head xs"
    and "insert list (set ys) \<inter> insert head (set xs) = {}"
  shows "is_list (list_splice_tail_init list head h) head (xs @ ys) \<and>
         is_list (list_splice_tail_init list head h) list []"
proof -
  have "list \<notin> insert head (set (xs @ ys))" using is_list_distinct [OF assms(1)] assms(3) by auto
  then have "is_list (list_splice_tail_init list head h) head (xs @ ys) =
      is_list (list_splice_tail list head h) head (xs @ ys)"
    unfolding list_splice_tail_init_def by (intro is_list_frame INIT_LIST_HEAD_other) auto
  with list_splice_tail_is_list [OF assms] show ?thesis
    by (simp add: list_splice_tail_init_def INIT_LIST_HEAD_is_list)
qed

lemma list_move_is_list:
  assumes "is_list h head (xs @ node # ys)"
  shows "is_list (list_move node head h) head (node # xs @ ys)"
  unfolding list_move_def
  using list_add_is_list [OF list_del_is_list [OF assms]] is_list_distinct [OF assms] by auto

lemma list_move_tail_is_list:
  assumes "is_list h head (xs @ node # ys)"
  shows "is_list (list_move_tail node head h) head (xs @ ys @ [node])"
  unfolding list_move_tail_def
  using list_add_tail_is_list [OF list_del_is_list [OF assms], of node] is_list_distinct [OF assms] by auto

lemma list_move_between:
  assumes a: "is_list h a (xs @ node # ys)" and b: "is_list h b zs"
    and d: "insert a (set (xs @ node # ys)) \<inter> insert b (set zs) = {}"
  shows "is_list (list_move node b h) a (xs @ ys) \<and> is_list (list_move node b h) b (node # zs)"
proof -
  have a': "is_list (list_del node h) a (xs @ ys)" using a by (rule list_del_is_list)
  have b': "is_list (list_del node h) b zs" using list_del_frame [OF a b] d by auto
  have "is_list (list_move node b h) a (xs @ ys)"
    unfolding list_move_def
    using list_add_frame [OF b' a', of node] d is_list_distinct [OF a] by auto
  moreover have "is_list (list_move node b h) b (node # zs)"
    unfolding list_move_def using list_add_is_list [OF b', of node] d by auto
  ultimately show ?thesis ..
qed

lemma list_move_tail_between:
  assumes a: "is_list h a (xs @ node # ys)" and b: "is_list h b zs"
    and d: "insert a (set (xs @ node # ys)) \<inter> insert b (set zs) = {}"
  shows "is_list (list_move_tail node b h) a (xs @ ys) \<and> is_list (list_move_tail node b h) b (zs @ [node])"
proof -
  have a': "is_list (list_del node h) a (xs @ ys)" using a by (rule list_del_is_list)
  have b': "is_list (list_del node h) b zs" using list_del_frame [OF a b] d by auto
  have "is_list (list_move_tail node b h) a (xs @ ys)"
    unfolding list_move_tail_def
    using list_add_tail_frame [OF b' a', of node] d is_list_distinct [OF a] by auto
  moreover have "is_list (list_move_tail node b h) b (zs @ [node])"
    unfolding list_move_tail_def using list_add_tail_is_list [OF b', of node] d by auto
  ultimately show ?thesis ..
qed

section \<open>Entries and loops\<close>

lemma container_of_member: "container_of (a + off) off = a"
  by (simp add: container_of_def)

lemma list_first_last_entry:
  assumes "is_list h head xs" and "xs \<noteq> []"
  shows "list_first_entry head off h + off = hd xs \<and> list_last_entry head off h + off = last xs"
  using is_list_ptrs(1,2) [OF assms(1)] assms(2)
  by (simp add: list_first_entry_def list_last_entry_def list_entry_def container_of_def)

lemma for_each_from_linked:
  "linked h (p # xs @ [head]) \<Longrightarrow> head \<notin> set xs \<Longrightarrow>
     for_each_from body h head (next (h p)) s = Some (fold body xs s)"
proof (induction xs arbitrary: p s)
  case Nil
  then show ?case by (subst for_each_from.simps) simp
next
  case (Cons x xs)
  then show ?case by (subst for_each_from.simps) auto
qed

lemma list_for_each_fold:
  assumes "is_list h head xs"
  shows "list_for_each body head h s = Some (fold body xs s)"
  using assms for_each_from_linked [of h head xs head body s]
  by (simp add: list_for_each_def is_list_def)

lemma for_each_entry_from_linked:
  "linked h (p # xs @ [head]) \<Longrightarrow> head \<notin> set xs \<Longrightarrow>
     for_each_entry_from body h head off (next (h p) - off) s = Some (fold body (map (\<lambda>q. q - off) xs) s)"
proof (induction xs arbitrary: p s)
  case Nil
  then show ?case by (subst for_each_entry_from.simps) simp
next
  case (Cons x xs)
  then show ?case
    by (subst for_each_entry_from.simps) (auto simp: list_entry_def container_of_def)
qed

lemma list_for_each_entry_fold:
  assumes "is_list h head xs"
  shows "list_for_each_entry body head off h s = Some (fold body (map (\<lambda>q. q - off) xs) s)"
  using assms for_each_entry_from_linked [of h head xs head body off s]
  by (simp add: list_for_each_entry_def list_entry_def container_of_def is_list_def)

text \<open>
  The safe loop with a body that unlinks some of the nodes: exactly those are gone.
\<close>

lemma for_each_safe_from_del:
  assumes "is_list h head (ks @ node # xs)"
  shows "\<exists>h'. for_each_safe_from (\<lambda>n h. if P n then list_del n h else h) head node (next (h node)) h =
           Some h' \<and> is_list h' head (ks @ filter (\<lambda>n. \<not> P n) (node # xs))"
  using assms
proof (induction xs arbitrary: ks node h)
  case Nil
  let ?h = "if P node then list_del node h else h"
  have n: "node \<noteq> head" "next (h node) = head"
    using is_list_distinct [OF Nil] is_list_ptrs(4) [OF Nil] by auto
  have "is_list ?h head (ks @ filter (\<lambda>n. \<not> P n) [node])"
    using Nil list_del_is_list [of h head ks node "[]"] by simp
  with n show ?case
    by (simp add: for_each_safe_from.simps [of _ _ node] for_each_safe_from.simps [of _ _ head] Let_def)
next
  case (Cons x xs)
  let ?h = "if P node then list_del node h else h"
  let ?ks = "if P node then ks else ks @ [node]"
  have n: "node \<noteq> head" "next (h node) = x"
    using is_list_distinct [OF Cons.prems] is_list_ptrs(1) [OF is_list_rotate [OF Cons.prems]] by auto
  have l: "is_list ?h head (?ks @ x # xs)"
    using Cons.prems list_del_is_list [of h head ks node "x # xs"] by simp
  from Cons.IH [OF l] obtain h' where
    "for_each_safe_from (\<lambda>n h. if P n then list_del n h else h) head x (next (?h x)) ?h = Some h'"
    "is_list h' head (?ks @ filter (\<lambda>n. \<not> P n) (x # xs))" by blast
  then show ?case using n
    by (auto simp: for_each_safe_from.simps [of _ _ node] Let_def split: if_splits)
qed

lemma list_for_each_safe_filter:
  assumes "is_list h head xs"
  shows "\<exists>h'. list_for_each_safe (\<lambda>n h. if P n then list_del n h else h) head h = Some h' \<and>
           is_list h' head (filter (\<lambda>n. \<not> P n) xs)"
proof (cases xs)
  case Nil
  with assms show ?thesis
    by (simp add: list_for_each_safe_def for_each_safe_from.simps Let_def is_list_ptrs(1) [OF assms])
next
  case (Cons x ys)
  with assms for_each_safe_from_del [of h head "[]" x ys P] show ?thesis
    by (simp add: list_for_each_safe_def Let_def is_list_ptrs(1) [OF assms])
qed

text \<open>The entry loop is the node loop with the offset taken off every pointer.\<close>

lemma for_each_entry_safe_from_node:
  assumes "for_each_safe_from body head node safe h = Some r"
  shows "for_each_entry_safe_from (\<lambda>e. body (e + off)) head off (node - off) (safe - off) h = Some r"
proof (rule for_each_safe_from.raw_induct [where P = "\<lambda>b head node safe h r.
      for_each_entry_safe_from (\<lambda>e. b (e + off)) head off (node - off) (safe - off) h = Some r", OF _ assms])
  fix f b head node safe h r
  assume IH: "\<And>b head node safe h r. f b head node safe h = Some r \<Longrightarrow>
      for_each_entry_safe_from (\<lambda>e. b (e + off)) head off (node - off) (safe - off) h = Some r"
    and eq: "(if node = head then Some h else let h = b node h in f b head safe (next (h safe)) h) = Some r"
  show "for_each_entry_safe_from (\<lambda>e. b (e + off)) head off (node - off) (safe - off) h = Some r"
    using eq IH [of b head safe "next (b node h safe)" "b node h" r]
    by (subst for_each_entry_safe_from.simps)
      (auto simp: Let_def list_entry_def container_of_def split: if_splits)
qed

lemma list_for_each_entry_safe_filter:
  assumes "is_list h head xs"
  shows "\<exists>h'. list_for_each_entry_safe (\<lambda>e h. if P (e + off) then list_del (e + off) h else h) head off h =
           Some h' \<and> is_list h' head (filter (\<lambda>n. \<not> P n) xs)"
proof -
  obtain h' where "list_for_each_safe (\<lambda>n h. if P n then list_del n h else h) head h = Some h'"
    and l: "is_list h' head (filter (\<lambda>n. \<not> P n) xs)"
    using list_for_each_safe_filter [OF assms] by blast
  from for_each_entry_safe_from_node [OF this(1) [unfolded list_for_each_safe_def Let_def], of off] l
  show ?thesis
    by (auto simp: list_for_each_entry_safe_def list_entry_def container_of_def Let_def)
qed

section \<open>The doubly-linked list interface\<close>

text \<open>
  What clients of a circular list rely on: \<open>dl h head xs\<close> describes the list, and the three
  operations create an empty list, insert after the head and unlink. \<^verbatim>\<open>kernel/list.h\<close>
  provides it for \<open>list_head\<close> nodes; the buffer cache implements the same contract by hand
  on its buffers.
\<close>

locale dlist =
  fixes dl :: "'h \<Rightarrow> 'a \<Rightarrow> 'a list \<Rightarrow> bool"
    and init :: "'a \<Rightarrow> 'h \<Rightarrow> 'h"
    and add :: "'a \<Rightarrow> 'a \<Rightarrow> 'h \<Rightarrow> 'h"
    and del :: "'a \<Rightarrow> 'h \<Rightarrow> 'h"
  assumes dl_distinct: "dl h head xs \<Longrightarrow> distinct (head # xs)"
    and dl_init: "dl (init head h) head []"
    and dl_add: "dl h head xs \<Longrightarrow> node \<notin> insert head (set xs) \<Longrightarrow> dl (add node head h) head (node # xs)"
    and dl_del: "dl h head (xs @ node # ys) \<Longrightarrow> dl (del node h) head (xs @ ys)"
begin

text \<open>Inserting nodes one after another, as an initialisation loop does.\<close>

lemma dl_build:
  "dl h head xs \<Longrightarrow> distinct ns \<Longrightarrow> set ns \<inter> insert head (set xs) = {} \<Longrightarrow>
     dl (fold (\<lambda>n. add n head) ns h) head (rev ns @ xs)"
proof (induction ns arbitrary: h xs)
  case (Cons n ns)
  then have "dl (add n head h) head (n # xs)" by (intro dl_add) auto
  with Cons.prems Cons.IH [of "add n head h" "n # xs"] show ?case by simp
qed simp

text \<open>Unlinking a node and inserting it again at the front.\<close>

lemma dl_to_front:
  assumes "dl h head xs" and "node \<in> set xs"
  shows "dl (add node head (del node h)) head (node # remove1 node xs)"
proof -
  obtain ys zs where xs: "xs = ys @ node # zs" "node \<notin> set ys"
    using assms(2) by (meson split_list_first)
  then have "dl (del node h) head (ys @ zs)" using assms(1) dl_del by blast
  moreover have "node \<notin> insert head (set (ys @ zs))"
    using dl_distinct [OF assms(1)] xs by auto
  ultimately show ?thesis using dl_add xs by (simp add: remove1_append)
qed

text \<open>
  After any sequence of such moves the list holds the same nodes, the most recently moved
  first: a least-recently-used order.
\<close>

lemma dl_lru:
  assumes "dl h head xs" and "set ns \<subseteq> set xs"
  shows "dl (fold (\<lambda>n h. add n head (del n h)) ns h) head
           (fold (\<lambda>n l. n # remove1 n l) ns xs)"
  using assms
proof (induction ns arbitrary: h xs)
  case (Cons n ns)
  have "dl (add n head (del n h)) head (n # remove1 n xs)"
    using Cons.prems by (intro dl_to_front) auto
  moreover have "set ns \<subseteq> set (n # remove1 n xs)"
    using Cons.prems dl_distinct [OF Cons.prems(1)] by (auto simp: set_remove1_eq)
  ultimately show ?case using Cons.IH by simp
qed simp

end

interpretation lh: dlist is_list INIT_LIST_HEAD list_add list_del
  by unfold_locales
    (auto simp: INIT_LIST_HEAD_is_list intro: list_add_is_list list_del_is_list dest: is_list_distinct)

section \<open>The list module's promises\<close>

text \<open>A list of three nodes, for evaluating the properties.\<close>

definition demo_heap :: list_heap where
  "demo_heap = fold (\<lambda>n. list_add_tail n 16) [32, 48, 64]
     (INIT_LIST_HEAD 16 (INIT_LIST_HEAD 128 (\<lambda>_. \<lparr>prev = 0, next = 0\<rparr>)))"

lemma demo_heap_lists: "is_list demo_heap 16 [32, 48, 64]" "is_list demo_heap 128 []"
  by (simp_all add: demo_heap_def is_list_def list_add_tail_def INIT_LIST_HEAD_def Let_def)

text \<open>
  C9. \<^verbatim>\<open>list_cut_position\<close> moves the nodes up to and including \<open>node\<close> to the other head and
  leaves the rest; splicing them back with \<^verbatim>\<open>list_splice_init\<close> restores the original list
  and leaves the other head empty.
\<close>

theorem list_cut_splice_roundtrip:
  assumes "is_list h from (xs @ node # ys)" and "to \<notin> insert from (set (xs @ node # ys))"
  shows "let h' = list_cut_position to from node h; h'' = list_splice_init to from h' in
    is_list h' to (xs @ [node]) \<and> is_list h' from ys \<and>
    is_list h'' from (xs @ node # ys) \<and> is_list h'' to []"
proof -
  define h' where "h' = list_cut_position to from node h"
  have cut: "is_list h' to (xs @ [node])" "is_list h' from ys"
    unfolding h'_def using list_cut_position_is_list [OF assms] by simp_all
  have "insert to (set (xs @ [node])) \<inter> insert from (set ys) = {}"
    using assms(2) is_list_distinct [OF assms(1)] by auto
  from list_splice_init_is_list [OF cut this] cut show ?thesis
    unfolding h'_def [symmetric] Let_def by simp
qed

theorem list_cut_splice_roundtrip_witness:
  "is_list (list_cut_position 128 16 48 demo_heap) 128 [32, 48] \<and>
   is_list (list_splice_init 128 16 (list_cut_position 128 16 48 demo_heap)) 16 [32, 48, 64]"
  using list_cut_splice_roundtrip [of demo_heap 16 "[32]" 48 "[64]" 128] demo_heap_lists(1) by (simp add: Let_def)

text \<open>
  C12. \<^verbatim>\<open>list_for_each_entry_safe\<close> with a body that unlinks the entries satisfying \<open>P\<close>
  terminates on every well-formed list and leaves exactly the other nodes, in order, in a
  well-formed list.
\<close>

theorem list_for_each_entry_safe_removes:
  assumes "is_list h head xs"
  shows "\<exists>h'. list_for_each_entry_safe (\<lambda>e h. if P (e + off) then list_del (e + off) h else h) head off h =
           Some h' \<and> is_list h' head (filter (\<lambda>n. \<not> P n) xs)"
  by (rule list_for_each_entry_safe_filter [OF assms])

theorem list_for_each_entry_safe_removes_witness:
  "\<exists>h'. list_for_each_entry_safe (\<lambda>e h. if e + 8 = 48 then list_del (e + 8) h else h) 16 8 demo_heap = Some h' \<and>
     is_list h' 16 [32, 64]"
  using list_for_each_entry_safe_removes [OF demo_heap_lists(1), of "\<lambda>n. n = 48" 8] by simp

text \<open>
  C14. \<^verbatim>\<open>list_move\<close> and \<^verbatim>\<open>list_move_tail\<close> take a node out of any position of one list and put
  it first, or last, in another list, keeping both lists well formed.
\<close>

theorem list_move_between_lists:
  assumes "is_list h a (xs @ node # ys)" and "is_list h b zs"
    and "insert a (set (xs @ node # ys)) \<inter> insert b (set zs) = {}"
  shows "is_list (list_move node b h) a (xs @ ys) \<and> is_list (list_move node b h) b (node # zs) \<and>
    is_list (list_move_tail node b h) a (xs @ ys) \<and> is_list (list_move_tail node b h) b (zs @ [node])"
  using list_move_between [OF assms] list_move_tail_between [OF assms] by blast

theorem list_move_between_lists_witness:
  "is_list (list_move 48 128 demo_heap) 16 [32, 64] \<and> is_list (list_move 48 128 demo_heap) 128 [48]"
  using list_move_between_lists [of demo_heap 16 "[32]" 48 "[64]" 128 "[]"] demo_heap_lists by simp

text \<open>
  C11. A list built by an initialisation loop and then used by moving touched nodes to the
  front stays well formed, holds the same nodes, and is ordered by the last use.
\<close>

theorem list_build_lru:
  assumes "distinct ns" "head \<notin> set ns" "set ms \<subseteq> set ns"
  shows "is_list (fold (\<lambda>n h. list_add n head (list_del n h)) ms
      (fold (\<lambda>n. list_add n head) ns (INIT_LIST_HEAD head h))) head
    (fold (\<lambda>n l. n # remove1 n l) ms (rev ns))"
  using lh.dl_lru [OF lh.dl_build [OF lh.dl_init assms(1)], where ns = ms] assms(2,3) by simp

theorem list_build_lru_witness:
  "is_list (fold (\<lambda>n h. list_add n 16 (list_del n h)) [48, 32]
      (fold (\<lambda>n. list_add n 16) [32, 48, 64] (INIT_LIST_HEAD 16 demo_heap))) 16 [32, 48, 64]"
  using list_build_lru [of "[32, 48, 64]" 16 "[48, 32]" demo_heap] by simp

end
