(* ===== verification/Virtio.thy ===== *)
theory Virtio imports Console ListHead begin

text \<open>
  The disk driver \<^verbatim>\<open>kernel/virtio_disk.c\<close>. The queue that driver and device share is a record of its
  own: descriptors, the two rings, request headers, status bytes and block data, with the objects
  the device may access named instead of addressed. The device itself is a field of the state, a
  function on that record; what the driver relies on is the predicate \<open>serves\<close>. While a process
  waits for its request, the scheduler of its CPU runs, the device completes the request and the
  interrupt handler wakes the process.
\<close>

section \<open>The queue\<close>

definition BSIZE :: nat where "BSIZE = 1024"

definition NUM :: nat where "NUM = 8"

definition VRING_DESC_F_NEXT :: uint16 where "VRING_DESC_F_NEXT = 1"
definition VRING_DESC_F_WRITE :: uint16 where "VRING_DESC_F_WRITE = 2"
definition VIRTIO_BLK_T_IN :: uint32 where "VIRTIO_BLK_T_IN = 0"
definition VIRTIO_BLK_T_OUT :: uint32 where "VIRTIO_BLK_T_OUT = 1"

datatype dma = DMA_null | DMA_op nat | DMA_data uint64 | DMA_status nat

record virtq_desc =
  d_addr :: dma
  d_len :: uint32
  d_flags :: uint16
  d_next :: uint16

record virtio_blk_req =
  rq_type :: uint32
  rq_reserved :: uint32
  rq_sector :: uint64

text \<open>\<open>platter\<close> is the medium, \<open>seen\<close> the number of available-ring entries the device has taken.\<close>

record virtq =
  desc :: "nat \<Rightarrow> virtq_desc"
  avail_idx :: uint16
  avail_ring :: "nat \<Rightarrow> uint16"
  used_idx :: uint16
  used_ring :: "nat \<Rightarrow> uint32"
  ops :: "nat \<Rightarrow> virtio_blk_req"
  status :: "nat \<Rightarrow> uint8"
  bdata :: "uint64 \<Rightarrow> nat \<Rightarrow> uint8"
  platter :: "uint64 \<Rightarrow> uint8"
  seen :: uint16

definition zero_desc :: virtq_desc where
  "zero_desc = \<lparr>d_addr = DMA_null, d_len = 0, d_flags = 0, d_next = 0\<rparr>"

text \<open>A request's effect on the medium or the buffer.\<close>

definition transfer :: "bool \<Rightarrow> uint64 \<Rightarrow> uint64 \<Rightarrow> virtq \<Rightarrow> virtq" where
  "transfer write sector b v =
     (if write then v\<lparr>platter := (\<lambda>a. if unat (a - sector * 512) < BSIZE then bdata v b (unat (a - sector * 512)) else platter v a)\<rparr>
      else v\<lparr>bdata := (bdata v)(b := (\<lambda>k. if k < BSIZE then platter v (sector * 512 + word_of_nat k) else bdata v b k))\<rparr>)"

text \<open>
  What the driver relies on of the device: a request of three chained descriptors, for the header,
  the data and the status byte, that is the only one pending, is carried out, its status set to 0,
  its head put on the used ring.
\<close>

definition serves :: "(virtq \<Rightarrow> virtq) \<Rightarrow> bool" where
  "serves device \<longleftrightarrow> (\<forall>v h i j b fl.
     avail_idx v = seen v + 1 \<and> avail_ring v (unat (seen v) mod NUM) = h \<and>
     desc v (unat h) = \<lparr>d_addr = DMA_op (unat h), d_len = 16, d_flags = VRING_DESC_F_NEXT, d_next = i\<rparr> \<and>
     desc v (unat i) = \<lparr>d_addr = DMA_data b, d_len = word_of_nat BSIZE, d_flags = fl, d_next = j\<rparr> \<and>
     desc v (unat j) = \<lparr>d_addr = DMA_status (unat h), d_len = 1, d_flags = VRING_DESC_F_WRITE, d_next = 0\<rparr> \<and>
     (rq_type (ops v (unat h)) = VIRTIO_BLK_T_IN \<and> fl = VRING_DESC_F_WRITE OR VRING_DESC_F_NEXT \<or>
      rq_type (ops v (unat h)) = VIRTIO_BLK_T_OUT \<and> fl = VRING_DESC_F_NEXT) \<longrightarrow>
     device v = (transfer (rq_type (ops v (unat h)) = VIRTIO_BLK_T_OUT) (rq_sector (ops v (unat h))) b v)
       \<lparr>status := (status v)(unat h := 0), used_ring := (used_ring v)(unat (used_idx v) mod NUM := ucast h),
        used_idx := used_idx v + 1, seen := seen v + 1\<rparr>)"

section \<open>State\<close>

record buf =
  b_valid :: bool
  b_disk :: bool
  b_dev :: uint32
  b_blockno :: uint32
  b_refcnt :: uint32

text \<open>
  A \<^verbatim>\<open>struct buf\<close> pointer is a 64-bit value; \<^verbatim>\<open>&bcache.buf[i]\<close> is \<open>i\<close> and \<^verbatim>\<open>&bcache.head\<close> is
  \<^verbatim>\<open>NBUF\<close>. The list links are kept in a heap of their own, as for \<^verbatim>\<open>list.h\<close>. \<open>mmio_read\<close> gives the
  value of a device register after the register writes made so far.
\<close>

record vdisk = kio +
  vq :: virtq
  device :: "virtq \<Rightarrow> virtq"
  desc_free :: "nat \<Rightarrow> bool"
  drv_used_idx :: uint16
  info_b :: "nat \<Rightarrow> uint64 option"
  bufs :: "uint64 \<Rightarrow> buf"
  blist :: list_heap
  vq_pages :: "uint64 list"
  mmio_writes :: "(uint64 \<times> uint32) list"
  mmio_read :: "(uint64 \<times> uint32) list \<Rightarrow> uint64 \<Rightarrow> uint32"

definition upd_buf :: "uint64 \<Rightarrow> (buf \<Rightarrow> buf) \<Rightarrow> 'a vdisk_scheme \<Rightarrow> 'a vdisk_scheme" where
  "upd_buf b f s = s\<lparr>bufs := (bufs s)(b := f (bufs s b))\<rparr>"

definition mmio_get :: "uint64 \<Rightarrow> 'a vdisk_scheme \<Rightarrow> uint32" where
  "mmio_get r s = mmio_read s (mmio_writes s) (VIRTIO0 + r)"

definition mmio_put :: "uint64 \<Rightarrow> uint32 \<Rightarrow> 'a vdisk_scheme \<Rightarrow> 'a vdisk_scheme" where
  "mmio_put r v s = s\<lparr>mmio_writes := mmio_writes s @ [(VIRTIO0 + r, v)]\<rparr>"

section \<open>Initialisation\<close>

definition negotiated :: "uint32 \<Rightarrow> uint32" where
  "negotiated features = fold (\<lambda>bit f. f AND NOT (push_bit bit 1)) [5, 7, 11, 12, 27, 29, 28] features"

definition virtio_disk_init :: "'a vdisk_scheme \<Rightarrow> 'a vdisk_scheme res" where
  "virtio_disk_init s =
     (let s = initlock L_vdisk ''virtio_disk'' s in
      if mmio_get 0 s \<noteq> 0x74726976 \<or> mmio_get 4 s \<noteq> 2 \<or> mmio_get 8 s \<noteq> 2 \<or> mmio_get 0xc s \<noteq> 0x554d4551
      then Inl (Panic ''could not find virtio disk'')
      else let s = mmio_put 0x70 0 s; s = mmio_put 0x70 1 s; s = mmio_put 0x70 3 s;
               s = mmio_put 0x20 (negotiated (mmio_get 0x10 s)) s;
               s = mmio_put 0x70 0xb s;
               st = mmio_get 0x70 s in
        if st AND 8 = 0 then Inl (Panic ''virtio disk FEATURES_OK unset'')
        else let s = mmio_put 0x30 0 s in
          if mmio_get 0x44 s \<noteq> 0 then Inl (Panic ''virtio disk should not be ready'')
          else let mx = mmio_get 0x34 s in
            if mx = 0 then Inl (Panic ''virtio disk has no queue 0'')
            else if mx < word_of_nat NUM then Inl (Panic ''virtio disk max queue too short'')
            else bindE (kalloc s) (\<lambda>(d, s). bindE (kalloc s) (\<lambda>(a, s). bindE (kalloc s) (\<lambda>(u, s).
              if d = 0 \<or> a = 0 \<or> u = 0 then Inl (Panic ''virtio disk kalloc'')
              else let s = s\<lparr>mem := memset u 0 (ucast PGSIZE) (memset a 0 (ucast PGSIZE) (memset d 0 (ucast PGSIZE) (mem s))),
                         vq_pages := [d, a, u],
                         vq := (vq s)\<lparr>desc := (\<lambda>_. zero_desc), avail_idx := 0, avail_ring := (\<lambda>_. 0), used_idx := 0,
                           used_ring := (\<lambda>_. 0)\<rparr>\<rparr>;
                       s = mmio_put 0x38 (word_of_nat NUM) s;
                       s = mmio_put 0x80 (ucast d) s; s = mmio_put 0x84 (ucast (drop_bit 32 d)) s;
                       s = mmio_put 0x90 (ucast a) s; s = mmio_put 0x94 (ucast (drop_bit 32 a)) s;
                       s = mmio_put 0xa0 (ucast u) s; s = mmio_put 0xa4 (ucast (drop_bit 32 u)) s;
                       s = mmio_put 0x44 1 s;
                       s = s\<lparr>desc_free := (\<lambda>i. if i < NUM then True else desc_free s i)\<rparr> in
                   Inr (mmio_put 0x70 (st OR 4) s)))))"

section \<open>Descriptors\<close>

definition alloc_desc :: "'a vdisk_scheme \<Rightarrow> nat option \<times> 'a vdisk_scheme" where
  "alloc_desc s =
     (case first_from (desc_free s) 0 NUM of
        None \<Rightarrow> (None, s)
      | Some i \<Rightarrow> (Some i, s\<lparr>desc_free := (desc_free s)(i := False)\<rparr>))"

definition free_desc :: "nat \<Rightarrow> 'a vdisk_scheme \<Rightarrow> 'a vdisk_scheme res" where
  "free_desc i s =
     (if NUM \<le> i then Inl (Panic ''free_desc 1'')
      else if desc_free s i then Inl (Panic ''free_desc 2'')
      else let s = s\<lparr>vq := (vq s)\<lparr>desc := (desc (vq s))(i := zero_desc)\<rparr>, desc_free := (desc_free s)(i := True)\<rparr> in
           wakeup Ch_disk_free s)"

text \<open>A chain is freed until an entry without the next flag; a cycle ends in the second panic.\<close>

function free_chain_from :: "nat \<Rightarrow> nat \<Rightarrow> 'a vdisk_scheme \<Rightarrow> 'a vdisk_scheme res" where
  "free_chain_from k i s =
     (let flag = d_flags (desc (vq s) i); nxt = d_next (desc (vq s) i) in
      bindE (free_desc i s) (\<lambda>s.
      if flag AND VRING_DESC_F_NEXT \<noteq> 0 then (if k = 0 then Inl Spins else free_chain_from (k - 1) (unat nxt) s) else Inr s))"
  by pat_completeness auto
termination by (relation "measure (\<lambda>(k, _, _). k)") auto

declare free_chain_from.simps [simp del]

definition free_chain :: "nat \<Rightarrow> 'a vdisk_scheme \<Rightarrow> 'a vdisk_scheme res" where
  "free_chain i s = free_chain_from NUM i s"

fun alloc_more :: "nat \<Rightarrow> nat list \<Rightarrow> 'a vdisk_scheme \<Rightarrow> (nat list option \<times> 'a vdisk_scheme) res" where
  "alloc_more 0 idx s = Inr (Some idx, s)"
| "alloc_more (Suc n) idx s =
     (case alloc_desc s of
        (None, s) \<Rightarrow> bindE (forE free_desc idx s) (\<lambda>s. Inr (None, s))
      | (Some i, s) \<Rightarrow> alloc_more n (idx @ [i]) s)"

definition alloc3_desc :: "'a vdisk_scheme \<Rightarrow> (nat list option \<times> 'a vdisk_scheme) res" where
  "alloc3_desc s = alloc_more 3 [] s"

section \<open>Requests\<close>

text \<open>The loop of \<^verbatim>\<open>virtio_disk_intr\<close>, over the entries the device has added, at most \<open>2 ^ 16\<close>.\<close>

fun intr_entries :: "nat \<Rightarrow> 'a vdisk_scheme \<Rightarrow> 'a vdisk_scheme res" where
  "intr_entries n s =
     (if drv_used_idx s = used_idx (vq s) then Inr s
      else case n of 0 \<Rightarrow> Inl Spins
      | Suc n \<Rightarrow>
        let i = unat (used_ring (vq s) (unat (drv_used_idx s) mod NUM)) in
        if status (vq s) i \<noteq> 0 then Inl (Panic ''virtio_disk_intr status'')
        else case info_b s i of None \<Rightarrow> Inl Fault
        | Some b \<Rightarrow>
          bindE (wakeup (Ch_buf (unat b)) (upd_buf b (\<lambda>b. b\<lparr>b_disk := False\<rparr>) s)) (\<lambda>s.
          intr_entries n (s\<lparr>drv_used_idx := drv_used_idx s + 1\<rparr>)))"

declare intr_entries.simps [simp del]

definition virtio_disk_intr :: "'a vdisk_scheme \<Rightarrow> 'a vdisk_scheme res" where
  "virtio_disk_intr s =
     bindE (acquire L_vdisk s) (\<lambda>s.
     let s = mmio_put 0x64 (mmio_get 0x60 s AND 3) s in
     bindE (intr_entries (2 ^ 16) s) (release L_vdisk))"

text \<open>The driver's part of a request up to the notification.\<close>

definition disk_submit :: "uint64 \<Rightarrow> bool \<Rightarrow> nat \<Rightarrow> nat \<Rightarrow> nat \<Rightarrow> 'a vdisk_scheme \<Rightarrow> 'a vdisk_scheme" where
  "disk_submit b write i0 i1 i2 s =
     (let sector = ucast (b_blockno (bufs s b) * word_of_nat (BSIZE div 512));
          v = vq s;
          v = v\<lparr>ops := (ops v)(i0 := \<lparr>rq_type = if write then VIRTIO_BLK_T_OUT else VIRTIO_BLK_T_IN, rq_reserved = 0, rq_sector = sector\<rparr>)\<rparr>;
          v = v\<lparr>desc := (desc v)(i0 := \<lparr>d_addr = DMA_op i0, d_len = 16, d_flags = VRING_DESC_F_NEXT, d_next = word_of_nat i1\<rparr>)\<rparr>;
          v = v\<lparr>desc := (desc v)(i1 := \<lparr>d_addr = DMA_data b, d_len = word_of_nat BSIZE,
                  d_flags = (if write then 0 else VRING_DESC_F_WRITE) OR VRING_DESC_F_NEXT, d_next = word_of_nat i2\<rparr>)\<rparr>;
          v = v\<lparr>status := (status v)(i0 := 0xff)\<rparr>;
          v = v\<lparr>desc := (desc v)(i2 := \<lparr>d_addr = DMA_status i0, d_len = 1, d_flags = VRING_DESC_F_WRITE, d_next = 0\<rparr>)\<rparr>;
          s = upd_buf b (\<lambda>b. b\<lparr>b_disk := True\<rparr>) s;
          s = s\<lparr>info_b := (info_b s)(i0 := Some b)\<rparr>;
          v = v\<lparr>avail_ring := (avail_ring v)(unat (avail_idx v) mod NUM := word_of_nat i0)\<rparr>;
          v = v\<lparr>avail_idx := avail_idx v + 1\<rparr> in
      mmio_put 0x50 0 (s\<lparr>vq := v\<rparr>))"

text \<open>Asleep until the interrupt: the scheduler runs, the device serves, the handler wakes the process.\<close>

definition disk_sleep :: "uint64 \<Rightarrow> 'a vdisk_scheme \<Rightarrow> 'a vdisk_scheme res" where
  "disk_sleep b s =
     bindE (curproc s) (\<lambda>(p, s).
     bindE (sleep_out (Ch_buf (unat b)) L_vdisk s) (\<lambda>(i, s).
     bindE (scheduler_back p s) (\<lambda>s.
     bindE (virtio_disk_intr (s\<lparr>vq := device s (vq s)\<rparr>)) (\<lambda>s.
     bindE (scheduler_pick p s) (\<lambda>(ok, s).
     if ok then sleep_in p L_vdisk i s else Inl Sleeps)))))"

definition virtio_disk_rw :: "uint64 \<Rightarrow> bool \<Rightarrow> 'a vdisk_scheme \<Rightarrow> 'a vdisk_scheme res" where
  "virtio_disk_rw b write s =
     bindE (acquire L_vdisk s) (\<lambda>s.
     bindE (alloc3_desc s) (\<lambda>(idx, s).
     case idx of
       Some [i0, i1, i2] \<Rightarrow>
         bindE (disk_sleep b (disk_submit b write i0 i1 i2 s)) (\<lambda>s.
         if b_disk (bufs s b) then Inl Sleeps
         else bindE (free_chain i0 (s\<lparr>info_b := (info_b s)(i0 := None)\<rparr>)) (release L_vdisk))
     | _ \<Rightarrow> Inl Sleeps))"


section \<open>A process that sleeps and is woken\<close>

text \<open>The running process holds exactly the spin lock \<open>lk\<close>.\<close>

definition holds_one :: "nat \<Rightarrow> lock_id \<Rightarrow> (nat \<Rightarrow> bool) \<Rightarrow> (nat \<Rightarrow> cpu) \<Rightarrow> (lock_id \<Rightarrow> spinlock) \<Rightarrow> 'a machine_scheme \<Rightarrow> bool" where
  "holds_one p lk i c l s \<longleftrightarrow> sie s = i(hart s := False) \<and> cpus s = entered (hart s) i c \<and>
     locks s = l(lk := taken (hart s) (l lk)) \<and> running_cpu p (hart s) i c l \<and> noff (c (hart s)) = 0"

lemma acquire_holds:
  assumes "runs p s" "noff (cpus s (hart s)) = 0"
  shows "acquire lk s = Inr (s\<lparr>sie := (sie s)(hart s := False), cpus := entered (hart s) (sie s) (cpus s),
           locks := (locks s)(lk := taken (hart s) (locks s lk))\<rparr>)"
    and "holds_one p lk (sie s) (cpus s) (locks s) (s\<lparr>sie := (sie s)(hart s := False), cpus := entered (hart s) (sie s) (cpus s),
           locks := (locks s)(lk := taken (hart s) (locks s lk))\<rparr>)"
  using assms by (simp_all add: acquire_free runs_def holds_one_def)

lemma release_holds:
  assumes "holds_one p lk i c l s"
  shows "release lk s = Inr (s\<lparr>sie := i, cpus := c, locks := l\<rparr>)"
  using assms release_taken [of s lk "l lk" i c]
  by (simp add: holds_one_def runs_def calm_def fun_upd_upd)

lemma sched_out_eq:
  assumes "cpu_proc (cpus s (hart s)) = Some p" "cpu_ok s" "noff (cpus s (hart s)) = 1"
    "locks s (L_proc p) = taken (hart s) l0" "p_state (procs s p) \<noteq> RUNNING"
  shows "sched_out s = Inr (intena (cpus s (hart s)), s\<lparr>hregs := (hregs s)(hart s := cpu_context (cpus s (hart s))),
    procs := (procs s)(p := (procs s p)\<lparr>p_context := hregs s (hart s)\<rparr>)\<rparr>)"
  using assms by (simp add: sched_out_def curproc_def holding_def taken_def machine_defs swtch_def upd_proc_def Let_def section_defs)

lemma sleep_out_eq:
  assumes h: "holds_one p lk i c l s" and lk: "lk \<noteq> L_proc p"
  shows "sleep_out chan lk s = Inr (i (hart s),
    s\<lparr>locks := l(L_proc p := taken (hart s) (l (L_proc p))),
      hregs := (hregs s)(hart s := cpu_context (c (hart s))),
      procs := (procs s)(p := (procs s p)\<lparr>p_chan := Some chan, p_state := SLEEPING, p_context := hregs s (hart s)\<rparr>)\<rparr>)"
proof -
  let ?s = "s\<lparr>locks := l(L_proc p := taken (hart s) (l (L_proc p)), lk := l lk), sie := i(hart s := False), cpus := entered (hart s) i c,
    procs := (procs s)(p := (procs s p)\<lparr>p_chan := Some chan, p_state := SLEEPING\<rparr>)\<rparr>"
  note d = h [unfolded holds_one_def runs_def calm_def]
  have f: "l(L_proc p := taken (hart s) (l (L_proc p)), lk := l lk) = l(L_proc p := taken (hart s) (l (L_proc p)))"
    using lk by (auto simp: fun_eq_iff)
  have "sleep_out chan lk s = sched_out ?s"
    using d lk by (simp add: sleep_out_def curproc_def critical upd_proc_def)
  also have "\<dots> = Inr (i (hart s), ?s\<lparr>hregs := (hregs s)(hart s := cpu_context (c (hart s))),
      procs := (procs ?s)(p := (procs ?s p)\<lparr>p_context := hregs s (hart s)\<rparr>)\<rparr>)"
    using d lk by (subst sched_out_eq [where p = p and ?l0.0 = "l (L_proc p)"]) (auto simp: entered_def cpu_sane_def)
  also have "\<dots> = Inr (i (hart s), s\<lparr>locks := l(L_proc p := taken (hart s) (l (L_proc p))),
      hregs := (hregs s)(hart s := cpu_context (c (hart s))),
      procs := (procs s)(p := (procs s p)\<lparr>p_chan := Some chan, p_state := SLEEPING, p_context := hregs s (hart s)\<rparr>)\<rparr>)"
    using d unfolding f by (auto intro!: ksched.equality)
  finally show ?thesis .
qed

lemma scheduler_back_eq:
  assumes "sie s = i(hart s := False)" "cpus s = entered (hart s) i c" "locks s = l(L_proc p := taken (hart s) (l (L_proc p)))"
    "running_cpu p (hart s) i c l" "noff (c (hart s)) = 0"
  shows "scheduler_back p s = Inr (s\<lparr>sie := i, cpus := c(hart s := (c (hart s))\<lparr>cpu_proc := None\<rparr>), locks := l\<rparr>)"
proof -
  let ?c = "c(hart s := (c (hart s))\<lparr>cpu_proc := None\<rparr>)"
  note d = assms(4) [unfolded runs_def calm_def]
  have "(entered h i c)(h := (entered h i c h)\<lparr>cpu_proc := None\<rparr>) = entered h i (c(h := (c h)\<lparr>cpu_proc := None\<rparr>))" for h
    by (cases "c h") (simp add: entered_def)
  moreover have "cpu_sane h i (c(h := (c h)\<lparr>cpu_proc := None\<rparr>)) = cpu_sane h i c"
    "settled h i (c(h := (c h)\<lparr>cpu_proc := None\<rparr>)) = (settled h i c)(h := (settled h i c h)\<lparr>cpu_proc := None\<rparr>)" for h
    by (cases "c h"; simp add: section_defs)+
  ultimately show ?thesis
    using assms(1-3,5) d unfolding scheduler_back_def
    by (subst release_taken [where l = "l (L_proc p)" and i = i and c = ?c]) (auto simp: machine_defs fun_upd_upd intro!: machine.equality)
qed

lemma resume_eq:
  assumes "sie s = i" "cpus s = c(hart s := (c (hart s))\<lparr>cpu_proc := None\<rparr>)" "locks s = l" "running_cpu p (hart s) i c l"
    "noff (c (hart s)) = 0" "hregs s (hart s) = cpu_context (c (hart s))" "p_state (procs s p) = RUNNABLE"
  shows "bindE (scheduler_pick p s) (\<lambda>(ok, s'). if ok then sleep_in p lk (i (hart s)) s' else Inl Sleeps) =
    Inr (s\<lparr>sie := i(hart s := False), cpus := entered (hart s) i c, locks := l(lk := taken (hart s) (l lk)),
      hregs := (hregs s)(hart s := p_context (procs s p)),
      procs := (procs s)(p := (procs s p)\<lparr>p_state := RUNNING, p_chan := None\<rparr>)\<rparr>)"
proof -
  let ?h = "hart s" and ?pp = "(procs s p)\<lparr>p_state := RUNNING\<rparr>"
  note d = assms(4) [unfolded runs_def calm_def]
  let ?s1 = "s\<lparr>sie := i(?h := False), cpus := entered ?h i c, locks := l(L_proc p := taken ?h (l (L_proc p))),
     hregs := (hregs s)(?h := p_context (procs s p)), procs := (procs s)(p := ?pp)\<rparr>"
  have c: "(entered h i (c(h := (c h)\<lparr>cpu_proc := None\<rparr>)))(h := (entered h i (c(h := (c h)\<lparr>cpu_proc := None\<rparr>)) h)\<lparr>cpu_proc := Some p,
      cpu_context := cpu_context (c h)\<rparr>) = entered h i c" if "cpu_proc (c h) = Some p" for h
    using that by (cases "c h") (simp add: entered_def fun_eq_iff)
  have "scheduler_pick p s = Inr (True, ?s1)"
    using assms d c [of ?h]
    by (simp add: scheduler_pick_def acquire_free upd_proc_def machine_defs swtch_def Let_def)
  moreover have "sched_in (i ?h) ?s1 = ?s1"
    using assms(5) by (auto simp: sched_in_def machine_defs entered_def intro!: ksched.equality)
  ultimately show ?thesis
    using assms(4,5) d
    by (simp add: sleep_in_def upd_proc_def Let_def critical)
qed

section \<open>A disk request\<close>

lemma intr_entries_one:
  assumes "used_idx (vq s) = drv_used_idx s + 1" "used_ring (vq s) (unat (drv_used_idx s) mod NUM) = word_of_nat h" "h < NUM"
    "status (vq s) h = 0" "info_b s h = Some b" "calm s" "\<forall>i<NPROC. lock_free (L_proc i) s" "2 \<le> n"
  shows "intr_entries n s = Inr (s\<lparr>bufs := (bufs s)(b := (bufs s b)\<lparr>b_disk := False\<rparr>),
    procs := woken (Ch_buf (unat b)) (cpu_proc (cpus s (hart s))) [0..<NPROC] (procs s), drv_used_idx := drv_used_idx s + 1\<rparr>)"
proof -
  have "unat (word_of_nat h :: uint32) = h" using assms(3) by (simp add: unat_of_nat NUM_def)
  moreover obtain k where "n = Suc (Suc k)" using assms(8) by (metis One_nat_def Suc_le_D numeral_2_eq_2 Suc_le_mono)
  ultimately show ?thesis using assms by (simp add: intr_entries.simps Let_def wakeup_eq upd_buf_def)
qed

lemma virtio_disk_intr_one:
  assumes "used_idx (vq s) = drv_used_idx s + 1" "used_ring (vq s) (unat (drv_used_idx s) mod NUM) = word_of_nat h" "h < NUM"
    "status (vq s) h = 0" "info_b s h = Some b" "calm s" "\<forall>lk. lock_free lk s"
  shows "\<exists>w. virtio_disk_intr s = Inr (s\<lparr>mmio_writes := w, bufs := (bufs s)(b := (bufs s b)\<lparr>b_disk := False\<rparr>),
    procs := woken (Ch_buf (unat b)) (cpu_proc (cpus s (hart s))) [0..<NPROC] (procs s), drv_used_idx := drv_used_idx s + 1\<rparr>)"
proof -
  show ?thesis
    using assms by (simp add: virtio_disk_intr_def critical intr_entries_one mmio_put_def calm_def Let_def) (rule exI, rule refl)
qed

text \<open>Scheduling changes state, channel and saved context of processes, and the current process runs again.\<close>

definition unscheduled :: "proc \<Rightarrow> proc" where
  "unscheduled q = q\<lparr>p_state := UNUSED, p_chan := None, p_context := zero_context\<rparr>"

lemma unscheduled_simps [simp]:
  "unscheduled (q\<lparr>p_state := st\<rparr>) = unscheduled q" "unscheduled (q\<lparr>p_chan := ch\<rparr>) = unscheduled q"
  "unscheduled (q\<lparr>p_context := ctx\<rparr>) = unscheduled q"
  by (cases q; simp add: unscheduled_def)+

definition pframe :: "nat \<Rightarrow> (nat \<Rightarrow> proc) \<Rightarrow> (nat \<Rightarrow> proc) \<Rightarrow> bool" where
  "pframe p ps ps' \<longleftrightarrow> (\<forall>j. unscheduled (ps' j) = unscheduled (ps j)) \<and> p_state (ps' p) = p_state (ps p)"

lemma pframe_refl [simp]: "pframe p ps ps"
  by (simp add: pframe_def)

lemma pframe_trans: "pframe p a b \<Longrightarrow> pframe p b c \<Longrightarrow> pframe p a c"
  by (simp add: pframe_def)

lemma pframe_woken: "pframe p ps (woken chan (Some p) is ps)"
  by (simp add: pframe_def woken_def)

lemma unscheduledD:
  assumes "unscheduled q = unscheduled r"
  shows "p_pid q = p_pid r" "p_cwd q = p_cwd r" "p_ofile q = p_ofile r" "p_pagetable q = p_pagetable r" "p_killed q = p_killed r"
    "p_sz q = p_sz r" "p_trapframe q = p_trapframe r"
  using assms by (cases q; cases r; simp add: unscheduled_def)+

lemma pframeD:
  assumes "pframe p ps ps'"
  shows "p_pid (ps' j) = p_pid (ps j)" "p_cwd (ps' j) = p_cwd (ps j)" "p_ofile (ps' j) = p_ofile (ps j)"
    "p_pagetable (ps' j) = p_pagetable (ps j)" "p_killed (ps' j) = p_killed (ps j)" "p_state (ps' p) = p_state (ps p)"
    "p_sz (ps' j) = p_sz (ps j)" "p_trapframe (ps' j) = p_trapframe (ps j)"
  using assms unscheduledD [of "ps' j" "ps j"] by (auto simp: pframe_def)

lemma calm_no_proc: "calm_cpu h i c \<Longrightarrow> calm_cpu h i (c(h := (c h)\<lparr>cpu_proc := None\<rparr>))"
  by (cases "c h") (auto simp: calm_def section_defs fun_eq_iff split: if_splits)

lemma disk_sleep_eq:
  assumes h: "holds_one p L_vdisk i c l s" and p: "p < NPROC" "p_state (procs s p) = RUNNING"
    and v: "device s (vq s) = v'" "used_idx v' = drv_used_idx s + 1"
      "used_ring v' (unat (drv_used_idx s) mod NUM) = word_of_nat k" "k < NUM" "status v' k = 0" "info_b s k = Some b"
  shows "\<exists>w ps'. disk_sleep b s = Inr (s\<lparr>procs := ps', vq := v', drv_used_idx := drv_used_idx s + 1,
      bufs := (bufs s)(b := (bufs s b)\<lparr>b_disk := False\<rparr>), mmio_writes := w\<rparr>) \<and> pframe p (procs s) ps'"
proof -
  let ?h = "hart s"
  note d = h [unfolded holds_one_def]
  define s1 where "s1 = s\<lparr>locks := l(L_proc p := taken ?h (l (L_proc p))), hregs := (hregs s)(?h := cpu_context (c ?h)),
      procs := (procs s)(p := (procs s p)\<lparr>p_chan := Some (Ch_buf (unat b)), p_state := SLEEPING, p_context := hregs s ?h\<rparr>)\<rparr>"
  have 1: "sleep_out (Ch_buf (unat b)) L_vdisk s = Inr (i ?h, s1)"
    unfolding s1_def by (rule sleep_out_eq [OF h]) simp
  define s2 where "s2 = s1\<lparr>sie := i, cpus := c(?h := (c ?h)\<lparr>cpu_proc := None\<rparr>), locks := l\<rparr>"
  have 2: "scheduler_back p s1 = Inr s2"
    unfolding s2_def using d scheduler_back_eq [of s1 i c l p] by (simp add: s1_def)
  have calm2: "calm s2" using d calm_no_proc [of ?h i c] by (simp add: s2_def s1_def runs_def)
  define s3 where "s3 = s2\<lparr>vq := v'\<rparr>"
  have "\<exists>w. virtio_disk_intr s3 = Inr (s3\<lparr>mmio_writes := w, bufs := (bufs s3)(b := (bufs s3 b)\<lparr>b_disk := False\<rparr>),
    procs := woken (Ch_buf (unat b)) (cpu_proc (cpus s3 (hart s3))) [0..<NPROC] (procs s3), drv_used_idx := drv_used_idx s3 + 1\<rparr>)"
    using v calm2 d by (intro virtio_disk_intr_one) (simp_all add: s3_def s2_def s1_def runs_def)
  then obtain w where 3: "virtio_disk_intr s3 = Inr (s3\<lparr>mmio_writes := w, bufs := (bufs s3)(b := (bufs s3 b)\<lparr>b_disk := False\<rparr>),
    procs := woken (Ch_buf (unat b)) None [0..<NPROC] (procs s3), drv_used_idx := drv_used_idx s3 + 1\<rparr>)" (is "_ = Inr ?s4")
    by (auto simp: s3_def s2_def s1_def)
  have 4: "p_state (procs ?s4 p) = RUNNABLE" "p_context (procs ?s4 p) = hregs s ?h"
    using p(1) by (simp_all add: woken_def s3_def s2_def s1_def)
  have h4: "hart ?s4 = ?h" by (simp add: s3_def s2_def s1_def)
  have "bindE (scheduler_pick p ?s4) (\<lambda>(ok, s'). if ok then sleep_in p L_vdisk (i (hart ?s4)) s' else Inl Sleeps) =
    Inr (?s4\<lparr>sie := i(hart ?s4 := False), cpus := entered (hart ?s4) i c, locks := l(L_vdisk := taken (hart ?s4) (l L_vdisk)),
      hregs := (hregs ?s4)(hart ?s4 := p_context (procs ?s4 p)),
      procs := (procs ?s4)(p := (procs ?s4 p)\<lparr>p_state := RUNNING, p_chan := None\<rparr>)\<rparr>)"
    using d 4 by (intro resume_eq) (simp_all add: s3_def s2_def s1_def)
  then have 5: "bindE (scheduler_pick p ?s4) (\<lambda>(ok, s'). if ok then sleep_in p L_vdisk (i ?h) s' else Inl Sleeps) =
    Inr (?s4\<lparr>sie := i(?h := False), cpus := entered ?h i c, locks := l(L_vdisk := taken ?h (l L_vdisk)),
      hregs := (hregs ?s4)(?h := p_context (procs ?s4 p)),
      procs := (procs ?s4)(p := (procs ?s4 p)\<lparr>p_state := RUNNING, p_chan := None\<rparr>)\<rparr>)"
    unfolding h4 .
  have "curproc s = Inr (p, s)" using d by (simp add: curproc_def runs_def calm_def)
  moreover have "s2\<lparr>vq := device s2 (vq s2)\<rparr> = s3" by (simp add: s3_def s2_def s1_def v(1))
  ultimately have "disk_sleep b s = Inr (?s4\<lparr>sie := i(?h := False), cpus := entered ?h i c, locks := l(L_vdisk := taken ?h (l L_vdisk)),
      hregs := (hregs ?s4)(?h := p_context (procs ?s4 p)),
      procs := (procs ?s4)(p := (procs ?s4 p)\<lparr>p_state := RUNNING, p_chan := None\<rparr>)\<rparr>)"
    unfolding disk_sleep_def using 5 by (simp only: 1 2 3 bindE_simps prod.case)
  also have "\<dots> = Inr (s\<lparr>procs := (procs ?s4)(p := (procs ?s4 p)\<lparr>p_state := RUNNING, p_chan := None\<rparr>), vq := v',
      drv_used_idx := drv_used_idx s + 1, bufs := (bufs s)(b := (bufs s b)\<lparr>b_disk := False\<rparr>), mmio_writes := w\<rparr>)"
    using d 4 by (auto simp: s3_def s2_def s1_def intro!: vdisk.equality)
  finally have r: "disk_sleep b s = \<dots>" .
  have "pframe p (procs s) ((procs ?s4)(p := (procs ?s4 p)\<lparr>p_state := RUNNING, p_chan := None\<rparr>))"
    using p(2) by (auto simp: pframe_def woken_def s3_def s2_def s1_def)
  then show ?thesis using r by blast
qed


text \<open>The driver between requests: all descriptors are free and both rings are drained.\<close>

definition drv_idle :: "(nat \<Rightarrow> bool) \<Rightarrow> virtq \<Rightarrow> uint16 \<Rightarrow> bool" where
  "drv_idle f v u \<longleftrightarrow> (\<forall>i<NUM. f i) \<and> avail_idx v = seen v \<and> used_idx v = u"

lemma alloc3_desc_idle:
  assumes "\<forall>i<NUM. desc_free s i"
  shows "alloc3_desc s = Inr (Some [0, 1, 2], s\<lparr>desc_free := (desc_free s)(0 := False, 1 := False, 2 := False)\<rparr>)"
proof -
  have "desc_free s 0" "desc_free s (Suc 0)" "desc_free s (Suc (Suc 0))" using assms by (simp_all add: NUM_def)
  then show ?thesis
    by (simp add: alloc3_desc_def numeral_3_eq_3 alloc_desc_def first_from.simps NUM_def numeral_2_eq_2)
qed

lemma free_desc_eq:
  assumes "i < NUM" "\<not> desc_free s i" "calm s" "\<forall>i<NPROC. lock_free (L_proc i) s"
  shows "free_desc i s = Inr (s\<lparr>vq := (vq s)\<lparr>desc := (desc (vq s))(i := zero_desc)\<rparr>, desc_free := (desc_free s)(i := True),
    procs := woken Ch_disk_free (cpu_proc (cpus s (hart s))) [0..<NPROC] (procs s)\<rparr>)"
  using assms by (simp add: free_desc_def wakeup_eq)

lemma free_chain_3:
  assumes "calm s" "\<forall>i<NPROC. lock_free (L_proc i) s" "cpu_proc (cpus s (hart s)) = Some p"
    "\<not> desc_free s 0" "\<not> desc_free s 1" "\<not> desc_free s 2"
    "d_flags (desc (vq s) 0) = VRING_DESC_F_NEXT" "d_next (desc (vq s) 0) = 1"
    "d_flags (desc (vq s) 1) AND VRING_DESC_F_NEXT \<noteq> 0" "d_next (desc (vq s) 1) = 2"
    "d_flags (desc (vq s) 2) AND VRING_DESC_F_NEXT = 0"
  shows "\<exists>ps'. free_chain 0 s = Inr (s\<lparr>vq := (vq s)\<lparr>desc := (desc (vq s))(0 := zero_desc, 1 := zero_desc, 2 := zero_desc)\<rparr>,
    desc_free := (desc_free s)(0 := True, 1 := True, 2 := True), procs := ps'\<rparr>) \<and> pframe p (procs s) ps'"
proof -
  have n: "VRING_DESC_F_NEXT AND VRING_DESC_F_NEXT \<noteq> 0" "unat (1 :: uint16) = 1" "unat (2 :: uint16) = 2"
    by (simp_all add: VRING_DESC_F_NEXT_def NUM_def)
  let ?w = "woken Ch_disk_free (Some p) [0..<NPROC]"
  have "free_chain 0 s = Inr (s\<lparr>vq := (vq s)\<lparr>desc := (desc (vq s))(0 := zero_desc, 1 := zero_desc, 2 := zero_desc)\<rparr>,
    desc_free := (desc_free s)(0 := True, 1 := True, 2 := True), procs := ?w (?w (?w (procs s)))\<rparr>)"
    unfolding free_chain_def using assms n
    by (simp add: free_chain_from.simps [of 8] free_chain_from.simps [of 7] free_chain_from.simps [of 6] free_desc_eq NUM_def Let_def)
  then show ?thesis using pframe_woken pframe_trans by blast
qed

definition sector_of :: "uint32 \<Rightarrow> uint64" where
  "sector_of n = ucast (n * 2)"

lemma virtio_disk_rw_eq:
  assumes r: "runs p s" "noff (cpus s (hart s)) = 0" and p: "p < NPROC" "p_state (procs s p) = RUNNING"
    and idle: "drv_idle (desc_free s) (vq s) (drv_used_idx s)" and dev: "serves (device s)"
  shows "\<exists>ps' v' w. virtio_disk_rw b write s = Inr (s\<lparr>procs := ps', vq := v', drv_used_idx := drv_used_idx s + 1,
      info_b := (info_b s)(0 := None), bufs := (bufs s)(b := (bufs s b)\<lparr>b_disk := False\<rparr>), mmio_writes := w\<rparr>) \<and>
    pframe p (procs s) ps' \<and> drv_idle (desc_free s) v' (drv_used_idx s + 1) \<and>
    platter v' = platter (transfer write (sector_of (b_blockno (bufs s b))) b (vq s)) \<and>
    bdata v' = bdata (transfer write (sector_of (b_blockno (bufs s b))) b (vq s))"
proof -
  let ?h = "hart s" and ?sec = "sector_of (b_blockno (bufs s b))"
  define s1 where "s1 = s\<lparr>sie := (sie s)(?h := False), cpus := entered ?h (sie s) (cpus s),
           locks := (locks s)(L_vdisk := taken ?h (locks s L_vdisk))\<rparr>"
  have a: "acquire L_vdisk s = Inr s1" "holds_one p L_vdisk (sie s) (cpus s) (locks s) s1"
    using acquire_holds [OF r, of L_vdisk] unfolding s1_def by blast+
  define s2 where "s2 = disk_submit b write 0 1 2 (s1\<lparr>desc_free := (desc_free s)(0 := False, 1 := False, 2 := False)\<rparr>)"
  have al: "alloc3_desc s1 = Inr (Some [0, 1, 2], s1\<lparr>desc_free := (desc_free s)(0 := False, 1 := False, 2 := False)\<rparr>)"
    using alloc3_desc_idle [of s1] idle by (simp add: s1_def drv_idle_def)
  have h2: "holds_one p L_vdisk (sie s) (cpus s) (locks s) s2"
    using a(2) by (simp add: s2_def disk_submit_def holds_one_def mmio_put_def upd_buf_def Let_def)
  have s2: "procs s2 = procs s" "device s2 = device s" "drv_used_idx s2 = drv_used_idx s" "info_b s2 0 = Some b"
    by (simp_all add: s2_def disk_submit_def s1_def mmio_put_def upd_buf_def Let_def)
  have vq2: "avail_idx (vq s2) = seen (vq s2) + 1" "avail_ring (vq s2) (unat (seen (vq s2)) mod NUM) = 0"
    "desc (vq s2) 0 = \<lparr>d_addr = DMA_op 0, d_len = 16, d_flags = VRING_DESC_F_NEXT, d_next = 1\<rparr>"
    "desc (vq s2) 1 = \<lparr>d_addr = DMA_data b, d_len = word_of_nat BSIZE,
       d_flags = (if write then VRING_DESC_F_NEXT else VRING_DESC_F_WRITE OR VRING_DESC_F_NEXT), d_next = 2\<rparr>"
    "desc (vq s2) 2 = \<lparr>d_addr = DMA_status 0, d_len = 1, d_flags = VRING_DESC_F_WRITE, d_next = 0\<rparr>"
    "ops (vq s2) 0 = \<lparr>rq_type = if write then VIRTIO_BLK_T_OUT else VIRTIO_BLK_T_IN, rq_reserved = 0, rq_sector = ?sec\<rparr>"
    "used_idx (vq s2) = drv_used_idx s" "platter (vq s2) = platter (vq s)" "bdata (vq s2) = bdata (vq s)"
    using idle by (simp_all add: drv_idle_def s2_def disk_submit_def s1_def mmio_put_def upd_buf_def sector_of_def BSIZE_def Let_def)
  define v' where "v' = device s (vq s2)"
  have dv: "v' = (transfer write ?sec b (vq s2))\<lparr>status := (status (vq s2))(0 := 0),
      used_ring := (used_ring (vq s2))(unat (used_idx (vq s2)) mod NUM := 0), used_idx := used_idx (vq s2) + 1, seen := seen (vq s2) + 1\<rparr>"
    using dev [unfolded serves_def, rule_format, where v = "vq s2" and h = 0 and i = 1 and j = 2 and b = b and fl = "d_flags (desc (vq s2) 1)"]
    unfolding v'_def using vq2 by (simp add: VIRTIO_BLK_T_IN_def VIRTIO_BLK_T_OUT_def)
  have v1: "used_idx v' = drv_used_idx s + 1" "used_ring v' (unat (drv_used_idx s) mod NUM) = 0" "status v' 0 = 0" "avail_idx v' = seen v'"
    "desc v' = desc (vq s2)"
    using vq2(1,7) unfolding dv by (simp_all add: transfer_def)
  have "\<exists>w ps'. disk_sleep b s2 = Inr (s2\<lparr>procs := ps', vq := v', drv_used_idx := drv_used_idx s2 + 1,
      bufs := (bufs s2)(b := (bufs s2 b)\<lparr>b_disk := False\<rparr>), mmio_writes := w\<rparr>) \<and> pframe p (procs s2) ps'"
    using h2 p s2 v1 by (intro disk_sleep_eq [where k = 0]) (simp_all add: v'_def NUM_def)
  then obtain w ps1 where sl: "disk_sleep b s2 = Inr (s2\<lparr>procs := ps1, vq := v', drv_used_idx := drv_used_idx s2 + 1,
      bufs := (bufs s2)(b := (bufs s2 b)\<lparr>b_disk := False\<rparr>), mmio_writes := w\<rparr>)" (is "_ = Inr ?s3") "pframe p (procs s) ps1"
    unfolding s2(1) by blast
  let ?s4 = "?s3\<lparr>info_b := (info_b s2)(0 := None)\<rparr>"
  have h4: "holds_one p L_vdisk (sie s) (cpus s) (locks s) ?s4" using h2 by (simp add: holds_one_def)
  have f4: "desc_free s2 = (desc_free s)(0 := False, 1 := False, 2 := False)"
    by (simp add: s2_def disk_submit_def mmio_put_def upd_buf_def Let_def)
  have "\<exists>ps'. free_chain 0 ?s4 = Inr (?s4\<lparr>vq := (vq ?s4)\<lparr>desc := (desc (vq ?s4))(0 := zero_desc, 1 := zero_desc, 2 := zero_desc)\<rparr>,
    desc_free := (desc_free ?s4)(0 := True, 1 := True, 2 := True), procs := ps'\<rparr>) \<and> pframe p (procs ?s4) ps'"
    using h4 f4 v1(5) vq2 by (intro free_chain_3) (simp_all add: holds_one_def runs_def calm_def VRING_DESC_F_NEXT_def VRING_DESC_F_WRITE_def)
  then obtain ps2 where fc: "free_chain 0 ?s4 = Inr (?s4\<lparr>vq := (vq ?s4)\<lparr>desc := (desc (vq ?s4))(0 := zero_desc, 1 := zero_desc, 2 := zero_desc)\<rparr>,
    desc_free := (desc_free ?s4)(0 := True, 1 := True, 2 := True), procs := ps2\<rparr>)" (is "_ = Inr ?s5") "pframe p (procs ?s4) ps2" by blast
  have h5: "holds_one p L_vdisk (sie s) (cpus s) (locks s) ?s5" using h4 by (simp add: holds_one_def)
  have 1: "virtio_disk_rw b write s = Inr (?s5\<lparr>sie := sie s, cpus := cpus s, locks := locks s\<rparr>)"
    unfolding virtio_disk_rw_def using a(1) al sl(1) fc(1) release_holds [OF h5] s2_def [symmetric] by simp
  have f5: "(desc_free s)(0 := True, 1 := True, 2 := True) = desc_free s"
    using idle by (auto simp: drv_idle_def NUM_def fun_eq_iff)
  have 2: "?s5\<lparr>sie := sie s, cpus := cpus s, locks := locks s\<rparr> = s\<lparr>procs := ps2, vq := vq ?s5, drv_used_idx := drv_used_idx s + 1,
      info_b := (info_b s)(0 := None), bufs := (bufs s)(b := (bufs s b)\<lparr>b_disk := False\<rparr>), mmio_writes := w\<rparr>"
    using f5 by (simp add: s2_def disk_submit_def s1_def mmio_put_def upd_buf_def Let_def)
  have 3: "pframe p (procs s) ps2" using pframe_trans [OF sl(2)] fc(2) by simp
  have 4: "drv_idle (desc_free s) (vq ?s5) (drv_used_idx s + 1)" using v1 idle by (simp add: drv_idle_def)
  have 5: "platter (vq ?s5) = platter (transfer write ?sec b (vq s))" "bdata (vq ?s5) = bdata (transfer write ?sec b (vq s))"
    by (simp_all add: dv transfer_def vq2(8,9) cong: if_cong)
  show ?thesis by (rule exI [of _ ps2], rule exI [of _ "vq ?s5"], rule exI [of _ w]) (use 1 [unfolded 2] 3 4 5 in blast)
qed

end
