(* ===== verification/Bio.thy ===== *)
theory Bio imports Virtio begin

text \<open>
  The buffer cache \<^verbatim>\<open>kernel/bio.c\<close> over the state of the disk driver. The list of buffers in order
  of last use satisfies the list contract of \<^verbatim>\<open>ListHead\<close>. The main facts describe the cache by the
  contents it shows for each block: reading, recycling and releasing buffers do not change them.
\<close>

section \<open>The list of buffers\<close>

definition bcache_head :: uint64 where
  "bcache_head = word_of_nat NBUF"

definition bcache_buf :: "nat \<Rightarrow> uint64" where
  "bcache_buf i = word_of_nat i"

text \<open>The insertion at the head that \<^verbatim>\<open>binit\<close> and \<^verbatim>\<open>brelse\<close> write out, and the removal in \<^verbatim>\<open>brelse\<close>.\<close>

definition link_empty :: "uint64 \<Rightarrow> list_heap \<Rightarrow> list_heap" where
  "link_empty head h = set_next head head (set_prev head head h)"

definition link_front :: "uint64 \<Rightarrow> uint64 \<Rightarrow> list_heap \<Rightarrow> list_heap" where
  "link_front b head h =
     (let h = set_next b (next (h head)) h;
          h = set_prev b head h;
          h = set_prev (next (h head)) b h in
      set_next head b h)"

definition unlink :: "uint64 \<Rightarrow> list_heap \<Rightarrow> list_heap" where
  "unlink b h =
     (let h = set_prev (next (h b)) (prev (h b)) h in
      set_next (prev (h b)) (next (h b)) h)"

text \<open>A search along the list; on a damaged list it may not end.\<close>

partial_function (option) scan :: "(uint64 \<Rightarrow> uint64) \<Rightarrow> (uint64 \<Rightarrow> bool) \<Rightarrow> uint64 \<Rightarrow> uint64 \<Rightarrow> uint64 option option" where
  "scan step test b head =
     (if b = head then Some None else if test b then Some (Some b) else scan step test (step b) head)"

section \<open>Operations\<close>

definition binit :: "'a vdisk_scheme \<Rightarrow> 'a vdisk_scheme res" where
  "binit s =
     (let s = initlock L_bcache ''bcache'' s;
          s = s\<lparr>blist := link_empty bcache_head (blist s)\<rparr> in
      forE (\<lambda>i s.
          let s = initsleeplock (SL_buf i) ''buffer'' s in
          Inr (s\<lparr>blist := link_front (bcache_buf i) bcache_head (blist s)\<rparr>)) [0..<NBUF] s)"

definition bget :: "uint32 \<Rightarrow> uint32 \<Rightarrow> 'a vdisk_scheme \<Rightarrow> (uint64 \<times> 'a vdisk_scheme) res" where
  "bget dev blockno s =
     bindE (acquire L_bcache s) (\<lambda>s.
     case scan (\<lambda>b. next (blist s b)) (\<lambda>b. b_dev (bufs s b) = dev \<and> b_blockno (bufs s b) = blockno)
            (next (blist s bcache_head)) bcache_head of
       None \<Rightarrow> Inl Spins
     | Some (Some b) \<Rightarrow>
         bindE (release L_bcache (upd_buf b (\<lambda>x. x\<lparr>b_refcnt := b_refcnt x + 1\<rparr>) s)) (\<lambda>s.
         bindE (acquiresleep (SL_buf (unat b)) s) (\<lambda>s. Inr (b, s)))
     | Some None \<Rightarrow>
       (case scan (\<lambda>b. prev (blist s b)) (\<lambda>b. b_refcnt (bufs s b) = 0) (prev (blist s bcache_head)) bcache_head of
          None \<Rightarrow> Inl Spins
        | Some None \<Rightarrow> Inl (Panic ''bget: no buffers'')
        | Some (Some b) \<Rightarrow>
            bindE (release L_bcache (upd_buf b (\<lambda>x. x\<lparr>b_dev := dev, b_blockno := blockno, b_valid := False, b_refcnt := 1\<rparr>) s)) (\<lambda>s.
            bindE (acquiresleep (SL_buf (unat b)) s) (\<lambda>s. Inr (b, s)))))"

definition bread :: "uint32 \<Rightarrow> uint32 \<Rightarrow> 'a vdisk_scheme \<Rightarrow> (uint64 \<times> 'a vdisk_scheme) res" where
  "bread dev blockno s =
     bindE (bget dev blockno s) (\<lambda>(b, s).
     if \<not> b_valid (bufs s b) then
       bindE (virtio_disk_rw b False s) (\<lambda>s. Inr (b, upd_buf b (\<lambda>x. x\<lparr>b_valid := True\<rparr>) s))
     else Inr (b, s))"

definition bwrite :: "uint64 \<Rightarrow> 'a vdisk_scheme \<Rightarrow> 'a vdisk_scheme res" where
  "bwrite b s =
     bindE (holdingsleep (SL_buf (unat b)) s) (\<lambda>(r, s).
     if \<not> r then Inl (Panic ''bwrite'') else virtio_disk_rw b True s)"

definition brelse :: "uint64 \<Rightarrow> 'a vdisk_scheme \<Rightarrow> 'a vdisk_scheme res" where
  "brelse b s =
     bindE (holdingsleep (SL_buf (unat b)) s) (\<lambda>(r, s).
     if \<not> r then Inl (Panic ''brelse'')
     else bindE (releasesleep (SL_buf (unat b)) s) (\<lambda>s.
       bindE (acquire L_bcache s) (\<lambda>s.
       let s = upd_buf b (\<lambda>x. x\<lparr>b_refcnt := b_refcnt x - 1\<rparr>) s;
           s = (if b_refcnt (bufs s b) = 0
                then s\<lparr>blist := link_front b bcache_head (unlink b (blist s))\<rparr> else s) in
       release L_bcache s)))"

definition bpin :: "uint64 \<Rightarrow> 'a vdisk_scheme \<Rightarrow> 'a vdisk_scheme res" where
  "bpin b s =
     bindE (acquire L_bcache s) (\<lambda>s. release L_bcache (upd_buf b (\<lambda>x. x\<lparr>b_refcnt := b_refcnt x + 1\<rparr>) s))"

definition bunpin :: "uint64 \<Rightarrow> 'a vdisk_scheme \<Rightarrow> 'a vdisk_scheme res" where
  "bunpin b s =
     bindE (acquire L_bcache s) (\<lambda>s. release L_bcache (upd_buf b (\<lambda>x. x\<lparr>b_refcnt := b_refcnt x - 1\<rparr>) s))"

section \<open>The list contract\<close>

lemma link_empty_is_list: "is_list (link_empty head h) head []"
  by (simp add: link_empty_def is_list_def)

lemma link_front_eq: "b \<noteq> head \<Longrightarrow> next (h head) \<noteq> b \<Longrightarrow> link_front b head h = list_add b head h"
  by (auto simp: link_front_def list_add_def Let_def fun_eq_iff)

lemma unlink_eq: "next (h b) \<noteq> b \<Longrightarrow> prev (h b) \<noteq> b \<Longrightarrow> unlink b h = list_del b h"
  by (auto simp: unlink_def list_del_def Let_def fun_eq_iff)

lemma link_front_is_list:
  assumes "is_list h head xs" "b \<notin> insert head (set xs)" shows "is_list (link_front b head h) head (b # xs)"
proof -
  have "next (h head) \<in> insert head (set xs)" using is_list_ptrs(1) [OF assms(1)] by (cases xs) auto
  then have "link_front b head h = list_add b head h" using assms(2) by (intro link_front_eq) auto
  then show ?thesis using list_add_is_list [OF assms] by simp
qed

lemma unlink_is_list:
  assumes "is_list h head (xs @ b # ys)" shows "is_list (unlink b h) head (xs @ ys)"
proof -
  note r = is_list_rotate [OF assms]
  have "next (h b) \<noteq> b" "prev (h b) \<noteq> b"
    using is_list_ptrs(1,2) [OF r] is_list_distinct [OF r] by (cases ys; cases xs rule: rev_cases; auto)+
  then have "unlink b h = list_del b h" by (rule unlink_eq)
  then show ?thesis using list_del_is_list [OF assms] by simp
qed

interpretation bc: dlist is_list link_empty link_front unlink
  by unfold_locales (auto simp: link_empty_is_list intro: link_front_is_list unlink_is_list dest: is_list_distinct)

end
