(* ===== verification/Log.thy ===== *)
theory Log imports Bio begin

text \<open>
  The write-ahead log \<^verbatim>\<open>kernel/log.c\<close> over the buffer cache: the in-memory log, the header block on
  disk, commit, installation and recovery, and the bracketing of file system calls by \<^verbatim>\<open>begin_op\<close>
  and \<^verbatim>\<open>end_op\<close>. A call that has to wait ends in \<open>Inl Sleeps\<close>.
\<close>

unbundle bit_operations_syntax

section \<open>Block contents as C objects\<close>

type_synonym block = "nat \<Rightarrow> uint8"

definition get32 :: "block \<Rightarrow> nat \<Rightarrow> uint32" where
  "get32 f k = le_word (\<lambda>i. f (k + i)) 4"

definition put32 :: "nat \<Rightarrow> uint32 \<Rightarrow> block \<Rightarrow> block" where
  "put32 k v f = (\<lambda>i. if k \<le> i \<and> i < k + 4 then le_byte v (i - k) else f i)"

definition get16 :: "block \<Rightarrow> nat \<Rightarrow> uint16" where
  "get16 f k = le_word (\<lambda>i. f (k + i)) 2"

definition put16 :: "nat \<Rightarrow> uint16 \<Rightarrow> block \<Rightarrow> block" where
  "put16 k v f = (\<lambda>i. if k \<le> i \<and> i < k + 2 then le_byte v (i - k) else f i)"

definition data_of :: "uint64 \<Rightarrow> 'a vdisk_scheme \<Rightarrow> block" where
  "data_of b s = bdata (vq s) b"

definition upd_data :: "uint64 \<Rightarrow> (block \<Rightarrow> block) \<Rightarrow> 'a vdisk_scheme \<Rightarrow> 'a vdisk_scheme" where
  "upd_data b f s = s\<lparr>vq := (vq s)\<lparr>bdata := (bdata (vq s))(b := f (bdata (vq s) b))\<rparr>\<rparr>"

definition copy_data :: "uint64 \<Rightarrow> uint64 \<Rightarrow> 'a vdisk_scheme \<Rightarrow> 'a vdisk_scheme" where
  "copy_data dst src s = upd_data dst (\<lambda>f k. if k < BSIZE then data_of src s k else f k) s"

section \<open>State\<close>

record superblock =
  sb_magic :: uint32
  sb_size :: uint32
  sb_nblocks :: uint32
  sb_ninodes :: uint32
  sb_nlog :: uint32
  sb_logstart :: uint32
  sb_inodestart :: uint32
  sb_bmapstart :: uint32

text \<open>
  \<^verbatim>\<open>struct log\<close> with its \<^verbatim>\<open>struct logheader\<close>: \<open>lh_n\<close> and \<open>lh_block\<close>. Block and device numbers keep their
  32 bits; the counters are C ints.
\<close>

record klog = vdisk +
  log_start :: uint32
  log_size :: int
  outstanding :: int
  committing :: bool
  log_dev :: uint32
  lh_n :: int
  lh_block :: "nat \<Rightarrow> uint32"

definition sizeof_logheader :: nat where
  "sizeof_logheader = 4 + 4 * LOGSIZE"

definition log_block :: "nat \<Rightarrow> 'a klog_scheme \<Rightarrow> uint32" where
  "log_block tail s = log_start s + word_of_nat tail + 1"

section \<open>Header and installation\<close>

definition install_one :: "bool \<Rightarrow> nat \<Rightarrow> 'a klog_scheme \<Rightarrow> 'a klog_scheme res" where
  "install_one recovering tail s =
     bindE (bread (log_dev s) (log_block tail s) s) (\<lambda>(lbuf, s).
     bindE (bread (log_dev s) (lh_block s tail) s) (\<lambda>(dbuf, s).
     bindE (bwrite dbuf (copy_data dbuf lbuf s)) (\<lambda>s.
     bindE (if \<not> recovering then bunpin dbuf s else Inr s) (\<lambda>s.
     bindE (brelse lbuf s) (brelse dbuf)))))"

definition install_trans :: "bool \<Rightarrow> 'a klog_scheme \<Rightarrow> 'a klog_scheme res" where
  "install_trans recovering s = forE (install_one recovering) [0..<nat (lh_n s)] s"

text \<open>A header whose count exceeds \<^verbatim>\<open>LOGSIZE\<close> would make the copy run past the array.\<close>

definition read_head :: "'a klog_scheme \<Rightarrow> 'a klog_scheme res" where
  "read_head s =
     bindE (bread (log_dev s) (log_start s) s) (\<lambda>(buf, s).
     let lh = data_of buf s;
         s = s\<lparr>lh_n := sint (get32 lh 0)\<rparr> in
     if int LOGSIZE < lh_n s then Inl Fault
     else let s = s\<lparr>lh_block := (\<lambda>i. if i < nat (lh_n s) then get32 lh (4 + 4 * i) else lh_block s i)\<rparr> in
          brelse buf s)"

definition put_head :: "int \<Rightarrow> (nat \<Rightarrow> uint32) \<Rightarrow> block \<Rightarrow> block" where
  "put_head n bl f = fold (\<lambda>i. put32 (4 + 4 * i) (bl i)) [0..<nat n] (put32 0 (word_of_int n) f)"

definition write_head :: "'a klog_scheme \<Rightarrow> 'a klog_scheme res" where
  "write_head s =
     bindE (bread (log_dev s) (log_start s) s) (\<lambda>(buf, s).
     let s = upd_data buf (put_head (lh_n s) (lh_block s)) s in
     bindE (bwrite buf s) (brelse buf))"

definition recover_from_log :: "'a klog_scheme \<Rightarrow> 'a klog_scheme res" where
  "recover_from_log s =
     bindE (read_head s) (\<lambda>s.
     bindE (install_trans True s) (\<lambda>s.
     write_head (s\<lparr>lh_n := 0\<rparr>)))"

definition initlog :: "uint32 \<Rightarrow> superblock \<Rightarrow> 'a klog_scheme \<Rightarrow> 'a klog_scheme res" where
  "initlog dev sb s =
     (if BSIZE \<le> sizeof_logheader then Inl (Panic ''initlog: too big logheader'')
      else let s = initlock L_log ''log'' s in
           recover_from_log (s\<lparr>log_start := sb_logstart sb, log_size := sint (sb_nlog sb), log_dev := dev\<rparr>))"

section \<open>Transactions\<close>

definition begin_op :: "'a klog_scheme \<Rightarrow> 'a klog_scheme res" where
  "begin_op s =
     bindE (acquire L_log s) (\<lambda>s.
     if committing s then Inl Sleeps
     else if lh_n s + (outstanding s + 1) * int MAXOPBLOCKS > int LOGSIZE then Inl Sleeps
     else release L_log (s\<lparr>outstanding := outstanding s + 1\<rparr>))"

definition write_log_one :: "nat \<Rightarrow> 'a klog_scheme \<Rightarrow> 'a klog_scheme res" where
  "write_log_one tail s =
     bindE (bread (log_dev s) (log_block tail s) s) (\<lambda>(to, s).
     bindE (bread (log_dev s) (lh_block s tail) s) (\<lambda>(from, s).
     bindE (bwrite to (copy_data to from s)) (\<lambda>s.
     bindE (brelse from s) (brelse to))))"

definition write_log :: "'a klog_scheme \<Rightarrow> 'a klog_scheme res" where
  "write_log s = forE write_log_one [0..<nat (lh_n s)] s"

definition commit :: "'a klog_scheme \<Rightarrow> 'a klog_scheme res" where
  "commit s =
     (if 0 < lh_n s then
        bindE (write_log s) (\<lambda>s.
        bindE (write_head s) (\<lambda>s.
        bindE (install_trans False s) (\<lambda>s.
        write_head (s\<lparr>lh_n := 0\<rparr>))))
      else Inr s)"

definition end_op :: "'a klog_scheme \<Rightarrow> 'a klog_scheme res" where
  "end_op s =
     bindE (acquire L_log s) (\<lambda>s.
     let s = s\<lparr>outstanding := outstanding s - 1\<rparr> in
     if committing s then Inl (Panic ''log.committing'')
     else let do_commit = (outstanding s = 0) in
       bindE (if do_commit then Inr (s\<lparr>committing := True\<rparr>) else wakeup Ch_log s) (\<lambda>s.
       bindE (release L_log s) (\<lambda>s.
       if do_commit then
         bindE (commit s) (\<lambda>s.
         bindE (acquire L_log s) (\<lambda>s.
         bindE (wakeup Ch_log (s\<lparr>committing := False\<rparr>)) (release L_log)))
       else Inr s)))"

definition log_write :: "uint64 \<Rightarrow> 'a klog_scheme \<Rightarrow> 'a klog_scheme res" where
  "log_write b s =
     bindE (acquire L_log s) (\<lambda>s.
     if int LOGSIZE \<le> lh_n s \<or> log_size s - 1 \<le> lh_n s then Inl (Panic ''too big a transaction'')
     else if outstanding s < 1 then Inl (Panic ''log_write outside of trans'')
     else
       let i = (case first_from (\<lambda>i. lh_block s i = b_blockno (bufs s b)) 0 (nat (lh_n s)) of
                  Some i \<Rightarrow> i | None \<Rightarrow> nat (lh_n s));
           s = s\<lparr>lh_block := (lh_block s)(i := b_blockno (bufs s b))\<rparr> in
       bindE (if int i = lh_n s then bindE (bpin b s) (\<lambda>s. Inr (s\<lparr>lh_n := lh_n s + 1\<rparr>)) else Inr s) (\<lambda>s.
       release L_log s))"

section \<open>Reading what was written\<close>

lemma get16_put16: "get16 (put16 k v f) k = v"
  unfolding get16_def by (rule le_word_bytes) (auto simp: put16_def)

lemma get32_put32: "get32 (put32 k v f) k = v"
  unfolding get32_def by (rule le_word_bytes) (auto simp: put32_def)

lemma get16_cong: "(\<And>i. k \<le> i \<Longrightarrow> i < k + 2 \<Longrightarrow> f i = g i) \<Longrightarrow> get16 f k = get16 g k"
  unfolding get16_def by (rule le_word_cong) simp

lemma get32_cong: "(\<And>i. k \<le> i \<Longrightarrow> i < k + 4 \<Longrightarrow> f i = g i) \<Longrightarrow> get32 f k = get32 g k"
  unfolding get32_def by (rule le_word_cong) simp

lemma put32s_apply:
  "fold (\<lambda>i. put32 (b + 4 * i) (g i)) [0..<n] f x =
     (if b \<le> x \<and> x < b + 4 * n then le_byte (g ((x - b) div 4)) ((x - b) mod 4) else f x)"
proof (induction n)
  case (Suc n)
  have "(x - b) div 4 = n \<and> (x - b) mod 4 = x - (b + 4 * n)" if "b + 4 * n \<le> x" "x < b + 4 * n + 4" for x
  proof -
    have "x - b = x - (b + 4 * n) + n * 4" "x - (b + 4 * n) < 4" using that by simp_all
    then show ?thesis by (metis add.commute div_mult_self1_is_m div_less mod_less mod_mult_self1 add_0 div_mult_self3 zero_neq_numeral)
  qed
  then show ?case using Suc by (auto simp: put32_def)
qed auto

lemma get32_put32s: "j < n \<Longrightarrow> get32 (fold (\<lambda>i. put32 (b + 4 * i) (g i)) [0..<n] f) (b + 4 * j) = g j"
  unfolding get32_def by (rule le_word_bytes) (auto simp: put32s_apply)

end
