(* ===== verification/Fs.thy ===== *)
theory Fs imports Log begin

text \<open>
  The file system \<^verbatim>\<open>kernel/fs.c\<close>: block and inode allocation, the inode table, file contents,
  directories and path names, each operation over the log and the buffer cache. An inode pointer is
  an index into the inode table, \<open>None\<close> the null pointer. Local objects whose address is passed on
  live in memory at the current frame.
\<close>

unbundle bit_operations_syntax

section \<open>On-disk format (\<^verbatim>\<open>kernel/fs.h\<close>)\<close>

definition ROOTINO :: uint32 where "ROOTINO = 1"
definition FSMAGIC :: uint32 where "FSMAGIC = 0x10203040"
definition NDIRECT :: nat where "NDIRECT = 12"
definition NINDIRECT :: nat where "NINDIRECT = BSIZE div 4"
definition MAXFILE :: nat where "MAXFILE = NDIRECT + NINDIRECT"
definition DIRSIZ :: nat where "DIRSIZ = 14"
definition sizeof_dinode :: nat where "sizeof_dinode = 12 + 4 * (NDIRECT + 1)"
definition sizeof_dirent :: nat where "sizeof_dirent = 2 + DIRSIZ"
definition IPB :: nat where "IPB = BSIZE div sizeof_dinode"
definition BPB :: nat where "BPB = BSIZE * 8"

definition IBLOCK :: "uint32 \<Rightarrow> superblock \<Rightarrow> uint32" where
  "IBLOCK i sb = i div word_of_nat IPB + sb_inodestart sb"

definition BBLOCK :: "uint32 \<Rightarrow> superblock \<Rightarrow> uint32" where
  "BBLOCK b sb = b div word_of_nat BPB + sb_bmapstart sb"

definition T_DIR :: uint16 where "T_DIR = 1"
definition T_FILE :: uint16 where "T_FILE = 2"
definition T_DEVICE :: uint16 where "T_DEVICE = 3"

record dinode =
  di_type :: uint16
  di_major :: uint16
  di_minor :: uint16
  di_nlink :: uint16
  di_size :: uint32
  di_addrs :: "nat \<Rightarrow> uint32"

definition get_dinode :: "block \<Rightarrow> nat \<Rightarrow> dinode" where
  "get_dinode f k =
     \<lparr>di_type = get16 f k, di_major = get16 f (k + 2), di_minor = get16 f (k + 4), di_nlink = get16 f (k + 6),
      di_size = get32 f (k + 8), di_addrs = (\<lambda>i. get32 f (k + 12 + 4 * i))\<rparr>"

definition put_dinode :: "nat \<Rightarrow> dinode \<Rightarrow> block \<Rightarrow> block" where
  "put_dinode k d f =
     fold (\<lambda>i. put32 (k + 12 + 4 * i) (di_addrs d i)) [0..<NDIRECT + 1]
       (put32 (k + 8) (di_size d) (put16 (k + 6) (di_nlink d) (put16 (k + 4) (di_minor d)
         (put16 (k + 2) (di_major d) (put16 k (di_type d) f)))))"

definition dinode_at :: "uint32 \<Rightarrow> nat" where
  "dinode_at inum = (unat inum mod IPB) * sizeof_dinode"

section \<open>State\<close>

record inode =
  i_dev :: uint32
  i_inum :: uint32
  i_ref :: int
  i_valid :: bool
  i_type :: uint16
  i_major :: uint16
  i_minor :: uint16
  i_nlink :: uint16
  i_size :: uint32
  i_addrs :: "nat \<Rightarrow> uint32"

definition zero_inode :: inode where
  "zero_inode = \<lparr>i_dev = 0, i_inum = 0, i_ref = 0, i_valid = False, i_type = 0, i_major = 0, i_minor = 0,
     i_nlink = 0, i_size = 0, i_addrs = (\<lambda>_. 0)\<rparr>"

text \<open>The file system's own state.\<close>

record fsys = klog +
  sb :: superblock
  itable :: "nat \<Rightarrow> inode"

definition upd_inode :: "nat \<Rightarrow> (inode \<Rightarrow> inode) \<Rightarrow> 'a fsys_scheme \<Rightarrow> 'a fsys_scheme" where
  "upd_inode ip f s = s\<lparr>itable := (itable s)(ip := f (itable s ip))\<rparr>"

section \<open>Super block\<close>

definition get_superblock :: "block \<Rightarrow> superblock" where
  "get_superblock f =
     \<lparr>sb_magic = get32 f 0, sb_size = get32 f 4, sb_nblocks = get32 f 8, sb_ninodes = get32 f 12,
      sb_nlog = get32 f 16, sb_logstart = get32 f 20, sb_inodestart = get32 f 24, sb_bmapstart = get32 f 28\<rparr>"

definition readsb :: "uint32 \<Rightarrow> 'a fsys_scheme \<Rightarrow> 'a fsys_scheme res" where
  "readsb dev s =
     bindE (bread dev 1 s) (\<lambda>(bp, s). brelse bp (s\<lparr>sb := get_superblock (data_of bp s)\<rparr>))"

definition fsinit :: "uint32 \<Rightarrow> 'a fsys_scheme \<Rightarrow> 'a fsys_scheme res" where
  "fsinit dev s =
     bindE (readsb dev s) (\<lambda>s.
     if sb_magic (sb s) \<noteq> FSMAGIC then Inl (Panic ''invalid file system'') else initlog dev (sb s) s)"

section \<open>Blocks\<close>

definition bzero :: "uint32 \<Rightarrow> uint32 \<Rightarrow> 'a klog_scheme \<Rightarrow> 'a klog_scheme res" where
  "bzero dev bno s =
     bindE (bread dev bno s) (\<lambda>(bp, s).
     bindE (log_write bp (upd_data bp (\<lambda>f k. if k < BSIZE then 0 else f k) s)) (brelse bp))"

definition bit_mask :: "nat \<Rightarrow> uint8" where
  "bit_mask bi = push_bit (bi mod 8) 1"

text \<open>The loop over the blocks of the bitmap; the argument is the list of the values of \<^verbatim>\<open>b\<close> to come.\<close>

fun balloc_from :: "uint32 \<Rightarrow> nat list \<Rightarrow> 'a fsys_scheme \<Rightarrow> (uint32 \<times> 'a fsys_scheme) res" where
  "balloc_from dev [] s = bindE (printf (''balloc: out of blocks'' @ nl) [] s) (\<lambda>s. Inr (0, s))"
| "balloc_from dev (b # bs) s =
     bindE (bread dev (BBLOCK (word_of_nat b) (sb s)) s) (\<lambda>(bp, s).
     case first_from (\<lambda>bi. data_of bp s (bi div 8) AND bit_mask bi = 0) 0 (min BPB (unat (sb_size (sb s)) - b)) of
       Some bi \<Rightarrow>
         bindE (log_write bp (upd_data bp (\<lambda>f. f(bi div 8 := f (bi div 8) OR bit_mask bi)) s)) (\<lambda>s.
         bindE (brelse bp s) (\<lambda>s.
         bindE (bzero dev (word_of_nat (b + bi)) s) (\<lambda>s. Inr (word_of_nat (b + bi), s))))
     | None \<Rightarrow> bindE (brelse bp s) (balloc_from dev bs))"

definition bitmap_starts :: "uint32 \<Rightarrow> nat list" where
  "bitmap_starts n = map (\<lambda>k. k * BPB) [0..<(unat n + BPB - 1) div BPB]"

definition balloc :: "uint32 \<Rightarrow> 'a fsys_scheme \<Rightarrow> (uint32 \<times> 'a fsys_scheme) res" where
  "balloc dev s = balloc_from dev (bitmap_starts (sb_size (sb s))) s"

definition bfree :: "uint32 \<Rightarrow> uint32 \<Rightarrow> 'a fsys_scheme \<Rightarrow> 'a fsys_scheme res" where
  "bfree dev b s =
     bindE (bread dev (BBLOCK b (sb s)) s) (\<lambda>(bp, s).
     let bi = unat b mod BPB in
     if data_of bp s (bi div 8) AND bit_mask bi = 0 then Inl (Panic ''freeing free block'')
     else bindE (log_write bp (upd_data bp (\<lambda>f. f(bi div 8 := f (bi div 8) AND NOT (bit_mask bi))) s)) (brelse bp))"

section \<open>Inodes\<close>

definition iinit :: "'a ksched_scheme \<Rightarrow> 'a ksched_scheme res" where
  "iinit s = forE (\<lambda>i s. Inr (initsleeplock (SL_inode i) ''inode'' s)) [0..<NINODE] (initlock L_itable ''itable'' s)"

definition iget :: "uint32 \<Rightarrow> uint32 \<Rightarrow> 'a fsys_scheme \<Rightarrow> (nat \<times> 'a fsys_scheme) res" where
  "iget dev inum s =
     bindE (acquire L_itable s) (\<lambda>s.
     case first_from (\<lambda>ip. 0 < i_ref (itable s ip) \<and> i_dev (itable s ip) = dev \<and> i_inum (itable s ip) = inum) 0 NINODE of
       Some ip \<Rightarrow>
         bindE (release L_itable (upd_inode ip (\<lambda>x. x\<lparr>i_ref := i_ref x + 1\<rparr>) s)) (\<lambda>s. Inr (ip, s))
     | None \<Rightarrow>
       (case first_from (\<lambda>ip. i_ref (itable s ip) = 0) 0 NINODE of
          None \<Rightarrow> Inl (Panic ''iget: no inodes'')
        | Some ip \<Rightarrow>
            bindE (release L_itable (upd_inode ip (\<lambda>x. x\<lparr>i_dev := dev, i_inum := inum, i_ref := 1, i_valid := False\<rparr>) s))
              (\<lambda>s. Inr (ip, s))))"

fun ialloc_from :: "uint32 \<Rightarrow> uint16 \<Rightarrow> nat list \<Rightarrow> 'a fsys_scheme \<Rightarrow> (nat option \<times> 'a fsys_scheme) res" where
  "ialloc_from dev type [] s = bindE (printf (''ialloc: no inodes'' @ nl) [] s) (\<lambda>s. Inr (None, s))"
| "ialloc_from dev type (inum # rest) s =
     bindE (bread dev (IBLOCK (word_of_nat inum) (sb s)) s) (\<lambda>(bp, s).
     let k = dinode_at (word_of_nat inum) in
     if di_type (get_dinode (data_of bp s) k) = 0 then
       let s = upd_data bp (\<lambda>f. put16 k type (\<lambda>i. if k \<le> i \<and> i < k + sizeof_dinode then 0 else f i)) s in
       bindE (log_write bp s) (\<lambda>s.
       bindE (brelse bp s) (\<lambda>s.
       bindE (iget dev (word_of_nat inum) s) (\<lambda>(ip, s). Inr (Some ip, s))))
     else bindE (brelse bp s) (ialloc_from dev type rest))"

definition ialloc :: "uint32 \<Rightarrow> uint16 \<Rightarrow> 'a fsys_scheme \<Rightarrow> (nat option \<times> 'a fsys_scheme) res" where
  "ialloc dev type s = ialloc_from dev type [1..<unat (sb_ninodes (sb s))] s"

definition inode_dinode :: "inode \<Rightarrow> dinode" where
  "inode_dinode x = \<lparr>di_type = i_type x, di_major = i_major x, di_minor = i_minor x, di_nlink = i_nlink x,
     di_size = i_size x, di_addrs = i_addrs x\<rparr>"

definition load_dinode :: "dinode \<Rightarrow> inode \<Rightarrow> inode" where
  "load_dinode d x = x\<lparr>i_type := di_type d, i_major := di_major d, i_minor := di_minor d, i_nlink := di_nlink d,
     i_size := di_size d, i_addrs := (\<lambda>i. if i < NDIRECT + 1 then di_addrs d i else i_addrs x i)\<rparr>"

definition iupdate :: "nat \<Rightarrow> 'a fsys_scheme \<Rightarrow> 'a fsys_scheme res" where
  "iupdate ip s =
     bindE (bread (i_dev (itable s ip)) (IBLOCK (i_inum (itable s ip)) (sb s)) s) (\<lambda>(bp, s).
     let x = itable s ip;
         s = upd_data bp (put_dinode (dinode_at (i_inum x)) (inode_dinode x)) s in
     bindE (log_write bp s) (brelse bp))"

definition idup :: "nat \<Rightarrow> 'a fsys_scheme \<Rightarrow> (nat \<times> 'a fsys_scheme) res" where
  "idup ip s =
     bindE (acquire L_itable s) (\<lambda>s.
     bindE (release L_itable (upd_inode ip (\<lambda>x. x\<lparr>i_ref := i_ref x + 1\<rparr>) s)) (\<lambda>s. Inr (ip, s)))"

definition ilock :: "nat option \<Rightarrow> 'a fsys_scheme \<Rightarrow> 'a fsys_scheme res" where
  "ilock p s =
     (case p of
        None \<Rightarrow> Inl (Panic ''ilock'')
      | Some ip \<Rightarrow>
          if i_ref (itable s ip) < 1 then Inl (Panic ''ilock'')
          else bindE (acquiresleep (SL_inode ip) s) (\<lambda>s.
            if \<not> i_valid (itable s ip) then
              bindE (bread (i_dev (itable s ip)) (IBLOCK (i_inum (itable s ip)) (sb s)) s) (\<lambda>(bp, s).
              let s = upd_inode ip (load_dinode (get_dinode (data_of bp s) (dinode_at (i_inum (itable s ip))))) s in
              bindE (brelse bp s) (\<lambda>s.
              let s = upd_inode ip (\<lambda>x. x\<lparr>i_valid := True\<rparr>) s in
              if i_type (itable s ip) = 0 then Inl (Panic ''ilock: no type'') else Inr s))
            else Inr s))"

definition iunlock :: "nat option \<Rightarrow> 'a fsys_scheme \<Rightarrow> 'a fsys_scheme res" where
  "iunlock p s =
     (case p of
        None \<Rightarrow> Inl (Panic ''iunlock'')
      | Some ip \<Rightarrow>
          bindE (holdingsleep (SL_inode ip) s) (\<lambda>(h, s).
          if \<not> h \<or> i_ref (itable s ip) < 1 then Inl (Panic ''iunlock'') else releasesleep (SL_inode ip) s))"

definition itrunc_direct :: "nat \<Rightarrow> nat \<Rightarrow> 'a fsys_scheme \<Rightarrow> 'a fsys_scheme res" where
  "itrunc_direct ip i s =
     (if i_addrs (itable s ip) i \<noteq> 0 then
        bindE (bfree (i_dev (itable s ip)) (i_addrs (itable s ip) i) s) (\<lambda>s.
        Inr (upd_inode ip (\<lambda>x. x\<lparr>i_addrs := (i_addrs x)(i := 0)\<rparr>) s))
      else Inr s)"

definition itrunc :: "nat \<Rightarrow> 'a fsys_scheme \<Rightarrow> 'a fsys_scheme res" where
  "itrunc ip s =
     bindE (forE (itrunc_direct ip) [0..<NDIRECT] s) (\<lambda>s.
     bindE (if i_addrs (itable s ip) NDIRECT \<noteq> 0 then
              bindE (bread (i_dev (itable s ip)) (i_addrs (itable s ip) NDIRECT) s) (\<lambda>(bp, s).
              bindE (forE (\<lambda>j s. let a = get32 (data_of bp s) (4 * j) in
                       if a \<noteq> 0 then bfree (i_dev (itable s ip)) a s else Inr s) [0..<NINDIRECT] s) (\<lambda>s.
              bindE (brelse bp s) (\<lambda>s.
              bindE (bfree (i_dev (itable s ip)) (i_addrs (itable s ip) NDIRECT) s) (\<lambda>s.
              Inr (upd_inode ip (\<lambda>x. x\<lparr>i_addrs := (i_addrs x)(NDIRECT := 0)\<rparr>) s)))))
            else Inr s) (\<lambda>s.
     iupdate ip (upd_inode ip (\<lambda>x. x\<lparr>i_size := 0\<rparr>) s)))"

definition iput :: "nat \<Rightarrow> 'a fsys_scheme \<Rightarrow> 'a fsys_scheme res" where
  "iput ip s =
     bindE (acquire L_itable s) (\<lambda>s.
     bindE (if i_ref (itable s ip) = 1 \<and> i_valid (itable s ip) \<and> i_nlink (itable s ip) = 0 then
              bindE (acquiresleep (SL_inode ip) s) (\<lambda>s.
              bindE (release L_itable s) (\<lambda>s.
              bindE (itrunc ip s) (\<lambda>s.
              bindE (iupdate ip (upd_inode ip (\<lambda>x. x\<lparr>i_type := 0\<rparr>) s)) (\<lambda>s.
              bindE (releasesleep (SL_inode ip) (upd_inode ip (\<lambda>x. x\<lparr>i_valid := False\<rparr>) s)) (\<lambda>s.
              acquire L_itable s)))))
            else Inr s) (\<lambda>s.
     release L_itable (upd_inode ip (\<lambda>x. x\<lparr>i_ref := i_ref x - 1\<rparr>) s)))"

definition iunlockput :: "nat \<Rightarrow> 'a fsys_scheme \<Rightarrow> 'a fsys_scheme res" where
  "iunlockput ip s = bindE (iunlock (Some ip) s) (iput ip)"

section \<open>File contents\<close>

definition bmap :: "nat \<Rightarrow> uint32 \<Rightarrow> 'a fsys_scheme \<Rightarrow> (uint32 \<times> 'a fsys_scheme) res" where
  "bmap ip bn s =
     (if unat bn < NDIRECT then
        let addr = i_addrs (itable s ip) (unat bn) in
        if addr = 0 then
          bindE (balloc (i_dev (itable s ip)) s) (\<lambda>(addr, s).
          if addr = 0 then Inr (0, s)
          else Inr (addr, upd_inode ip (\<lambda>x. x\<lparr>i_addrs := (i_addrs x)(unat bn := addr)\<rparr>) s))
        else Inr (addr, s)
      else
        let bn = unat bn - NDIRECT in
        if bn < NINDIRECT then
          bindE (let addr = i_addrs (itable s ip) NDIRECT in
                 if addr = 0 then
                   bindE (balloc (i_dev (itable s ip)) s) (\<lambda>(addr, s).
                   if addr = 0 then Inr (0, s)
                   else Inr (addr, upd_inode ip (\<lambda>x. x\<lparr>i_addrs := (i_addrs x)(NDIRECT := addr)\<rparr>) s))
                 else Inr (addr, s)) (\<lambda>(addr, s).
          if addr = 0 then Inr (0, s)
          else bindE (bread (i_dev (itable s ip)) addr s) (\<lambda>(bp, s).
            let addr = get32 (data_of bp s) (4 * bn) in
            bindE (if addr = 0 then
                     bindE (balloc (i_dev (itable s ip)) s) (\<lambda>(addr, s).
                     if addr \<noteq> 0 then
                       bindE (log_write bp (upd_data bp (put32 (4 * bn) addr) s)) (\<lambda>s. Inr (addr, s))
                     else Inr (addr, s))
                   else Inr (addr, s)) (\<lambda>(addr, s).
            bindE (brelse bp s) (\<lambda>s. Inr (addr, s)))))
        else Inl (Panic ''bmap: out of range''))"

record stat =
  st_dev :: uint32
  st_ino :: uint32
  st_type :: uint16
  st_nlink :: uint16
  st_size :: uint64

definition stati :: "nat \<Rightarrow> 'a fsys_scheme \<Rightarrow> stat" where
  "stati ip s = (let x = itable s ip in
     \<lparr>st_dev = i_dev x, st_ino = i_inum x, st_type = i_type x, st_nlink = i_nlink x, st_size = ucast (i_size x)\<rparr>)"

definition span :: "nat \<Rightarrow> uint32 \<Rightarrow> nat" where
  "span left off = min left (BSIZE - unat off mod BSIZE)"

lemma span_pos: "0 < left \<Longrightarrow> 0 < span left off"
  by (simp add: span_def BSIZE_def)

text \<open>\<open>left\<close> is \<^verbatim>\<open>n - tot\<close>; both loops move on by at least one byte each time round.\<close>

function readi_from :: "nat \<Rightarrow> bool \<Rightarrow> uint64 \<Rightarrow> uint32 \<Rightarrow> nat \<Rightarrow> nat \<Rightarrow> 'a fsys_scheme \<Rightarrow> (int \<times> 'a fsys_scheme) res" where
  "readi_from ip user_dst dst off left tot s =
     (if 0 < left then
        bindE (bmap ip (off div word_of_nat BSIZE) s) (\<lambda>(addr, s).
        if addr = 0 then Inr (int tot, s)
        else bindE (bread (i_dev (itable s ip)) addr s) (\<lambda>(bp, s).
          let m = span left off in
          bindE (either_copyout user_dst dst (map (\<lambda>k. data_of bp s (unat off mod BSIZE + k)) [0..<m]) s) (\<lambda>(r, s).
          bindE (brelse bp s) (\<lambda>s.
          if r = -1 then Inr (-1, s)
          else readi_from ip user_dst (dst + word_of_nat m) (off + word_of_nat m) (left - m) (tot + m) s))))
      else Inr (int tot, s))"
  by pat_completeness auto

termination
  by (relation "measure (\<lambda>(_, _, _, _, left, _, _). left)") (simp_all add: span_pos)

declare readi_from.simps [simp del]

definition readi :: "nat \<Rightarrow> bool \<Rightarrow> uint64 \<Rightarrow> uint32 \<Rightarrow> uint32 \<Rightarrow> 'a fsys_scheme \<Rightarrow> (int \<times> 'a fsys_scheme) res" where
  "readi ip user_dst dst off n s =
     (let sz = i_size (itable s ip) in
      if sz < off \<or> off + n < off then Inr (0, s)
      else let n = (if sz < off + n then sz - off else n) in
           readi_from ip user_dst dst off (unat n) 0 s)"

text \<open>The loop of \<^verbatim>\<open>writei\<close> gives back the final values of \<^verbatim>\<open>tot\<close> and \<^verbatim>\<open>off\<close>.\<close>

definition put_bytes :: "nat \<Rightarrow> uint8 list \<Rightarrow> block \<Rightarrow> block" where
  "put_bytes k bs f = (\<lambda>i. if k \<le> i \<and> i < k + length bs then bs ! (i - k) else f i)"

function writei_from :: "nat \<Rightarrow> bool \<Rightarrow> uint64 \<Rightarrow> uint32 \<Rightarrow> nat \<Rightarrow> nat \<Rightarrow> 'a fsys_scheme \<Rightarrow> (nat \<times> uint32 \<times> 'a fsys_scheme) res" where
  "writei_from ip user_src src off left tot s =
     (if 0 < left then
        bindE (bmap ip (off div word_of_nat BSIZE) s) (\<lambda>(addr, s).
        if addr = 0 then Inr (tot, off, s)
        else bindE (bread (i_dev (itable s ip)) addr s) (\<lambda>(bp, s).
          let m = span left off in
          bindE (either_copyin user_src src m s) (\<lambda>(r, bs, s).
          let s = upd_data bp (put_bytes (unat off mod BSIZE) bs) s in
          if r = -1 then bindE (brelse bp s) (\<lambda>s. Inr (tot, off, s))
          else bindE (log_write bp s) (\<lambda>s.
            bindE (brelse bp s) (\<lambda>s.
            writei_from ip user_src (src + word_of_nat m) (off + word_of_nat m) (left - m) (tot + m) s)))))
      else Inr (tot, off, s))"
  by pat_completeness auto

termination
  by (relation "measure (\<lambda>(_, _, _, _, left, _, _). left)") (simp_all add: span_pos)

declare writei_from.simps [simp del]

definition writei :: "nat \<Rightarrow> bool \<Rightarrow> uint64 \<Rightarrow> uint32 \<Rightarrow> uint32 \<Rightarrow> 'a fsys_scheme \<Rightarrow> (int \<times> 'a fsys_scheme) res" where
  "writei ip user_src src off n s =
     (if i_size (itable s ip) < off \<or> off + n < off then Inr (-1, s)
      else if word_of_nat (MAXFILE * BSIZE) < off + n then Inr (-1, s)
      else bindE (writei_from ip user_src src off (unat n) 0 s) (\<lambda>(tot, off, s).
        let s = (if i_size (itable s ip) < off then upd_inode ip (\<lambda>x. x\<lparr>i_size := off\<rparr>) s else s) in
        bindE (iupdate ip s) (\<lambda>s. Inr (int tot, s))))"

section \<open>Directories\<close>

definition namecmp :: "cstring \<Rightarrow> cstring \<Rightarrow> int" where
  "namecmp s t = strncmp s t DIRSIZ"

text \<open>The local \<^verbatim>\<open>struct dirent de\<close> is at the frame: its \<^verbatim>\<open>inum\<close>, then its name.\<close>

definition de_inum :: "'a ksched_scheme \<Rightarrow> uint16" where
  "de_inum s = get16 (chars_at (mem s) (frame s)) 0"

definition de_name :: "'a ksched_scheme \<Rightarrow> cstring" where
  "de_name s = chars_at (mem s) (frame s + 2)"

definition dirent_offs :: "uint32 \<Rightarrow> nat list" where
  "dirent_offs n = map (\<lambda>k. k * sizeof_dirent) [0..<(unat n + sizeof_dirent - 1) div sizeof_dirent]"

fun dirlookup_from :: "nat \<Rightarrow> cstring \<Rightarrow> nat list \<Rightarrow> 'a fsys_scheme \<Rightarrow> ((nat \<times> uint32) option \<times> 'a fsys_scheme) res" where
  "dirlookup_from dp name [] s = Inr (None, s)"
| "dirlookup_from dp name (off # offs) s =
     bindE (readi dp False (frame s) (word_of_nat off) (word_of_nat sizeof_dirent) s) (\<lambda>(r, s).
     if r \<noteq> int sizeof_dirent then Inl (Panic ''dirlookup read'')
     else if de_inum s = 0 then dirlookup_from dp name offs s
     else if namecmp name (de_name s) = 0 then
       bindE (iget (i_dev (itable s dp)) (ucast (de_inum s)) s) (\<lambda>(ip, s). Inr (Some (ip, word_of_nat off), s))
     else dirlookup_from dp name offs s)"

definition dirlookup :: "nat \<Rightarrow> cstring \<Rightarrow> 'a fsys_scheme \<Rightarrow> ((nat \<times> uint32) option \<times> 'a fsys_scheme) res" where
  "dirlookup dp name s =
     (if i_type (itable s dp) \<noteq> T_DIR then Inl (Panic ''dirlookup not DIR'')
      else dirlookup_from dp name (dirent_offs (i_size (itable s dp))) s)"

fun free_dirent :: "nat \<Rightarrow> nat list \<Rightarrow> 'a fsys_scheme \<Rightarrow> (nat \<times> 'a fsys_scheme) res" where
  "free_dirent dp [] s = Inr (length (dirent_offs (i_size (itable s dp))) * sizeof_dirent, s)"
| "free_dirent dp (off # offs) s =
     bindE (readi dp False (frame s) (word_of_nat off) (word_of_nat sizeof_dirent) s) (\<lambda>(r, s).
     if r \<noteq> int sizeof_dirent then Inl (Panic ''dirlink read'')
     else if de_inum s = 0 then Inr (off, s)
     else free_dirent dp offs s)"

definition dirlink :: "nat \<Rightarrow> cstring \<Rightarrow> uint32 \<Rightarrow> 'a fsys_scheme \<Rightarrow> (int \<times> 'a fsys_scheme) res" where
  "dirlink dp name inum s =
     bindE (dirlookup dp name s) (\<lambda>(r, s).
     case r of
       Some (ip, _) \<Rightarrow> bindE (iput ip s) (\<lambda>s. Inr (-1, s))
     | None \<Rightarrow>
         bindE (free_dirent dp (dirent_offs (i_size (itable s dp))) s) (\<lambda>(off, s).
         let nm = strncpy (de_name s) name (int DIRSIZ);
             s = s\<lparr>mem := store_bytes (frame s + 2) (map nm [0..<DIRSIZ]) (mem s)\<rparr>;
             s = s\<lparr>mem := store_bytes (frame s) (map (le_byte (ucast inum :: uint16)) [0..<2]) (mem s)\<rparr> in
         bindE (writei dp False (frame s) (word_of_nat off) (word_of_nat sizeof_dirent) s) (\<lambda>(r, s).
         Inr (if r \<noteq> int sizeof_dirent then -1 else 0, s))))"

section \<open>Paths\<close>

text \<open>
  A path is the list of its bytes up to the terminating NUL; a pointer into it is the rest of the
  list. \<open>slash\<close> is the character \<^verbatim>\<open>'/'\<close>. The result is the element in the buffer \<^verbatim>\<open>name\<close> and the rest.
\<close>

abbreviation slash :: uint8 where "slash \<equiv> 47"

definition skipelem :: "uint8 list \<Rightarrow> cstring \<Rightarrow> (cstring \<times> uint8 list) option" where
  "skipelem path name =
     (let path = dropWhile (\<lambda>c. c = slash) path in
      if path = [] then None
      else
        let el = takeWhile (\<lambda>c. c \<noteq> slash) path;
            path = dropWhile (\<lambda>c. c \<noteq> slash) path;
            len = length el;
            name = (if DIRSIZ \<le> len then (\<lambda>i. if i < DIRSIZ then el ! i else name i)
                    else (\<lambda>i. if i < len then el ! i else if i = len then 0 else name i)) in
        Some (name, dropWhile (\<lambda>c. c = slash) path))"

lemma skipelem_shorter:
  assumes "skipelem path name = Some (name', path')" shows "length path' < length path"
proof -
  define q where "q = dropWhile (\<lambda>c. c = slash) path"
  have q: "q \<noteq> []" and p': "path' = dropWhile (\<lambda>c. c = slash) (dropWhile (\<lambda>c. c \<noteq> slash) q)"
    using assms by (auto simp: skipelem_def Let_def q_def split: if_splits)
  have "hd q \<noteq> slash" using q hd_dropWhile [of "\<lambda>c. c = slash" path] by (simp add: q_def)
  then have "length (dropWhile (\<lambda>c. c \<noteq> slash) q) < length q"
    using q length_dropWhile_le [of "\<lambda>c. c \<noteq> slash" "tl q"] by (cases q) auto
  moreover have "length path' \<le> length (dropWhile (\<lambda>c. c \<noteq> slash) q)" unfolding p' by (rule length_dropWhile_le)
  moreover have "length q \<le> length path" unfolding q_def by (rule length_dropWhile_le)
  ultimately show ?thesis by simp
qed

function namex_from :: "nat \<Rightarrow> uint8 list \<Rightarrow> bool \<Rightarrow> cstring \<Rightarrow> 'a fsys_scheme \<Rightarrow> (nat option \<times> cstring \<times> 'a fsys_scheme) res" where
  "namex_from ip path parent name s =
     (case skipelem path name of
        None \<Rightarrow>
          if parent then bindE (iput ip s) (\<lambda>s. Inr (None, name, s)) else Inr (Some ip, name, s)
      | Some (name, path) \<Rightarrow>
          bindE (ilock (Some ip) s) (\<lambda>s.
          if i_type (itable s ip) \<noteq> T_DIR then bindE (iunlockput ip s) (\<lambda>s. Inr (None, name, s))
          else if parent \<and> path = [] then bindE (iunlock (Some ip) s) (\<lambda>s. Inr (Some ip, name, s))
          else bindE (dirlookup ip name s) (\<lambda>(r, s).
            case r of
              None \<Rightarrow> bindE (iunlockput ip s) (\<lambda>s. Inr (None, name, s))
            | Some (nxt, _) \<Rightarrow> bindE (iunlockput ip s) (namex_from nxt path parent name))))"
  by pat_completeness auto

termination
  by (relation "measure (\<lambda>(_, path, _, _, _). length path)") (auto dest: skipelem_shorter)

declare namex_from.simps [simp del]

definition namex :: "uint8 list \<Rightarrow> bool \<Rightarrow> cstring \<Rightarrow> 'a fsys_scheme \<Rightarrow> (nat option \<times> cstring \<times> 'a fsys_scheme) res" where
  "namex path parent name s =
     bindE (if path \<noteq> [] \<and> hd path = slash then iget ROOTDEV ROOTINO s
            else bindE (curproc s) (\<lambda>(p, s).
              case p_cwd (procs s p) of None \<Rightarrow> Inl Fault | Some ip \<Rightarrow> idup ip s)) (\<lambda>(ip, s).
     namex_from ip path parent name s)"

text \<open>The local array \<^verbatim>\<open>name\<close> of \<^verbatim>\<open>namei\<close> starts with what the frame holds.\<close>

definition namei :: "uint8 list \<Rightarrow> 'a fsys_scheme \<Rightarrow> (nat option \<times> 'a fsys_scheme) res" where
  "namei path s = bindE (namex path False (chars_at (mem s) (frame s)) s) (\<lambda>(ip, _, s). Inr (ip, s))"

definition nameiparent :: "uint8 list \<Rightarrow> cstring \<Rightarrow> 'a fsys_scheme \<Rightarrow> (nat option \<times> cstring \<times> 'a fsys_scheme) res" where
  "nameiparent path name s = namex path True name s"

section \<open>Path elements\<close>

text \<open>The elements of a path: its maximal runs of characters other than the slash.\<close>

function elements :: "uint8 list \<Rightarrow> uint8 list list" where
  "elements [] = []"
| "elements (c # p) =
     (if c = slash then elements p
      else takeWhile (\<lambda>c. c \<noteq> slash) (c # p) # elements (dropWhile (\<lambda>c. c \<noteq> slash) p))"
  by pat_completeness auto

termination
  by (relation "measure length") (auto simp: le_imp_less_Suc length_dropWhile_le)

text \<open>
  The name buffer filled with an element: the element cut to \<^verbatim>\<open>DIRSIZ\<close>, with a NUL if there is room, and
  every other byte as it was, in particular all bytes from \<^verbatim>\<open>DIRSIZ\<close> on. \<open>holds_name\<close> is the part of it that
  name comparisons look at.
\<close>

definition filled_name :: "cstring \<Rightarrow> uint8 list \<Rightarrow> cstring" where
  "filled_name name el = (\<lambda>i. if i < length (take DIRSIZ el) then el ! i else if i = length el \<and> i < DIRSIZ then 0 else name i)"

definition holds_name :: "cstring \<Rightarrow> uint8 list \<Rightarrow> bool" where
  "holds_name name el \<longleftrightarrow> (\<forall>i < min (length el) DIRSIZ. name i = el ! i) \<and> (length el < DIRSIZ \<longrightarrow> name (length el) = 0)"

lemma elements_dropWhile: "elements (dropWhile (\<lambda>c. c = slash) p) = elements p"
  by (induction p) auto

lemma elements_nil: "elements p = [] \<longleftrightarrow> dropWhile (\<lambda>c. c = slash) p = []"
  by (induction p) auto

lemma skipelem_first:
  "case elements path of
     [] \<Rightarrow> skipelem path name = None
   | el # els \<Rightarrow> \<exists>rest. skipelem path name = Some (filled_name name el, rest) \<and>
       el \<noteq> [] \<and> slash \<notin> set el \<and> elements rest = els \<and> (rest = [] \<longleftrightarrow> els = [])"
proof (cases "dropWhile (\<lambda>c. c = slash) path")
  case Nil
  then show ?thesis using elements_nil [of path] by (simp add: skipelem_def)
next
  case (Cons c q)
  have c: "c \<noteq> slash" using hd_dropWhile [of "\<lambda>c. c = slash" path] Cons by simp
  let ?el = "takeWhile (\<lambda>c. c \<noteq> slash) (c # q)"
  let ?rest = "dropWhile (\<lambda>c. c = slash) (dropWhile (\<lambda>c. c \<noteq> slash) (c # q))"
  have e: "elements path = ?el # elements ?rest"
    using elements_dropWhile [of path] c unfolding Cons elements_dropWhile by simp
  have n: "skipelem path name = Some (filled_name name ?el, ?rest)"
    unfolding skipelem_def Let_def Cons by (auto simp: filled_name_def fun_eq_iff)
  have "?rest = [] \<longleftrightarrow> elements ?rest = []" using elements_nil [of ?rest] by simp
  moreover have "slash \<notin> set ?el" by (auto dest: set_takeWhileD)
  ultimately show ?thesis using n c unfolding e by simp
qed

lemma skipelem_fills: "skipelem path name = Some (n, rest) \<Longrightarrow> elements path = el # els \<Longrightarrow> holds_name n el"
  using skipelem_first [of path name] by (auto simp: filled_name_def holds_name_def)

lemma set_elements: "el \<in> set (elements path) \<Longrightarrow> set el \<subseteq> set path"
  by (induction path rule: elements.induct) (auto dest: set_takeWhileD set_dropWhileD split: if_splits)

text \<open>
  C21. \<^verbatim>\<open>skipelem\<close> walks a path one element at a time, where the elements are the maximal runs of characters
  other than the slash: it fails exactly when no element is left, and otherwise puts the first one
  in the buffer and returns a path with the remaining elements, which is empty exactly when the
  element was the last one. The buffer is given byte by byte: at most \<^verbatim>\<open>DIRSIZ\<close> bytes of the element, a NUL
  after a shorter one, and no other byte written, so never one past \<^verbatim>\<open>name[DIRSIZ - 1]\<close>.
\<close>

theorem skipelem_elements:
  "case elements path of
     [] \<Rightarrow> skipelem path name = None
   | el # els \<Rightarrow> \<exists>rest. skipelem path name = Some (filled_name name el, rest) \<and>
       el \<noteq> [] \<and> slash \<notin> set el \<and> elements rest = els \<and> (rest = [] \<longleftrightarrow> els = [])"
  by (rule skipelem_first)

lemma holds_name_char:
  assumes "holds_name n el" "0 \<notin> set el" "i < DIRSIZ" "i \<le> length el"
  shows "n i = (if i < length el then el ! i else 0)" "i < length el \<longleftrightarrow> n i \<noteq> 0"
proof -
  show "n i = (if i < length el then el ! i else 0)" using assms by (auto simp: holds_name_def)
  moreover have "i < length el \<Longrightarrow> el ! i \<noteq> 0" using assms(2) nth_mem by metis
  ultimately show "i < length el \<longleftrightarrow> n i \<noteq> 0" by auto
qed

lemma strncmp_names:
  assumes "holds_name n el" "holds_name n' el'" "0 \<notin> set el" "0 \<notin> set el'"
  shows "namecmp n n' = 0 \<longleftrightarrow> take DIRSIZ el = take DIRSIZ el'" (is "?l \<longleftrightarrow> ?r")
proof -
  note c = holds_name_char [OF assms(1,3)] and c' = holds_name_char [OF assms(2,4)]
  have z: "?l \<longleftrightarrow> (\<forall>k < DIRSIZ. n k = n' k \<or> (\<exists>l < k. n l = 0 \<and> n' l = 0))"
    using strncmp_from_zero_iff [of 0 n n' DIRSIZ] by (simp add: namecmp_def strncmp_def)
  show ?thesis
  proof
    assume ?l
    have eq: "n k = n' k" if "k < DIRSIZ" "k \<le> length el" "k \<le> length el'" for k
    proof -
      have "n l \<noteq> 0" if "l < k" for l using c(2) [of l] that \<open>k < DIRSIZ\<close> \<open>k \<le> length el\<close> by simp
      then show ?thesis using \<open>?l\<close> that z by auto
    qed
    have len: "min (length el) DIRSIZ = min (length el') DIRSIZ"
    proof (cases "min (length el) (length el') < DIRSIZ")
      case True
      define k where "k = min (length el) (length el')"
      have "k < DIRSIZ" "k \<le> length el" "k \<le> length el'" using True by (simp_all add: k_def)
      then have "k < length el \<longleftrightarrow> k < length el'" using eq [of k] c(2) [of k] c'(2) [of k] by simp
      then show ?thesis by (auto simp: k_def)
    qed auto
    show ?r
    proof (rule nth_equalityI)
      show "length (take DIRSIZ el) = length (take DIRSIZ el')" using len by simp
      fix i assume "i < length (take DIRSIZ el)"
      then have "i < DIRSIZ" "i < length el" "i < length el'" using len by auto
      then show "take DIRSIZ el ! i = take DIRSIZ el' ! i" using eq [of i] c(1) [of i] c'(1) [of i] by simp
    qed
  next
    assume r: ?r
    have len: "min (length el) DIRSIZ = min (length el') DIRSIZ" using arg_cong [OF r, of length] by simp
    have "n k = n' k \<or> (\<exists>l < k. n l = 0 \<and> n' l = 0)" if k: "k < DIRSIZ" for k
    proof (cases "k < length el")
      case True
      moreover have "k < length el'" using True len k by simp
      moreover have "el ! k = el' ! k" using arg_cong [OF r, of "\<lambda>xs. xs ! k"] k by simp
      ultimately show ?thesis using c(1) [of k] c'(1) [of k] k by simp
    next
      case False
      then have "length el = length el'" "length el \<le> k" using len k by auto
      then show ?thesis using c(1) [of "length el"] c'(1) [of "length el"] k by (cases "k = length el") auto
    qed
    then show ?l using z by blast
  qed
qed

text \<open>
  C22. Directory entries are found by the first \<^verbatim>\<open>DIRSIZ\<close> bytes of a name: two buffers filled by \<^verbatim>\<open>skipelem\<close>
  from path elements compare equal under \<^verbatim>\<open>namecmp\<close> exactly when the elements agree after being cut to
  14 bytes.
\<close>

theorem namecmp_elements:
  assumes "skipelem path name = Some (n, rest)" "elements path = el # els" "0 \<notin> set path"
    and "skipelem path' name' = Some (n', rest')" "elements path' = el' # els'" "0 \<notin> set path'"
  shows "namecmp n n' = 0 \<longleftrightarrow> take DIRSIZ el = take DIRSIZ el'"
proof (rule strncmp_names)
  show "holds_name n el" using skipelem_fills [OF assms(1,2)] .
  show "holds_name n' el'" using skipelem_fills [OF assms(4,5)] .
  show "0 \<notin> set el" using set_elements [of el path] assms(2,3) by auto
  show "0 \<notin> set el'" using set_elements [of el' path'] assms(5,6) by auto
qed

theorem namecmp_elements_witness:
  "\<exists>n n'. skipelem [slash, 97, 98] (\<lambda>_. 7) = Some (n, []) \<and> skipelem [97, 98, slash, 99] (\<lambda>_. 9) = Some (n', [99]) \<and> namecmp n n' = 0"
proof -
  obtain n where n: "skipelem [slash, 97, 98] (\<lambda>_. 7) = Some (n, [])" by (simp add: skipelem_def DIRSIZ_def)
  obtain n' where n': "skipelem [97, 98, slash, 99] (\<lambda>_. 9) = Some (n', [99])" by (simp add: skipelem_def DIRSIZ_def)
  have "elements [slash, 97, 98] = [[97, 98]]" "elements [97, 98, slash, 99] = [[97, 98], [99]]" by simp_all
  from namecmp_elements [OF n this(1) _ n' this(2)] show ?thesis using n n' by auto
qed

section \<open>Inodes on disk\<close>

lemma put_dinode_outside:
  "x < k \<or> k + sizeof_dinode \<le> x \<Longrightarrow> put_dinode k d f x = f x"
  by (auto simp: put_dinode_def put32s_apply put32_def put16_def sizeof_dinode_def NDIRECT_def)

lemma get_put_dinode:
  "di_type (get_dinode (put_dinode k d f) k) = di_type d"
  "di_major (get_dinode (put_dinode k d f) k) = di_major d"
  "di_minor (get_dinode (put_dinode k d f) k) = di_minor d"
  "di_nlink (get_dinode (put_dinode k d f) k) = di_nlink d"
  "di_size (get_dinode (put_dinode k d f) k) = di_size d"
  "i < NDIRECT + 1 \<Longrightarrow> di_addrs (get_dinode (put_dinode k d f) k) i = di_addrs d i"
proof -
  note a = put_dinode_def put32s_apply put32_def put16_def
  show "di_type (get_dinode (put_dinode k d f) k) = di_type d"
    by (simp add: get_dinode_def) (simp add: get16_def, rule le_word_bytes, auto simp: a)
  show "di_major (get_dinode (put_dinode k d f) k) = di_major d"
    by (simp add: get_dinode_def) (simp add: get16_def, rule le_word_bytes, auto simp: a)
  show "di_minor (get_dinode (put_dinode k d f) k) = di_minor d"
    by (simp add: get_dinode_def) (simp add: get16_def, rule le_word_bytes, auto simp: a)
  show "di_nlink (get_dinode (put_dinode k d f) k) = di_nlink d"
    by (simp add: get_dinode_def) (simp add: get16_def, rule le_word_bytes, auto simp: a)
  show "di_size (get_dinode (put_dinode k d f) k) = di_size d"
    by (simp add: get_dinode_def) (simp add: get32_def, rule le_word_bytes, auto simp: a)
  show "di_addrs (get_dinode (put_dinode k d f) k) i = di_addrs d i" if "i < NDIRECT + 1"
    using get32_put32s [OF that, of "k + 12" "di_addrs d"] by (simp add: get_dinode_def put_dinode_def)
qed

lemma load_put_dinode: "load_dinode (get_dinode (put_dinode k (inode_dinode x) f) k) y = x\<lparr>i_dev := i_dev y, i_inum := i_inum y, i_ref := i_ref y, i_valid := i_valid y, i_addrs := (\<lambda>i. if i < NDIRECT + 1 then i_addrs x i else i_addrs y i)\<rparr>"
  by (rule inode.equality) (simp_all add: load_dinode_def get_put_dinode inode_dinode_def fun_eq_iff)

lemma get_dinode_cong:
  assumes "\<And>i. k \<le> i \<Longrightarrow> i < k + sizeof_dinode \<Longrightarrow> f i = g i"
  shows "load_dinode (get_dinode f k) y = load_dinode (get_dinode g k) y"
proof -
  have "get16 f (k + j) = get16 g (k + j)" if "j + 2 \<le> sizeof_dinode" for j
    using that assms by (intro get16_cong) simp
  moreover have "get32 f (k + j) = get32 g (k + j)" if "j + 4 \<le> sizeof_dinode" for j
    using that assms by (intro get32_cong) simp
  ultimately show ?thesis
    by (intro inode.equality)
      (auto simp: load_dinode_def get_dinode_def sizeof_dinode_def NDIRECT_def fun_eq_iff add.assoc simp del: add_2_eq_Suc' dest: meta_spec [where x = 0])
qed

lemma dinode_slots_apart:
  assumes "dinode_at i \<noteq> dinode_at j"
  shows "dinode_at i + sizeof_dinode \<le> dinode_at j \<or> dinode_at j + sizeof_dinode \<le> dinode_at i"
  using assms by (auto simp: dinode_at_def sizeof_dinode_def NDIRECT_def)

end
