(* ===== verification/File.thy ===== *)
theory File imports Fs begin

text \<open>
  Open files, \<^verbatim>\<open>kernel/file.c\<close>, and pipes, \<^verbatim>\<open>kernel/pipe.c\<close>. A file pointer is an index into the file
  table; a pipe lives in a page of the allocator and is named by the address of that page.
\<close>

unbundle bit_operations_syntax

section \<open>State\<close>

datatype filetype = FD_NONE | FD_PIPE | FD_INODE | FD_DEVICE

record file_obj =
  f_type :: filetype
  f_ref :: int
  f_readable :: bool
  f_writable :: bool
  f_pipe :: uint64
  f_ip :: "nat option"
  f_off :: uint32
  f_major :: uint16

definition zero_file :: file_obj where
  "zero_file = \<lparr>f_type = FD_NONE, f_ref = 0, f_readable = False, f_writable = False, f_pipe = 0, f_ip = None,
     f_off = 0, f_major = 0\<rparr>"

definition PIPESIZE :: nat where "PIPESIZE = 512"

record pipe =
  pi_data :: "nat \<Rightarrow> uint8"
  pi_nread :: uint32
  pi_nwrite :: uint32
  pi_readopen :: bool
  pi_writeopen :: bool

record kfile = fsys +
  ftable :: "nat \<Rightarrow> file_obj"
  pipes :: "uint64 \<Rightarrow> pipe"

definition upd_file :: "nat \<Rightarrow> (file_obj \<Rightarrow> file_obj) \<Rightarrow> 'a kfile_scheme \<Rightarrow> 'a kfile_scheme" where
  "upd_file f g s = s\<lparr>ftable := (ftable s)(f := g (ftable s f))\<rparr>"

definition upd_pipe :: "uint64 \<Rightarrow> (pipe \<Rightarrow> pipe) \<Rightarrow> 'a kfile_scheme \<Rightarrow> 'a kfile_scheme" where
  "upd_pipe p g s = s\<lparr>pipes := (pipes s)(p := g (pipes s p))\<rparr>"

section \<open>The file table\<close>

definition fileinit :: "'a kfile_scheme \<Rightarrow> 'a kfile_scheme res" where
  "fileinit s = bindE (debug (''[FILE] fileinit'' @ nl) [] s) (\<lambda>s. Inr (initlock L_ftable ''ftable'' s))"

definition filealloc :: "'a kfile_scheme \<Rightarrow> (nat option \<times> 'a kfile_scheme) res" where
  "filealloc s =
     bindE (debug (''[FILE] filealloc'' @ nl) [] s) (\<lambda>s.
     bindE (acquire L_ftable s) (\<lambda>s.
     case first_from (\<lambda>f. f_ref (ftable s f) = 0) 0 NFILE of
       Some f \<Rightarrow> bindE (release L_ftable (upd_file f (\<lambda>x. x\<lparr>f_ref := 1\<rparr>) s)) (\<lambda>s. Inr (Some f, s))
     | None \<Rightarrow> bindE (release L_ftable s) (\<lambda>s. Inr (None, s))))"

definition filedup :: "nat \<Rightarrow> 'a kfile_scheme \<Rightarrow> (nat \<times> 'a kfile_scheme) res" where
  "filedup f s =
     bindE (acquire L_ftable s) (\<lambda>s.
     if f_ref (ftable s f) < 1 then Inl (Panic ''filedup'')
     else bindE (release L_ftable (upd_file f (\<lambda>x. x\<lparr>f_ref := f_ref x + 1\<rparr>) s)) (\<lambda>s. Inr (f, s)))"

definition pipeclose :: "uint64 \<Rightarrow> bool \<Rightarrow> 'a kfile_scheme \<Rightarrow> 'a kfile_scheme res" where
  "pipeclose p wr s =
     bindE (acquire (L_pipe p) s) (\<lambda>s.
     bindE (if wr then wakeup (Ch_nread p) (upd_pipe p (\<lambda>x. x\<lparr>pi_writeopen := False\<rparr>) s)
            else wakeup (Ch_nwrite p) (upd_pipe p (\<lambda>x. x\<lparr>pi_readopen := False\<rparr>) s)) (\<lambda>s.
     if \<not> pi_readopen (pipes s p) \<and> \<not> pi_writeopen (pipes s p)
     then bindE (release (L_pipe p) s) (kfree p)
     else release (L_pipe p) s))"

definition fileclose :: "nat \<Rightarrow> 'a kfile_scheme \<Rightarrow> 'a kfile_scheme res" where
  "fileclose f s =
     bindE (acquire L_ftable s) (\<lambda>s.
     if f_ref (ftable s f) < 1 then Inl (Panic ''fileclose'')
     else let s = upd_file f (\<lambda>x. x\<lparr>f_ref := f_ref x - 1\<rparr>) s in
       if 0 < f_ref (ftable s f) then release L_ftable s
       else bindE (debug (''[FILE] fileclose'' @ nl) [] s) (\<lambda>s.
         let ff = ftable s f;
             s = upd_file f (\<lambda>x. x\<lparr>f_ref := 0, f_type := FD_NONE\<rparr>) s in
         bindE (release L_ftable s) (\<lambda>s.
         if f_type ff = FD_PIPE then pipeclose (f_pipe ff) (f_writable ff) s
         else if f_type ff = FD_INODE \<or> f_type ff = FD_DEVICE then
           bindE (begin_op s) (\<lambda>s.
           bindE (case f_ip ff of None \<Rightarrow> Inl Fault | Some ip \<Rightarrow> iput ip s) end_op)
         else Inr s)))"

section \<open>Pipes\<close>

text \<open>The fields that \<^verbatim>\<open>pipealloc\<close> sets in the new pipe and in the two files.\<close>

definition open_pipe :: "nat \<Rightarrow> nat \<Rightarrow> uint64 \<Rightarrow> 'a kfile_scheme \<Rightarrow> 'a kfile_scheme" where
  "open_pipe f0 f1 p s =
     (let s = upd_pipe p (\<lambda>x. x\<lparr>pi_readopen := True, pi_writeopen := True, pi_nwrite := 0, pi_nread := 0\<rparr>) s;
          s = initlock (L_pipe p) ''pipe'' s;
          s = upd_file f0 (\<lambda>x. x\<lparr>f_type := FD_PIPE, f_readable := True, f_writable := False, f_pipe := p\<rparr>) s in
      upd_file f1 (\<lambda>x. x\<lparr>f_type := FD_PIPE, f_readable := False, f_writable := True, f_pipe := p\<rparr>) s)"

definition pipealloc :: "'a kfile_scheme \<Rightarrow> ((nat \<times> nat) option \<times> 'a kfile_scheme) res" where
  "pipealloc s =
     bindE (filealloc s) (\<lambda>(r0, s).
     case r0 of
       None \<Rightarrow> Inr (None, s)
     | Some f0 \<Rightarrow>
         bindE (filealloc s) (\<lambda>(r1, s).
         case r1 of
           None \<Rightarrow> bindE (fileclose f0 s) (\<lambda>s. Inr (None, s))
         | Some f1 \<Rightarrow>
             bindE (kalloc s) (\<lambda>(p, s).
             if p = 0 then bindE (fileclose f0 s) (\<lambda>s. bindE (fileclose f1 s) (\<lambda>s. Inr (None, s)))
             else Inr (Some (f0, f1), open_pipe f0 f1 p s))))"

text \<open>
  The loops of \<^verbatim>\<open>pipewrite\<close> and \<^verbatim>\<open>piperead\<close> run with the pipe's lock held; \<open>n\<close> bytes are left and \<open>i\<close>
  have been moved. The result \<open>None\<close> is the return of \<open>-1\<close> with the lock released.
\<close>

definition pipe_put :: "uint8 \<Rightarrow> pipe \<Rightarrow> pipe" where
  "pipe_put ch x = x\<lparr>pi_data := (pi_data x)(unat (pi_nwrite x) mod PIPESIZE := ch), pi_nwrite := pi_nwrite x + 1\<rparr>"

definition pipe_get :: "pipe \<Rightarrow> uint8" where
  "pipe_get x = pi_data x (unat (pi_nread x) mod PIPESIZE)"

definition pipe_pop :: "pipe \<Rightarrow> pipe" where
  "pipe_pop x = x\<lparr>pi_nread := pi_nread x + 1\<rparr>"

fun pipewrite_from :: "uint64 \<Rightarrow> nat \<Rightarrow> uint64 \<Rightarrow> nat \<Rightarrow> int \<Rightarrow> 'a kfile_scheme \<Rightarrow> (int option \<times> 'a kfile_scheme) res" where
  "pipewrite_from p pr addr 0 i s = Inr (Some i, s)"
| "pipewrite_from p pr addr (Suc n) i s =
     bindE (if \<not> pi_readopen (pipes s p) then Inr (True, s)
            else bindE (killed pr s) (\<lambda>(k, s). Inr (k \<noteq> 0, s))) (\<lambda>(stop, s).
     if stop then bindE (release (L_pipe p) s) (\<lambda>s. Inr (None, s))
     else if pi_nwrite (pipes s p) = pi_nread (pipes s p) + word_of_nat PIPESIZE
     then bindE (wakeup (Ch_nread p) s) (\<lambda>s. Inl Sleeps)
     else bindE (copyin_bytes (p_pagetable (procs s pr)) addr 1 s) (\<lambda>(r, bs, s).
       if r = -1 then Inr (Some i, s)
       else pipewrite_from p pr (addr + 1) n (i + 1) (upd_pipe p (pipe_put (bs ! 0)) s)))"

definition pipewrite :: "uint64 \<Rightarrow> uint64 \<Rightarrow> int \<Rightarrow> 'a kfile_scheme \<Rightarrow> (int \<times> 'a kfile_scheme) res" where
  "pipewrite p addr n s =
     bindE (curproc s) (\<lambda>(pr, s).
     bindE (acquire (L_pipe p) s) (\<lambda>s.
     bindE (pipewrite_from p pr addr (nat n) 0 s) (\<lambda>(r, s).
     case r of
       None \<Rightarrow> Inr (-1, s)
     | Some i \<Rightarrow> bindE (wakeup (Ch_nread p) s) (\<lambda>s. bindE (release (L_pipe p) s) (\<lambda>s. Inr (i, s))))))"

fun piperead_from :: "uint64 \<Rightarrow> nat \<Rightarrow> uint64 \<Rightarrow> nat \<Rightarrow> int \<Rightarrow> 'a kfile_scheme \<Rightarrow> (int \<times> 'a kfile_scheme) res" where
  "piperead_from p pr addr 0 i s = Inr (i, s)"
| "piperead_from p pr addr (Suc n) i s =
     (if pi_nread (pipes s p) = pi_nwrite (pipes s p) then Inr (i, s)
      else let ch = pipe_get (pipes s p);
               s = upd_pipe p pipe_pop s in
           bindE (copyout_bytes (p_pagetable (procs s pr)) addr [ch] s) (\<lambda>(r, s).
           if r = -1 then Inr (i, s) else piperead_from p pr (addr + 1) n (i + 1) s))"

definition piperead :: "uint64 \<Rightarrow> uint64 \<Rightarrow> int \<Rightarrow> 'a kfile_scheme \<Rightarrow> (int \<times> 'a kfile_scheme) res" where
  "piperead p addr n s =
     bindE (curproc s) (\<lambda>(pr, s).
     bindE (acquire (L_pipe p) s) (\<lambda>s.
     if pi_nread (pipes s p) = pi_nwrite (pipes s p) \<and> pi_writeopen (pipes s p) then
       bindE (killed pr s) (\<lambda>(k, s).
       if k \<noteq> 0 then bindE (release (L_pipe p) s) (\<lambda>s. Inr (-1, s)) else Inl Sleeps)
     else bindE (piperead_from p pr addr (nat n) 0 s) (\<lambda>(i, s).
       bindE (wakeup (Ch_nwrite p) s) (\<lambda>s.
       bindE (release (L_pipe p) s) (\<lambda>s. Inr (i, s))))))"

section \<open>Reading and writing files\<close>

text \<open>The bytes of a \<^verbatim>\<open>struct stat\<close>; \<open>pad\<close> are the four bytes before its 64-bit member.\<close>

definition stat_bytes :: "stat \<Rightarrow> uint8 list \<Rightarrow> uint8 list" where
  "stat_bytes st pad =
     map (le_byte (st_dev st)) [0..<4] @ map (le_byte (st_ino st)) [0..<4] @ map (le_byte (st_type st)) [0..<2] @
     map (le_byte (st_nlink st)) [0..<2] @ pad @ map (le_byte (st_size st)) [0..<8]"

definition filestat :: "nat \<Rightarrow> uint64 \<Rightarrow> 'a kfile_scheme \<Rightarrow> (int \<times> 'a kfile_scheme) res" where
  "filestat f addr s =
     bindE (curproc s) (\<lambda>(p, s).
     let x = ftable s f in
     if f_type x = FD_INODE \<or> f_type x = FD_DEVICE then
       bindE (ilock (f_ip x) s) (\<lambda>s.
       case f_ip x of None \<Rightarrow> Inl Fault
       | Some ip \<Rightarrow>
           let st = stati ip s in
           bindE (iunlock (f_ip x) s) (\<lambda>s.
           bindE (copyout_bytes (p_pagetable (procs s p)) addr (stat_bytes st (load_bytes (mem s) (frame s + 12) 4)) s) (\<lambda>(r, s).
           Inr (if r < 0 then -1 else 0, s))))
     else Inr (-1, s))"

definition dev_in_range :: "uint16 \<Rightarrow> bool" where
  "dev_in_range major \<longleftrightarrow> 0 \<le> sint major \<and> sint major < int NDEV"

definition fileread :: "nat \<Rightarrow> uint64 \<Rightarrow> int \<Rightarrow> 'a kfile_scheme \<Rightarrow> (int \<times> 'a kfile_scheme) res" where
  "fileread f addr n s =
     (let x = ftable s f in
      if \<not> f_readable x then Inr (-1, s)
      else case f_type x of
        FD_PIPE \<Rightarrow> piperead (f_pipe x) addr n s
      | FD_DEVICE \<Rightarrow>
          (if \<not> dev_in_range (f_major x) then Inr (-1, s)
           else case dev_read (devsw s (unat (f_major x))) of
             None \<Rightarrow> Inr (-1, s)
           | Some Fn_consoleread \<Rightarrow> consoleread True addr n s
           | Some Fn_consolewrite \<Rightarrow> consolewrite True addr n s)
      | FD_INODE \<Rightarrow>
          bindE (ilock (f_ip x) s) (\<lambda>s.
          bindE (case f_ip x of None \<Rightarrow> Inl Fault | Some ip \<Rightarrow> readi ip True addr (f_off (ftable s f)) (word_of_int n) s) (\<lambda>(r, s).
          let s = (if 0 < r then upd_file f (\<lambda>x. x\<lparr>f_off := f_off x + word_of_int r\<rparr>) s else s) in
          bindE (iunlock (f_ip x) s) (\<lambda>s. Inr (r, s))))
      | FD_NONE \<Rightarrow> Inl (Panic ''fileread''))"

definition write_max :: nat where
  "write_max = ((MAXOPBLOCKS - 1 - 1 - 2) div 2) * BSIZE"

text \<open>\<open>left\<close> is \<^verbatim>\<open>n - i\<close>; the result is the final value of \<^verbatim>\<open>i\<close>.\<close>

function filewrite_from :: "nat \<Rightarrow> uint64 \<Rightarrow> nat \<Rightarrow> int \<Rightarrow> 'a kfile_scheme \<Rightarrow> (int \<times> 'a kfile_scheme) res" where
  "filewrite_from f addr left i s =
     (if 0 < left then
        let n1 = min left write_max in
        bindE (begin_op s) (\<lambda>s.
        bindE (ilock (f_ip (ftable s f)) s) (\<lambda>s.
        bindE (case f_ip (ftable s f) of None \<Rightarrow> Inl Fault
               | Some ip \<Rightarrow> writei ip True addr (f_off (ftable s f)) (word_of_nat n1) s) (\<lambda>(r, s).
        let s = (if 0 < r then upd_file f (\<lambda>x. x\<lparr>f_off := f_off x + word_of_int r\<rparr>) s else s) in
        bindE (iunlock (f_ip (ftable s f)) s) (\<lambda>s.
        bindE (end_op s) (\<lambda>s.
        if r \<noteq> int n1 then Inr (i, s)
        else filewrite_from f (addr + word_of_nat n1) (left - n1) (i + r) s)))))
      else Inr (i, s))"
  by pat_completeness auto

termination
  by (relation "measure (\<lambda>(_, _, left, _, _). left)") (auto simp: write_max_def MAXOPBLOCKS_def BSIZE_def)

declare filewrite_from.simps [simp del]

definition filewrite :: "nat \<Rightarrow> uint64 \<Rightarrow> int \<Rightarrow> 'a kfile_scheme \<Rightarrow> (int \<times> 'a kfile_scheme) res" where
  "filewrite f addr n s =
     (let x = ftable s f in
      if \<not> f_writable x then Inr (-1, s)
      else case f_type x of
        FD_PIPE \<Rightarrow> pipewrite (f_pipe x) addr n s
      | FD_DEVICE \<Rightarrow>
          (if \<not> dev_in_range (f_major x) then Inr (-1, s)
           else case dev_write (devsw s (unat (f_major x))) of
             None \<Rightarrow> Inr (-1, s)
           | Some Fn_consoleread \<Rightarrow> consoleread True addr n s
           | Some Fn_consolewrite \<Rightarrow> consolewrite True addr n s)
      | FD_INODE \<Rightarrow>
          bindE (filewrite_from f addr (nat n) 0 s) (\<lambda>(i, s). Inr (if i = n then n else -1, s))
      | FD_NONE \<Rightarrow> Inl (Panic ''filewrite''))"

definition fileprint_metadata :: "nat \<Rightarrow> 'a kfile_scheme \<Rightarrow> 'a kfile_scheme res" where
  "fileprint_metadata f s =
     (let x = ftable s f in
      debug ''tp: %d, ref: %d, readable: %d, writable: %d, pipe: %p, ip: %p, off: %d, major: %d''
        [VInt (case f_type x of FD_NONE \<Rightarrow> 0 | FD_PIPE \<Rightarrow> 1 | FD_INODE \<Rightarrow> 2 | FD_DEVICE \<Rightarrow> 3), VInt (word_of_int (f_ref x)),
         VInt (if f_readable x then 1 else 0), VInt (if f_writable x then 1 else 0), VLong (f_pipe x),
         VLong (case f_ip x of None \<Rightarrow> 0 | Some ip \<Rightarrow> word_of_nat ip), VInt (f_off x), VInt (scast (f_major x))] s)"

section \<open>Pipes as queues\<close>

abbreviation pipe_inv :: "pipe \<Rightarrow> bool" where
  "pipe_inv x \<equiv> unat (pi_nwrite x - pi_nread x) \<le> PIPESIZE"

abbreviation pipe_queue :: "pipe \<Rightarrow> uint8 list" where
  "pipe_queue x \<equiv> ring_queue PIPESIZE (pi_data x) (pi_nread x) (pi_nwrite x)"

lemma pipe_size: "PIPESIZE dvd 2 ^ LENGTH(32)" "PIPESIZE < 2 ^ LENGTH(32)"
  by (simp_all add: PIPESIZE_def dvd_def)

interpretation pq: fifo pipe_inv pipe_queue PIPESIZE pipe_put pipe_get pipe_pop
proof
  show "length (pipe_queue x) \<le> PIPESIZE" if "pipe_inv x" for x using that by simp
  show "pipe_inv (pipe_put c x) \<and> pipe_queue (pipe_put c x) = pipe_queue x @ [c]"
    if "pipe_inv x" "length (pipe_queue x) < PIPESIZE" for c x
    using that ring_put(1) [OF pipe_size, where w = "pi_nwrite x" and r = "pi_nread x" and f = "pi_data x" and x = c]
      ring_put(2) [OF pipe_size, where w = "pi_nwrite x" and r = "pi_nread x"] by (simp add: pipe_put_def)
  show "pipe_inv (pipe_pop x) \<and> pipe_queue x = pipe_get x # pipe_queue (pipe_pop x)"
    if "pipe_inv x" "pipe_queue x \<noteq> []" for x
  proof -
    have "pi_nread x \<noteq> pi_nwrite x" using that(2) by auto
    from ring_pop(1) [OF pipe_size(1) this, of "pi_data x"] ring_pop(2) [OF pipe_size(1) this] show ?thesis
      using that(1) by (simp add: pipe_pop_def pipe_get_def)
  qed
qed

lemma pipe_full: "pipe_inv x \<Longrightarrow> length (pipe_queue x) < PIPESIZE \<longleftrightarrow> pi_nwrite x \<noteq> pi_nread x + word_of_nat PIPESIZE"
proof -
  assume "pipe_inv x"
  have "pi_nwrite x = pi_nread x + word_of_nat PIPESIZE \<longleftrightarrow> pi_nwrite x - pi_nread x = word_of_nat PIPESIZE" by (auto simp: algebra_simps)
  also have "\<dots> \<longleftrightarrow> unat (pi_nwrite x - pi_nread x) = PIPESIZE" by (simp add: word_unat_eq_iff PIPESIZE_def)
  finally show ?thesis using \<open>pipe_inv x\<close> by auto
qed

lemma mframe_kfile:
  assumes "mframe s s'" shows "pipes s' = pipes s" "mem s' = mem s" "ftable s' = ftable s"
  by (subst mframe_eq [OF assms], simp)+

lemma pipewrite_from_appends:
  assumes "pipewrite_from p pr addr n i s = Inr (r, s')" "pipe_inv (pipes s p)"
  defines "pt \<equiv> p_pagetable (procs s pr)"
  shows "\<exists>bs. pipe_inv (pipes s' p) \<and> pipe_queue (pipes s' p) = pipe_queue (pipes s p) @ bs \<and>
    map Some bs = map (\<lambda>j. user_byte pt (addr + word_of_nat j) s) [0..<length bs] \<and>
    (r = None \<or> r = Some (i + int (length bs)) \<and> length bs \<le> n \<and> (length bs < n \<longrightarrow> user_byte pt (addr + word_of_nat (length bs)) s = None))"
  using assms(1,2) unfolding pt_def
proof (induction n arbitrary: addr i s)
  case 0
  then show ?case by (intro exI [of _ "[]"]) auto
next
  case (Suc n)
  let ?user = "\<lambda>va s. user_byte (p_pagetable (procs s pr)) va s"
  obtain stop s1 where 1: "(if \<not> pi_readopen (pipes s p) then Inr (True, s)
      else bindE (killed pr s) (\<lambda>(k, s). Inr (k \<noteq> 0, s))) = Inr (stop, s1)"
    using Suc.prems(1) by (auto simp: res_iff split: if_splits)
  have f1: "pipes s1 = pipes s" "mem s1 = mem s" "procs s1 = procs s"
    using 1 by (auto simp: res_iff killed_procs dest: mframe_kfile [OF killed_frame] split: if_splits)
  have u1: "?user va s1 = ?user va s" for va using user_byte_mem [OF f1(2)] f1(3) by simp
  show ?case
  proof (cases stop)
    case True
    then obtain s2 where "release (L_pipe p) s1 = Inr s2" "r = None" "s' = s2"
      using Suc.prems(1) 1 by (auto simp: res_iff)
    then show ?thesis using mframe_kfile(1) [OF release_frame, of "L_pipe p" s1 s2] f1 Suc.prems(2) by (intro exI [of _ "[]"]) auto
  next
    case False
    have room: "pi_nwrite (pipes s p) \<noteq> pi_nread (pipes s p) + word_of_nat PIPESIZE"
      using Suc.prems(1) 1 False f1 by (auto simp: res_iff split: if_splits)
    show ?thesis
    proof (cases "?user addr s")
      case None
      then have "r = Some i" "s' = s1" using Suc.prems(1) 1 False room f1 u1 by (auto simp: copyin_one [simplified])
      then show ?thesis using None f1 Suc.prems(2) by (intro exI [of _ "[]"]) auto
    next
      case (Some b)
      let ?s2 = "upd_pipe p (pipe_put b) s1"
      have 2: "pipewrite_from p pr (addr + 1) n (i + 1) ?s2 = Inr (r, s')"
        using Suc.prems(1) 1 False room f1 u1 Some by (auto simp: copyin_one [simplified])
      have q: "pipe_inv (pipes ?s2 p)" "pipe_queue (pipes ?s2 p) = pipe_queue (pipes s p) @ [b]"
        using pq.put [OF Suc.prems(2), of b] pipe_full [OF Suc.prems(2)] room f1 by (simp_all add: upd_pipe_def)
      have m2: "mem ?s2 = mem s" "procs ?s2 = procs s" using f1 by (simp_all add: upd_pipe_def)
      have u2: "?user va ?s2 = ?user va s" for va using user_byte_mem [OF m2(1)] m2(2) by simp
      obtain bs where bs: "pipe_inv (pipes s' p)" "pipe_queue (pipes s' p) = (pipe_queue (pipes s p) @ [b]) @ bs"
        "map Some bs = map (\<lambda>j. ?user (addr + 1 + word_of_nat j) s) [0..<length bs]"
        "r = None \<or> r = Some (i + 1 + int (length bs)) \<and> length bs \<le> n \<and> (length bs < n \<longrightarrow> ?user (addr + 1 + word_of_nat (length bs)) s = None)"
        using Suc.IH [OF 2 q(1)] unfolding q(2) u2 by blast
      have "map Some (b # bs) = map (\<lambda>j. ?user (addr + word_of_nat j) s) [0..<length (b # bs)]"
        using bs(3) Some by (simp add: upt_conv_Cons del: upt_Suc flip: map_Suc_upt) (simp add: add.assoc)
      then show ?thesis using bs(1,2,4) by (intro exI [of _ "b # bs"]) (auto simp: add.assoc)
    qed
  qed
qed


text \<open>A machine at rest with one process that has one readable page, and an open pipe.\<close>

definition demo_mem :: memory where
  "demo_mem = (store64 0x3000 (PA2PTE 0x4000 OR PTE_V OR PTE_U OR PTE_R) (store64 0x2000 (PA2PTE 0x3000 OR PTE_V)
     (store64 0x1000 (PA2PTE 0x2000 OR PTE_V) (\<lambda>_. 0))))(0x4005 := 65)"

definition demo_pipe :: pipe where
  "demo_pipe = \<lparr>pi_data = (\<lambda>_. 0), pi_nread = - 1, pi_nwrite = - 1, pi_readopen = True, pi_writeopen = True\<rparr>"

definition demo_virtq :: virtq where
  "demo_virtq = \<lparr>desc = (\<lambda>_. zero_desc), avail_idx = 0, avail_ring = (\<lambda>_. 0), used_idx = 0, used_ring = (\<lambda>_. 0),
     ops = (\<lambda>_. \<lparr>rq_type = 0, rq_reserved = 0, rq_sector = 0\<rparr>), status = (\<lambda>_. 0), bdata = (\<lambda>_ _. 0), platter = (\<lambda>_. 0), seen = 0\<rparr>"

definition demo_kernel :: kfile where
  "demo_kernel = \<lparr>hart = 0, sie = (\<lambda>_. False), cpus = (\<lambda>_. zero_cpu\<lparr>cpu_proc := Some 0\<rparr>), locks = (\<lambda>_. zero_lock),
     procs = (\<lambda>_. zero_proc)(0 := zero_proc\<lparr>p_state := RUNNING, p_pid := 1, p_pagetable := 0x1000, p_sz := 4096\<rparr>),
     mem = demo_mem, freelist = 0, kernel_end = 0, kernel_pagetable = 0, etext = 0, trampoline = 0, satp = (\<lambda>_. 0),
     hregs = (\<lambda>_. zero_context), nextpid = 2, initproc = Some 0, sleeplocks = (\<lambda>_. zero_sleeplock), ticks = 0, frame = 0,
     uart_log = [], uart_dev = (\<lambda>_ _. 0), uart_tx_buf = (\<lambda>_. 0), uart_tx_w = 0, uart_tx_r = 0, panicked = False,
     pr_locking = False, debug_mode = False, cons_buf = (\<lambda>_. 0), cons_r = 0, cons_w = 0, cons_e = 0,
     devsw = (\<lambda>_. \<lparr>dev_read = None, dev_write = None\<rparr>),
     vq = demo_virtq, device = id, desc_free = (\<lambda>_. True), drv_used_idx = 0, info_b = (\<lambda>_. None),
     bufs = (\<lambda>_. \<lparr>b_valid = False, b_disk = False, b_dev = 0, b_blockno = 0, b_refcnt = 0\<rparr>),
     blist = (\<lambda>_. \<lparr>prev = 0, next = 0\<rparr>), vq_pages = [], mmio_writes = [], mmio_read = (\<lambda>_ _. 0),
     log_start = 2, log_size = 30, outstanding = 0, committing = False, log_dev = 1, lh_n = 0, lh_block = (\<lambda>_. 0),
     sb = \<lparr>sb_magic = FSMAGIC, sb_size = 2000, sb_nblocks = 1954, sb_ninodes = 200, sb_nlog = 30, sb_logstart = 2,
       sb_inodestart = 32, sb_bmapstart = 45\<rparr>,
     itable = (\<lambda>_. zero_inode), ftable = (\<lambda>_. zero_file), pipes = (\<lambda>_. demo_pipe)\<rparr>"

lemma demo_runs: "runs 0 demo_kernel"
  by (simp add: demo_kernel_def runs_def calm_def section_defs zero_cpu_def zero_lock_def fun_eq_iff)

lemma demo_reads: "mem s = demo_mem \<Longrightarrow> user_byte 0x1000 5 s = Some 65" for s :: kfile
proof -
  have "user_byte 0x1000 5 demo_kernel = Some 65" unfolding demo_kernel_def demo_mem_def by code_simp
  moreover assume "mem s = demo_mem"
  ultimately show ?thesis using user_byte_mem [of s demo_kernel] by (simp add: demo_kernel_def)
qed

lemma demo_fields:
  "p_killed (procs demo_kernel 0) = 0" "p_pagetable (procs demo_kernel 0) = 0x1000" "pipes demo_kernel = (\<lambda>_. demo_pipe)"
  "mem demo_kernel = demo_mem"
  by (simp_all add: demo_kernel_def zero_proc_def)

lemma demo_pipewrite: "\<exists>s'. pipewrite p 5 1 demo_kernel = Inr (1, s')"
  using runsD [OF demo_runs] demo_fields
  by (simp add: pipewrite_def curproc_runs [OF demo_runs] critical killed_def copyin_one [simplified] demo_reads demo_pipe_def PIPESIZE_def
      upd_pipe_def wakeup_eq Let_def)


end
