(* ===== verification/Proc.thy ===== *)
theory Proc imports File begin

text \<open>
  Process creation and destruction, the rest of \<^verbatim>\<open>kernel/proc.c\<close>: \<^verbatim>\<open>allocproc\<close>, \<^verbatim>\<open>fork\<close>, \<^verbatim>\<open>exit\<close>, \<^verbatim>\<open>wait\<close>
  and what they use. A process is an index into the process table and its trapframe a page of
  physical memory. \<^verbatim>\<open>exit\<close> ends with the switch to the scheduler.
\<close>

unbundle bit_operations_syntax

section \<open>State\<close>

text \<open>
  \<open>sym\<close> gives the address of a symbol of the kernel image, and \<open>fork_first\<close> is the static variable
  of \<^verbatim>\<open>forkret\<close>. The supervisor registers of each hart that the trap code uses follow.
\<close>

record kproc = kfile +
  sym :: "string \<Rightarrow> uint64"
  fork_first :: bool
  stvec :: "nat \<Rightarrow> uint64"
  sepc :: "nat \<Rightarrow> uint64"
  scause :: "nat \<Rightarrow> uint64"
  stval :: "nat \<Rightarrow> uint64"
  spp :: "nat \<Rightarrow> bool"
  spie :: "nat \<Rightarrow> bool"
  stimecmp :: "nat \<Rightarrow> uint64"
  time :: uint64
  plic_writes :: "(uint64 \<times> uint32) list"
  plic_irq :: "(uint64 \<times> uint32) list \<Rightarrow> nat \<Rightarrow> uint32"

section \<open>Trapframes\<close>

definition tf_kernel_satp :: uint64 where "tf_kernel_satp = 0"
definition tf_kernel_sp :: uint64 where "tf_kernel_sp = 8"
definition tf_kernel_trap :: uint64 where "tf_kernel_trap = 16"
definition tf_epc :: uint64 where "tf_epc = 24"
definition tf_kernel_hartid :: uint64 where "tf_kernel_hartid = 32"
definition tf_sp :: uint64 where "tf_sp = 48"
definition tf_a0 :: uint64 where "tf_a0 = 112"
definition tf_a1 :: uint64 where "tf_a1 = 120"
definition tf_a7 :: uint64 where "tf_a7 = 168"
definition sizeof_trapframe :: nat where "sizeof_trapframe = 288"

definition tf_get :: "nat \<Rightarrow> uint64 \<Rightarrow> 'a phys_scheme \<Rightarrow> uint64" where
  "tf_get p k s = load64 (mem s) (p_trapframe (procs s p) + k)"

definition tf_set :: "nat \<Rightarrow> uint64 \<Rightarrow> uint64 \<Rightarrow> 'a phys_scheme \<Rightarrow> 'a phys_scheme" where
  "tf_set p k v s = s\<lparr>mem := store64 (p_trapframe (procs s p) + k) v (mem s)\<rparr>"

text \<open>A character array given by its bytes, and \<^verbatim>\<open>safestrcpy\<close> into a process name.\<close>

definition chars_of :: "uint8 list \<Rightarrow> cstring" where
  "chars_of bs = (\<lambda>i. if i < length bs then bs ! i else 0)"

definition set_name :: "nat \<Rightarrow> uint8 list \<Rightarrow> 'a machine_scheme \<Rightarrow> 'a machine_scheme" where
  "set_name p nm s =
     upd_proc p (\<lambda>x. x\<lparr>p_name := map (safestrcpy (chars_of (p_name x)) (chars_of nm) 16) [0..<16]\<rparr>) s"

definition string_bytes :: "string \<Rightarrow> uint8 list" where
  "string_bytes cs = map of_char cs"

section \<open>Page tables of processes\<close>

text \<open>The page-table trees of \<^verbatim>\<open>walk\<close> have three levels, so three nested calls of \<^verbatim>\<open>freewalk\<close> reach all of one.\<close>

definition pt_depth :: nat where
  "pt_depth = 3"

definition proc_pagetable :: "nat \<Rightarrow> 'a kvm_scheme \<Rightarrow> (uint64 \<times> 'a kvm_scheme) res" where
  "proc_pagetable p s =
     bindE (uvmcreate s) (\<lambda>(pagetable, s).
     if pagetable = 0 then Inr (0, s)
     else bindE (mappages pagetable TRAMPOLINE PGSIZE (trampoline s) (ucast (PTE_R OR PTE_X)) s) (\<lambda>(r, s).
       if r < 0 then bindE (uvmfree pt_depth pagetable 0 s) (\<lambda>s. Inr (0, s))
       else bindE (mappages pagetable TRAPFRAME PGSIZE (p_trapframe (procs s p)) (ucast (PTE_R OR PTE_W)) s) (\<lambda>(r, s).
         if r < 0 then
           bindE (uvmunmap pagetable TRAMPOLINE 1 False s) (\<lambda>s.
           bindE (uvmfree pt_depth pagetable 0 s) (\<lambda>s. Inr (0, s)))
         else Inr (pagetable, s))))"

definition proc_freepagetable :: "uint64 \<Rightarrow> uint64 \<Rightarrow> 'a phys_scheme \<Rightarrow> 'a phys_scheme res" where
  "proc_freepagetable pagetable sz s =
     bindE (uvmunmap pagetable TRAMPOLINE 1 False s) (\<lambda>s.
     bindE (uvmunmap pagetable TRAPFRAME 1 False s) (uvmfree pt_depth pagetable sz))"

section \<open>Allocation\<close>

definition freeproc :: "nat \<Rightarrow> 'a phys_scheme \<Rightarrow> 'a phys_scheme res" where
  "freeproc p s =
     bindE (if p_trapframe (procs s p) \<noteq> 0 then kfree (p_trapframe (procs s p)) s else Inr s) (\<lambda>s.
     let s = upd_proc p (\<lambda>x. x\<lparr>p_trapframe := 0\<rparr>) s in
     bindE (if p_pagetable (procs s p) \<noteq> 0 then proc_freepagetable (p_pagetable (procs s p)) (p_sz (procs s p)) s else Inr s) (\<lambda>s.
     Inr (upd_proc p (\<lambda>x. x\<lparr>p_pagetable := 0, p_sz := 0, p_pid := 0, p_parent := None, p_name := (p_name x)[0 := 0],
       p_chan := None, p_killed := 0, p_xstate := 0, p_state := UNUSED\<rparr>) s)))"

fun find_unused :: "nat list \<Rightarrow> 'a machine_scheme \<Rightarrow> (nat option \<times> 'a machine_scheme) res" where
  "find_unused [] s = Inr (None, s)"
| "find_unused (p # ps) s =
     bindE (acquire (L_proc p) s) (\<lambda>s.
     if p_state (procs s p) = UNUSED then Inr (Some p, s)
     else bindE (release (L_proc p) s) (find_unused ps))"

definition allocproc :: "'a kproc_scheme \<Rightarrow> (nat option \<times> 'a kproc_scheme) res" where
  "allocproc s =
     bindE (find_unused [0..<NPROC] s) (\<lambda>(r, s).
     case r of
       None \<Rightarrow> Inr (None, s)
     | Some p \<Rightarrow>
         bindE (allocpid s) (\<lambda>(pid, s).
         let s = upd_proc p (\<lambda>x. x\<lparr>p_pid := pid, p_state := USED\<rparr>) s in
         bindE (kalloc s) (\<lambda>(tf, s).
         let s = upd_proc p (\<lambda>x. x\<lparr>p_trapframe := tf\<rparr>) s in
         if tf = 0 then
           bindE (freeproc p s) (\<lambda>s. bindE (release (L_proc p) s) (\<lambda>s. Inr (None, s)))
         else bindE (proc_pagetable p s) (\<lambda>(pt, s).
           let s = upd_proc p (\<lambda>x. x\<lparr>p_pagetable := pt\<rparr>) s in
           if pt = 0 then
             bindE (freeproc p s) (\<lambda>s. bindE (release (L_proc p) s) (\<lambda>s. Inr (None, s)))
           else Inr (Some p, upd_proc p (\<lambda>x. x\<lparr>p_context := zero_context\<lparr>ctx_ra := sym s ''forkret'',
                       ctx_sp := p_kstack x + PGSIZE\<rparr>\<rparr>) s)))))"

text \<open>The first program, at the address \<^verbatim>\<open>initcode\<close> of the kernel image.\<close>

definition initcode :: "uint8 list" where
  "initcode =
     [0x17, 0x05, 0x00, 0x00, 0x13, 0x05, 0x45, 0x02,
      0x97, 0x05, 0x00, 0x00, 0x93, 0x85, 0x35, 0x02,
      0x93, 0x08, 0x70, 0x00, 0x73, 0x00, 0x00, 0x00,
      0x93, 0x08, 0x20, 0x00, 0x73, 0x00, 0x00, 0x00,
      0xef, 0xf0, 0x9f, 0xff, 0x2f, 0x69, 0x6e, 0x69,
      0x74, 0x00, 0x00, 0x24, 0x00, 0x00, 0x00, 0x00,
      0x00, 0x00, 0x00, 0x00]"

definition userinit :: "'a kproc_scheme \<Rightarrow> 'a kproc_scheme res" where
  "userinit s =
     bindE (allocproc s) (\<lambda>(r, s).
     let s = s\<lparr>initproc := r\<rparr> in
     case r of
       None \<Rightarrow> Inl Fault
     | Some p \<Rightarrow>
         bindE (uvmfirst (p_pagetable (procs s p)) (sym s ''initcode'') (word_of_nat (length initcode)) s) (\<lambda>s.
         let s = upd_proc p (\<lambda>x. x\<lparr>p_sz := PGSIZE\<rparr>) s;
             s = tf_set p tf_epc 0 s;
             s = tf_set p tf_sp PGSIZE s;
             s = set_name p (string_bytes ''initcode'') s in
         bindE (namei [slash] s) (\<lambda>(ip, s).
         release (L_proc p) (upd_proc p (\<lambda>x. x\<lparr>p_cwd := ip, p_state := RUNNABLE\<rparr>) s))))"

definition growproc :: "int \<Rightarrow> 'a kproc_scheme \<Rightarrow> (int \<times> 'a kproc_scheme) res" where
  "growproc n s =
     bindE (curproc s) (\<lambda>(p, s).
     let sz = p_sz (procs s p); pt = p_pagetable (procs s p) in
     if 0 < n then
       bindE (uvmalloc pt sz (sz + word_of_int n) (ucast PTE_W) s) (\<lambda>(sz, s).
       if sz = 0 then Inr (-1, s) else Inr (0, upd_proc p (\<lambda>x. x\<lparr>p_sz := sz\<rparr>) s))
     else if n < 0 then
       bindE (uvmdealloc pt sz (sz + word_of_int n) s) (\<lambda>(sz, s). Inr (0, upd_proc p (\<lambda>x. x\<lparr>p_sz := sz\<rparr>) s))
     else Inr (0, upd_proc p (\<lambda>x. x\<lparr>p_sz := sz\<rparr>) s))"

section \<open>Fork\<close>

definition dup_file :: "nat \<Rightarrow> nat \<Rightarrow> nat \<Rightarrow> 'a kproc_scheme \<Rightarrow> 'a kproc_scheme res" where
  "dup_file p np i s =
     (case p_ofile (procs s p) i of
        None \<Rightarrow> Inr s
      | Some f \<Rightarrow> bindE (filedup f s) (\<lambda>(f, s). Inr (upd_proc np (\<lambda>x. x\<lparr>p_ofile := (p_ofile x)(i := Some f)\<rparr>) s)))"

definition fork :: "'a kproc_scheme \<Rightarrow> (int \<times> 'a kproc_scheme) res" where
  "fork s =
     bindE (curproc s) (\<lambda>(p, s).
     bindE (allocproc s) (\<lambda>(r, s).
     case r of
       None \<Rightarrow> Inr (-1, s)
     | Some np \<Rightarrow>
         bindE (uvmcopy (p_pagetable (procs s p)) (p_pagetable (procs s np)) (p_sz (procs s p)) s) (\<lambda>(c, s).
         if c < 0 then
           bindE (freeproc np s) (\<lambda>s. bindE (release (L_proc np) s) (\<lambda>s. Inr (-1, s)))
         else
           let s = upd_proc np (\<lambda>x. x\<lparr>p_sz := p_sz (procs s p)\<rparr>) s;
               s = s\<lparr>mem := store_bytes (p_trapframe (procs s np))
                       (load_bytes (mem s) (p_trapframe (procs s p)) sizeof_trapframe) (mem s)\<rparr>;
               s = tf_set np tf_a0 0 s in
           bindE (forE (dup_file p np) [0..<NOFILE] s) (\<lambda>s.
           bindE (case p_cwd (procs s p) of None \<Rightarrow> Inl Fault | Some ip \<Rightarrow> idup ip s) (\<lambda>(ip, s).
           let s = upd_proc np (\<lambda>x. x\<lparr>p_cwd := Some ip\<rparr>) s;
               s = set_name np (p_name (procs s p)) s;
               pid = p_pid (procs s np) in
           bindE (release (L_proc np) s) (\<lambda>s.
           bindE (acquire L_wait s) (\<lambda>s.
           bindE (release L_wait (upd_proc np (\<lambda>x. x\<lparr>p_parent := Some p\<rparr>) s)) (\<lambda>s.
           bindE (acquire (L_proc np) s) (\<lambda>s.
           bindE (release (L_proc np) (upd_proc np (\<lambda>x. x\<lparr>p_state := RUNNABLE\<rparr>) s)) (\<lambda>s.
           Inr (pid, s))))))))))) "

section \<open>Exit and wait\<close>

text \<open>A wakeup of a process pointer; nothing sleeps on the null pointer.\<close>

definition wakeup_proc :: "nat option \<Rightarrow> 'a machine_scheme \<Rightarrow> 'a machine_scheme res" where
  "wakeup_proc q s = (case q of None \<Rightarrow> Inr s | Some q \<Rightarrow> wakeup (Ch_proc q) s)"

definition reparent :: "nat \<Rightarrow> 'a ksched_scheme \<Rightarrow> 'a ksched_scheme res" where
  "reparent p s =
     forE (\<lambda>pp s.
       if p_parent (procs s pp) = Some p
       then wakeup_proc (initproc s) (upd_proc pp (\<lambda>x. x\<lparr>p_parent := initproc s\<rparr>) s)
       else Inr s) [0..<NPROC] s"

definition close_fd :: "nat \<Rightarrow> nat \<Rightarrow> 'a kproc_scheme \<Rightarrow> 'a kproc_scheme res" where
  "close_fd p fd s =
     (case p_ofile (procs s p) fd of
        None \<Rightarrow> Inr s
      | Some f \<Rightarrow> bindE (fileclose f s) (\<lambda>s. Inr (upd_proc p (\<lambda>x. x\<lparr>p_ofile := (p_ofile x)(fd := None)\<rparr>) s)))"

definition exit_out :: "int \<Rightarrow> 'a kproc_scheme \<Rightarrow> (bool \<times> 'a kproc_scheme) res" where
  "exit_out st s =
     bindE (curproc s) (\<lambda>(p, s).
     if initproc s = Some p then Inl (Panic ''init exiting'')
     else bindE (forE (close_fd p) [0..<NOFILE] s) (\<lambda>s.
       bindE (begin_op s) (\<lambda>s.
       bindE (case p_cwd (procs s p) of None \<Rightarrow> Inl Fault | Some ip \<Rightarrow> iput ip s) (\<lambda>s.
       bindE (end_op s) (\<lambda>s.
       let s = upd_proc p (\<lambda>x. x\<lparr>p_cwd := None\<rparr>) s in
       bindE (acquire L_wait s) (\<lambda>s.
       bindE (reparent p s) (\<lambda>s.
       bindE (wakeup_proc (p_parent (procs s p)) s) (\<lambda>s.
       bindE (acquire (L_proc p) s) (\<lambda>s.
       let s = upd_proc p (\<lambda>x. x\<lparr>p_xstate := st, p_state := ZOMBIE\<rparr>) s in
       bindE (release L_wait s) sched_out)))))))))"

text \<open>
  The scan of \<^verbatim>\<open>wait\<close>: \<open>Inl\<close> of the value it returns, with the locks released, or \<open>Inr\<close> of the final
  \<^verbatim>\<open>havekids\<close>.
\<close>

fun wait_scan :: "nat \<Rightarrow> uint64 \<Rightarrow> nat list \<Rightarrow> bool \<Rightarrow> 'a kproc_scheme \<Rightarrow> ((int + bool) \<times> 'a kproc_scheme) res" where
  "wait_scan p addr [] havekids s = Inr (Inr havekids, s)"
| "wait_scan p addr (pp # pps) havekids s =
     (if p_parent (procs s pp) = Some p then
        bindE (acquire (L_proc pp) s) (\<lambda>s.
        if p_state (procs s pp) = ZOMBIE then
          let pid = p_pid (procs s pp) in
          bindE (if addr \<noteq> 0 then copyout_bytes (p_pagetable (procs s p)) addr
                     (map (le_byte (word_of_int (p_xstate (procs s pp)) :: uint32)) [0..<4]) s
                 else Inr (0, s)) (\<lambda>(r, s).
          if r < 0 then
            bindE (release (L_proc pp) s) (\<lambda>s. bindE (release L_wait s) (\<lambda>s. Inr (Inl (-1), s)))
          else
            bindE (freeproc pp s) (\<lambda>s.
            bindE (release (L_proc pp) s) (\<lambda>s. bindE (release L_wait s) (\<lambda>s. Inr (Inl pid, s)))))
        else bindE (release (L_proc pp) s) (wait_scan p addr pps True))
      else wait_scan p addr pps havekids s)"

definition wait :: "uint64 \<Rightarrow> 'a kproc_scheme \<Rightarrow> (int \<times> 'a kproc_scheme) res" where
  "wait addr s =
     bindE (curproc s) (\<lambda>(p, s).
     bindE (acquire L_wait s) (\<lambda>s.
     bindE (wait_scan p addr [0..<NPROC] False s) (\<lambda>(r, s).
     case r of
       Inl v \<Rightarrow> Inr (v, s)
     | Inr havekids \<Rightarrow>
         bindE (if \<not> havekids then Inr (True, s) else bindE (killed p s) (\<lambda>(k, s). Inr (k \<noteq> 0, s))) (\<lambda>(stop, s).
         if stop then bindE (release L_wait s) (\<lambda>s. Inr (-1, s)) else Inl Sleeps))))"

end
