(* ===== verification/Exec.thy ===== *)
theory Exec imports Proc begin

text \<open>
  Loading a program, \<^verbatim>\<open>kernel/exec.c\<close>: the ELF headers of \<^verbatim>\<open>kernel/elf.h\<close>, the segments, the user stack with
  the arguments, and the exchange of the address space. The jump to \<^verbatim>\<open>bad\<close> is the result \<open>None\<close> of a
  stage.
\<close>

unbundle bit_operations_syntax

section \<open>ELF headers\<close>

definition ELF_MAGIC :: uint32 where "ELF_MAGIC = 0x464C457F"
definition ELF_PROG_LOAD :: uint32 where "ELF_PROG_LOAD = 1"
definition sizeof_elfhdr :: nat where "sizeof_elfhdr = 64"
definition sizeof_proghdr :: nat where "sizeof_proghdr = 56"

record elfhdr =
  e_magic :: uint32
  e_entry :: uint64
  e_phoff :: uint64
  e_phnum :: uint16

record proghdr =
  ph_type :: uint32
  ph_flags :: uint32
  ph_off :: uint64
  ph_vaddr :: uint64
  ph_filesz :: uint64
  ph_memsz :: uint64

definition elfhdr_at :: "memory \<Rightarrow> uint64 \<Rightarrow> elfhdr" where
  "elfhdr_at m a = \<lparr>e_magic = get32 (chars_at m a) 0, e_entry = load64 m (a + 24), e_phoff = load64 m (a + 32),
     e_phnum = get16 (chars_at m a) 56\<rparr>"

definition proghdr_at :: "memory \<Rightarrow> uint64 \<Rightarrow> proghdr" where
  "proghdr_at m a = \<lparr>ph_type = get32 (chars_at m a) 0, ph_flags = get32 (chars_at m a) 4, ph_off = load64 m (a + 8),
     ph_vaddr = load64 m (a + 16), ph_filesz = load64 m (a + 32), ph_memsz = load64 m (a + 40)\<rparr>"

definition flags2perm :: "uint32 \<Rightarrow> uint32" where
  "flags2perm flags =
     (let perm = (if flags AND 1 \<noteq> 0 then ucast PTE_X else 0) in
      if flags AND 2 \<noteq> 0 then perm OR ucast PTE_W else perm)"

section \<open>Segments\<close>

text \<open>
  The index \<^verbatim>\<open>i\<close> is a 32-bit integer; a segment so long that it wraps round makes the loop start over.
\<close>

function loadseg_from :: "uint64 \<Rightarrow> uint64 \<Rightarrow> nat \<Rightarrow> uint32 \<Rightarrow> uint32 \<Rightarrow> nat \<Rightarrow> 'a kproc_scheme \<Rightarrow> (int \<times> 'a kproc_scheme) res" where
  "loadseg_from pagetable va ip offset sz i s =
     (if i < unat sz then
        bindE (walkaddr pagetable (va + word_of_nat i) s) (\<lambda>(pa, s).
        if pa = 0 then Inl (Panic ''loadseg: address should exist'')
        else let n = min (unat sz - i) 4096 in
          bindE (readi ip False pa (offset + word_of_nat i) (word_of_nat n) s) (\<lambda>(r, s).
          if r \<noteq> int n then Inr (-1, s)
          else loadseg_from pagetable va ip offset sz (i + 4096) s))
      else if 2 ^ 32 \<le> i then Inl Spins
      else Inr (0, s))"
  by pat_completeness auto

termination
  by (relation "measure (\<lambda>(_, _, _, _, sz, i, _). unat sz - i)") auto

declare loadseg_from.simps [simp del]

definition loadseg :: "uint64 \<Rightarrow> uint64 \<Rightarrow> nat \<Rightarrow> uint32 \<Rightarrow> uint32 \<Rightarrow> 'a kproc_scheme \<Rightarrow> (int \<times> 'a kproc_scheme) res" where
  "loadseg pagetable va ip offset sz s = loadseg_from pagetable va ip offset sz 0 s"

text \<open>
  The loop over the program headers. \<^verbatim>\<open>elf\<close> is at the frame and \<^verbatim>\<open>ph\<close> behind it. The result is whether the
  loop was left normally, and \<^verbatim>\<open>sz\<close>.
\<close>

fun exec_load :: "uint64 \<Rightarrow> nat \<Rightarrow> nat \<Rightarrow> uint32 \<Rightarrow> uint64 \<Rightarrow> 'a kproc_scheme \<Rightarrow> (bool \<times> uint64 \<times> 'a kproc_scheme) res" where
  "exec_load pagetable ip 0 off sz s = Inr (True, sz, s)"
| "exec_load pagetable ip (Suc n) off sz s =
     (let pha = frame s + word_of_nat sizeof_elfhdr in
      bindE (readi ip False pha off (word_of_nat sizeof_proghdr) s) (\<lambda>(r, s).
      let ph = proghdr_at (mem s) pha; off' = off + word_of_nat sizeof_proghdr in
      if r \<noteq> int sizeof_proghdr then Inr (False, sz, s)
      else if ph_type ph \<noteq> ELF_PROG_LOAD then exec_load pagetable ip n off' sz s
      else if ph_memsz ph < ph_filesz ph then Inr (False, sz, s)
      else if ph_vaddr ph + ph_memsz ph < ph_vaddr ph then Inr (False, sz, s)
      else if ph_vaddr ph mod PGSIZE \<noteq> 0 then Inr (False, sz, s)
      else bindE (uvmalloc pagetable sz (ph_vaddr ph + ph_memsz ph) (flags2perm (ph_flags ph)) s) (\<lambda>(sz1, s).
        if sz1 = 0 then Inr (False, sz, s)
        else bindE (loadseg pagetable (ph_vaddr ph) ip (ucast (ph_off ph)) (ucast (ph_filesz ph)) s) (\<lambda>(r, s).
          if r < 0 then Inr (False, sz1, s) else exec_load pagetable ip n off' sz1 s))))"

section \<open>Arguments\<close>

text \<open>\<open>ustack\<close> holds the stack pointers stored so far; the array has \<^verbatim>\<open>MAXARG\<close> elements.\<close>

fun exec_args :: "uint64 \<Rightarrow> uint64 \<Rightarrow> uint64 list \<Rightarrow> uint64 \<Rightarrow> uint64 list \<Rightarrow> 'a kproc_scheme \<Rightarrow>
    ((uint64 \<times> uint64 list) option \<times> 'a kproc_scheme) res" where
  "exec_args pagetable stackbase [] sp ustack s = Inr (Some (sp, ustack), s)"
| "exec_args pagetable stackbase (a # argv) sp ustack s =
     (if MAXARG \<le> length ustack then Inr (None, s)
      else case strlen (chars_at (mem s) a) of
        None \<Rightarrow> Inl Fault
      | Some len \<Rightarrow>
          let sp = sp - word_of_nat (len + 1);
              sp = sp - sp mod 16 in
          if sp < stackbase then Inr (None, s)
          else bindE (copyout pagetable sp a (word_of_nat (len + 1)) s) (\<lambda>(r, s).
            if r < 0 then Inr (None, s)
            else exec_args pagetable stackbase argv sp (ustack @ [sp]) s))"

definition exec_stack :: "uint64 \<Rightarrow> uint64 \<Rightarrow> uint64 list \<Rightarrow> uint64 \<Rightarrow> 'a kproc_scheme \<Rightarrow>
    ((uint64 \<times> nat) option \<times> 'a kproc_scheme) res" where
  "exec_stack pagetable stackbase argv sp s =
     bindE (exec_args pagetable stackbase argv sp [] s) (\<lambda>(r, s).
     case r of
       None \<Rightarrow> Inr (None, s)
     | Some (sp, ustack) \<Rightarrow>
         if MAXARG \<le> length ustack then Inl Fault
         else
           let argc = length ustack;
               sp = sp - word_of_nat ((argc + 1) * 8);
               sp = sp - sp mod 16 in
           if sp < stackbase then Inr (None, s)
           else bindE (copyout_bytes pagetable sp (concat (map (\<lambda>w. map (le_byte w) [0..<8]) (ustack @ [0]))) s) (\<lambda>(r, s).
             if r < 0 then Inr (None, s) else Inr (Some (sp, argc), s)))"

definition last_elem :: "uint8 list \<Rightarrow> uint8 list" where
  "last_elem path = rev (takeWhile (\<lambda>c. c \<noteq> slash) (rev path))"

section \<open>The system call\<close>

text \<open>The cleanup at \<^verbatim>\<open>bad\<close> with a page table, before and after the inode has been let go.\<close>

definition exec_bad :: "uint64 \<Rightarrow> uint64 \<Rightarrow> nat option \<Rightarrow> 'a kproc_scheme \<Rightarrow> (int \<times> 'a kproc_scheme) res" where
  "exec_bad pagetable sz ip s =
     bindE (if pagetable \<noteq> 0 then proc_freepagetable pagetable sz s else Inr s) (\<lambda>s.
     bindE (case ip of None \<Rightarrow> Inr s | Some ip \<Rightarrow> bindE (iunlockput ip s) end_op) (\<lambda>s. Inr (-1, s)))"

definition exec_commit :: "uint8 list \<Rightarrow> uint64 \<Rightarrow> uint64 \<Rightarrow> uint64 \<Rightarrow> uint64 \<Rightarrow> uint64 \<Rightarrow> nat \<Rightarrow> 'a kproc_scheme \<Rightarrow> 'a kproc_scheme res" where
  "exec_commit path pagetable sz oldsz pc sp p s =
     (let s = tf_set p tf_a1 sp s;
          s = set_name p (last_elem path) s;
          oldpagetable = p_pagetable (procs s p);
          s = upd_proc p (\<lambda>x. x\<lparr>p_pagetable := pagetable, p_sz := sz\<rparr>) s;
          s = tf_set p tf_epc pc s;
          s = tf_set p tf_sp sp s in
      proc_freepagetable oldpagetable oldsz s)"

definition exec_image :: "uint8 list \<Rightarrow> uint64 list \<Rightarrow> uint64 \<Rightarrow> uint64 \<Rightarrow> uint64 \<Rightarrow> 'a kproc_scheme \<Rightarrow> (int \<times> 'a kproc_scheme) res" where
  "exec_image path argv pagetable sz pc s =
     bindE (curproc s) (\<lambda>(p, s).
     let oldsz = p_sz (procs s p);
         sz = PGROUNDUP sz;
         gap = word_of_nat (USERSTACK + 1) * PGSIZE in
     bindE (uvmalloc pagetable sz (sz + gap) (ucast PTE_W) s) (\<lambda>(sz1, s).
     if sz1 = 0 then exec_bad pagetable sz None s
     else
       bindE (uvmclear pagetable (sz1 - gap) s) (\<lambda>s.
       bindE (exec_stack pagetable (sz1 - word_of_nat USERSTACK * PGSIZE) argv sz1 s) (\<lambda>(r, s).
       case r of
         None \<Rightarrow> exec_bad pagetable sz1 None s
       | Some (sp, argc) \<Rightarrow>
           bindE (exec_commit path pagetable sz1 oldsz pc sp p s) (\<lambda>s. Inr (int argc, s))))))"

definition exec :: "uint8 list \<Rightarrow> uint64 list \<Rightarrow> 'a kproc_scheme \<Rightarrow> (int \<times> 'a kproc_scheme) res" where
  "exec path argv s =
     bindE (curproc s) (\<lambda>(p, s).
     bindE (begin_op s) (\<lambda>s.
     bindE (namei path s) (\<lambda>(r, s).
     case r of
       None \<Rightarrow> bindE (end_op s) (\<lambda>s. Inr (-1, s))
     | Some ip \<Rightarrow>
         bindE (ilock (Some ip) s) (\<lambda>s.
         bindE (readi ip False (frame s) 0 (word_of_nat sizeof_elfhdr) s) (\<lambda>(r, s).
         let elf = elfhdr_at (mem s) (frame s) in
         if r \<noteq> int sizeof_elfhdr \<or> e_magic elf \<noteq> ELF_MAGIC then exec_bad 0 0 (Some ip) s
         else bindE (proc_pagetable p s) (\<lambda>(pagetable, s).
           if pagetable = 0 then exec_bad 0 0 (Some ip) s
           else bindE (exec_load pagetable ip (unat (e_phnum elf)) (ucast (e_phoff elf)) 0 s) (\<lambda>(ok, sz, s).
             if \<not> ok then exec_bad pagetable sz (Some ip) s
             else bindE (iunlockput ip s) (\<lambda>s.
               bindE (end_op s) (exec_image path argv pagetable sz (e_entry elf)))))))))) "

end
