(* ===== verification/Syscall.thy ===== *)
theory Syscall imports Exec begin

text \<open>
  System calls: argument fetching and the dispatch table of \<^verbatim>\<open>kernel/syscall.c\<close>, the process calls of
  \<^verbatim>\<open>kernel/sysproc.c\<close> and the file system calls of \<^verbatim>\<open>kernel/sysfile.c\<close>. Each handler gives the value that
  goes to the user's register \<^verbatim>\<open>a0\<close>; local character arrays that receive user strings are at the frame.
\<close>

unbundle bit_operations_syntax

section \<open>Arguments\<close>

abbreviation minus_one :: uint64 where "minus_one \<equiv> - 1"

definition fetchaddr :: "uint64 \<Rightarrow> 'a kproc_scheme \<Rightarrow> (uint64 option \<times> 'a kproc_scheme) res" where
  "fetchaddr addr s =
     bindE (curproc s) (\<lambda>(p, s).
     if p_sz (procs s p) \<le> addr \<or> p_sz (procs s p) < addr + 8 then Inr (None, s)
     else bindE (copyin_bytes (p_pagetable (procs s p)) addr 8 s) (\<lambda>(r, bs, s).
       Inr (if r \<noteq> 0 then None else Some (le_word (chars_of bs) 8), s)))"

definition fetchstr :: "uint64 \<Rightarrow> uint64 \<Rightarrow> uint64 \<Rightarrow> 'a kproc_scheme \<Rightarrow> (int \<times> 'a kproc_scheme) res" where
  "fetchstr addr buf max_len s =
     bindE (curproc s) (\<lambda>(p, s).
     bindE (copyinstr (p_pagetable (procs s p)) buf addr max_len s) (\<lambda>(r, s).
     if r < 0 then Inr (-1, s)
     else case strlen (chars_at (mem s) buf) of None \<Rightarrow> Inl Fault | Some n \<Rightarrow> Inr (int n, s)))"

definition argraw :: "nat \<Rightarrow> 'a kproc_scheme \<Rightarrow> (uint64 \<times> 'a kproc_scheme) res" where
  "argraw n s =
     bindE (curproc s) (\<lambda>(p, s).
     if n < 6 then Inr (tf_get p (tf_a0 + 8 * word_of_nat n) s, s) else Inl (Panic ''argraw''))"

definition argint :: "nat \<Rightarrow> 'a kproc_scheme \<Rightarrow> (int \<times> 'a kproc_scheme) res" where
  "argint n s = bindE (argraw n s) (\<lambda>(v, s). Inr (sint (ucast v :: uint32), s))"

definition argaddr :: "nat \<Rightarrow> 'a kproc_scheme \<Rightarrow> (uint64 \<times> 'a kproc_scheme) res" where
  "argaddr n s = argraw n s"

definition argstr :: "nat \<Rightarrow> uint64 \<Rightarrow> uint64 \<Rightarrow> 'a kproc_scheme \<Rightarrow> (int \<times> 'a kproc_scheme) res" where
  "argstr n buf max_len s = bindE (argaddr n s) (\<lambda>(addr, s). fetchstr addr buf max_len s)"

text \<open>\<^verbatim>\<open>argstr\<close> into a local array of \<^verbatim>\<open>MAXPATH\<close> bytes: the string, or \<open>None\<close> on failure.\<close>

definition argpath :: "nat \<Rightarrow> 'a kproc_scheme \<Rightarrow> (uint8 list option \<times> 'a kproc_scheme) res" where
  "argpath n s =
     bindE (argstr n (frame s) (word_of_nat MAXPATH) s) (\<lambda>(r, s).
     Inr (if r < 0 then None else Some (load_bytes (mem s) (frame s) (nat r)), s))"

definition argfd :: "nat \<Rightarrow> 'a kproc_scheme \<Rightarrow> ((nat \<times> nat) option \<times> 'a kproc_scheme) res" where
  "argfd n s =
     bindE (argint n s) (\<lambda>(fd, s).
     if fd < 0 \<or> int NOFILE \<le> fd then Inr (None, s)
     else bindE (curproc s) (\<lambda>(p, s).
       case p_ofile (procs s p) (nat fd) of
         None \<Rightarrow> Inr (None, s)
       | Some f \<Rightarrow> Inr (Some (nat fd, f), s)))"

definition fdalloc :: "nat \<Rightarrow> 'a kproc_scheme \<Rightarrow> (nat option \<times> 'a kproc_scheme) res" where
  "fdalloc f s =
     bindE (curproc s) (\<lambda>(p, s).
     case first_from (\<lambda>fd. p_ofile (procs s p) fd = None) 0 NOFILE of
       None \<Rightarrow> Inr (None, s)
     | Some fd \<Rightarrow> Inr (Some fd, upd_proc p (\<lambda>x. x\<lparr>p_ofile := (p_ofile x)(fd := Some f)\<rparr>) s))"

section \<open>Process calls\<close>

text \<open>A call returns a value, or the process has left for the scheduler.\<close>

datatype sysret = Ret uint64 | Gone bool

definition ret_int :: "(int \<times> 's) res \<Rightarrow> (uint64 \<times> 's) res" where
  "ret_int r = bindE r (\<lambda>(v, s). Inr (word_of_int v, s))"

definition sys_exit :: "'a kproc_scheme \<Rightarrow> (bool \<times> 'a kproc_scheme) res" where
  "sys_exit s = bindE (argint 0 s) (\<lambda>(n, s). exit_out n s)"

definition sys_getpid :: "'a kproc_scheme \<Rightarrow> (uint64 \<times> 'a kproc_scheme) res" where
  "sys_getpid s = bindE (curproc s) (\<lambda>(p, s). Inr (word_of_int (p_pid (procs s p)), s))"

definition sys_fork :: "'a kproc_scheme \<Rightarrow> (uint64 \<times> 'a kproc_scheme) res" where
  "sys_fork s = ret_int (fork s)"

definition sys_wait :: "'a kproc_scheme \<Rightarrow> (uint64 \<times> 'a kproc_scheme) res" where
  "sys_wait s = bindE (argaddr 0 s) (\<lambda>(p, s). ret_int (wait p s))"

definition sys_sbrk :: "'a kproc_scheme \<Rightarrow> (uint64 \<times> 'a kproc_scheme) res" where
  "sys_sbrk s =
     bindE (argint 0 s) (\<lambda>(n, s).
     bindE (curproc s) (\<lambda>(p, s).
     let addr = p_sz (procs s p) in
     bindE (growproc n s) (\<lambda>(r, s). Inr (if r < 0 then minus_one else addr, s))))"

definition sys_sleep :: "'a kproc_scheme \<Rightarrow> (uint64 \<times> 'a kproc_scheme) res" where
  "sys_sleep s =
     bindE (argint 0 s) (\<lambda>(n, s).
     let n = (if n < 0 then 0 else n) in
     bindE (acquire L_ticks s) (\<lambda>s.
     let ticks0 = ticks s in
     if ticks s - ticks0 < word_of_int n then
       bindE (curproc s) (\<lambda>(p, s).
       bindE (killed p s) (\<lambda>(k, s).
       if k \<noteq> 0 then bindE (release L_ticks s) (\<lambda>s. Inr (minus_one, s)) else Inl Sleeps))
     else bindE (release L_ticks s) (\<lambda>s. Inr (0, s))))"

definition sys_kill :: "'a kproc_scheme \<Rightarrow> (uint64 \<times> 'a kproc_scheme) res" where
  "sys_kill s = bindE (argint 0 s) (\<lambda>(pid, s). ret_int (kill pid s))"

definition sys_uptime :: "'a kproc_scheme \<Rightarrow> (uint64 \<times> 'a kproc_scheme) res" where
  "sys_uptime s =
     bindE (acquire L_ticks s) (\<lambda>s.
     let xticks = ticks s in bindE (release L_ticks s) (\<lambda>s. Inr (ucast xticks, s)))"

section \<open>File calls\<close>

definition sys_dup :: "'a kproc_scheme \<Rightarrow> (uint64 \<times> 'a kproc_scheme) res" where
  "sys_dup s =
     bindE (argfd 0 s) (\<lambda>(r, s).
     case r of None \<Rightarrow> Inr (minus_one, s)
     | Some (_, f) \<Rightarrow>
         bindE (fdalloc f s) (\<lambda>(r, s).
         case r of None \<Rightarrow> Inr (minus_one, s)
         | Some fd \<Rightarrow> bindE (filedup f s) (\<lambda>(_, s). Inr (word_of_nat fd, s))))"

definition sys_read :: "'a kproc_scheme \<Rightarrow> (uint64 \<times> 'a kproc_scheme) res" where
  "sys_read s =
     bindE (argaddr 1 s) (\<lambda>(p, s).
     bindE (argint 2 s) (\<lambda>(n, s).
     bindE (argfd 0 s) (\<lambda>(r, s).
     case r of None \<Rightarrow> Inr (minus_one, s) | Some (_, f) \<Rightarrow> ret_int (fileread f p n s))))"

definition sys_write :: "'a kproc_scheme \<Rightarrow> (uint64 \<times> 'a kproc_scheme) res" where
  "sys_write s =
     bindE (argaddr 1 s) (\<lambda>(p, s).
     bindE (argint 2 s) (\<lambda>(n, s).
     bindE (argfd 0 s) (\<lambda>(r, s).
     case r of None \<Rightarrow> Inr (minus_one, s) | Some (_, f) \<Rightarrow> ret_int (filewrite f p n s))))"

definition sys_close :: "'a kproc_scheme \<Rightarrow> (uint64 \<times> 'a kproc_scheme) res" where
  "sys_close s =
     bindE (argfd 0 s) (\<lambda>(r, s).
     case r of None \<Rightarrow> Inr (minus_one, s)
     | Some (fd, f) \<Rightarrow>
         bindE (curproc s) (\<lambda>(p, s).
         bindE (fileclose f (upd_proc p (\<lambda>x. x\<lparr>p_ofile := (p_ofile x)(fd := None)\<rparr>) s)) (\<lambda>s. Inr (0, s))))"

definition sys_fstat :: "'a kproc_scheme \<Rightarrow> (uint64 \<times> 'a kproc_scheme) res" where
  "sys_fstat s =
     bindE (argaddr 1 s) (\<lambda>(st, s).
     bindE (argfd 0 s) (\<lambda>(r, s).
     case r of None \<Rightarrow> Inr (minus_one, s) | Some (_, f) \<Rightarrow> ret_int (filestat f st s)))"

text \<open>The transaction's end with a return value.\<close>

definition end_with :: "uint64 \<Rightarrow> 'a klog_scheme \<Rightarrow> (uint64 \<times> 'a klog_scheme) res" where
  "end_with v s = bindE (end_op s) (\<lambda>s. Inr (v, s))"

definition link_undo :: "nat \<Rightarrow> 'a kproc_scheme \<Rightarrow> (uint64 \<times> 'a kproc_scheme) res" where
  "link_undo ip s =
     bindE (ilock (Some ip) s) (\<lambda>s.
     bindE (iupdate ip (upd_inode ip (\<lambda>x. x\<lparr>i_nlink := i_nlink x - 1\<rparr>) s)) (\<lambda>s.
     bindE (iunlockput ip s) (end_with minus_one)))"

definition link_paths :: "uint8 list \<Rightarrow> uint8 list \<Rightarrow> 'a kproc_scheme \<Rightarrow> (uint64 \<times> 'a kproc_scheme) res" where
  "link_paths old new s =
     bindE (begin_op s) (\<lambda>s.
     bindE (namei old s) (\<lambda>(r, s).
     case r of None \<Rightarrow> end_with minus_one s
     | Some ip \<Rightarrow>
         bindE (ilock (Some ip) s) (\<lambda>s.
         if i_type (itable s ip) = T_DIR then bindE (iunlockput ip s) (end_with minus_one)
         else
           bindE (iupdate ip (upd_inode ip (\<lambda>x. x\<lparr>i_nlink := i_nlink x + 1\<rparr>) s)) (\<lambda>s.
           bindE (iunlock (Some ip) s) (\<lambda>s.
           bindE (nameiparent new (chars_at (mem s) (frame s)) s) (\<lambda>(r, name, s).
           case r of None \<Rightarrow> link_undo ip s
           | Some dp \<Rightarrow>
               bindE (ilock (Some dp) s) (\<lambda>s.
               bindE (if i_dev (itable s dp) \<noteq> i_dev (itable s ip) then Inr (-1, s)
                      else dirlink dp name (i_inum (itable s ip)) s) (\<lambda>(r, s).
               if r < 0 then bindE (iunlockput dp s) (link_undo ip)
               else bindE (iunlockput dp s) (\<lambda>s. bindE (iput ip s) (end_with 0))))))))) )"

definition sys_link :: "'a kproc_scheme \<Rightarrow> (uint64 \<times> 'a kproc_scheme) res" where
  "sys_link s =
     bindE (argpath 0 s) (\<lambda>(old, s).
     case old of None \<Rightarrow> Inr (minus_one, s)
     | Some old \<Rightarrow>
         bindE (argpath 1 s) (\<lambda>(new, s).
         case new of None \<Rightarrow> Inr (minus_one, s) | Some new \<Rightarrow> link_paths old new s))"

fun isdirempty_from :: "nat \<Rightarrow> nat list \<Rightarrow> 'a fsys_scheme \<Rightarrow> (bool \<times> 'a fsys_scheme) res" where
  "isdirempty_from dp [] s = Inr (True, s)"
| "isdirempty_from dp (off # offs) s =
     bindE (readi dp False (frame s) (word_of_nat off) (word_of_nat sizeof_dirent) s) (\<lambda>(r, s).
     if r \<noteq> int sizeof_dirent then Inl (Panic ''isdirempty: readi'')
     else if de_inum s \<noteq> 0 then Inr (False, s)
     else isdirempty_from dp offs s)"

definition isdirempty :: "nat \<Rightarrow> 'a fsys_scheme \<Rightarrow> (bool \<times> 'a fsys_scheme) res" where
  "isdirempty dp s = isdirempty_from dp (drop 2 (dirent_offs (i_size (itable s dp)))) s"

definition unlink_entry :: "nat \<Rightarrow> nat \<Rightarrow> uint32 \<Rightarrow> 'a kproc_scheme \<Rightarrow> (uint64 \<times> 'a kproc_scheme) res" where
  "unlink_entry dp ip off s =
     (let s = s\<lparr>mem := store_bytes (frame s) (replicate sizeof_dirent 0) (mem s)\<rparr> in
      bindE (writei dp False (frame s) off (word_of_nat sizeof_dirent) s) (\<lambda>(r, s).
      if r \<noteq> int sizeof_dirent then Inl (Panic ''unlink: writei'')
      else bindE (if i_type (itable s ip) = T_DIR
                  then iupdate dp (upd_inode dp (\<lambda>x. x\<lparr>i_nlink := i_nlink x - 1\<rparr>) s) else Inr s) (\<lambda>s.
        bindE (iunlockput dp s) (\<lambda>s.
        bindE (iupdate ip (upd_inode ip (\<lambda>x. x\<lparr>i_nlink := i_nlink x - 1\<rparr>) s)) (\<lambda>s.
        bindE (iunlockput ip s) (end_with 0))))))"

definition sys_unlink :: "'a kproc_scheme \<Rightarrow> (uint64 \<times> 'a kproc_scheme) res" where
  "sys_unlink s =
     bindE (argpath 0 s) (\<lambda>(path, s).
     case path of None \<Rightarrow> Inr (minus_one, s)
     | Some path \<Rightarrow>
         bindE (begin_op s) (\<lambda>s.
         bindE (nameiparent path (chars_at (mem s) (frame s)) s) (\<lambda>(r, name, s).
         case r of None \<Rightarrow> end_with minus_one s
         | Some dp \<Rightarrow>
             bindE (ilock (Some dp) s) (\<lambda>s.
             if namecmp name (chars_of (string_bytes ''.'')) = 0 \<or> namecmp name (chars_of (string_bytes ''..'')) = 0
             then bindE (iunlockput dp s) (end_with minus_one)
             else bindE (dirlookup dp name s) (\<lambda>(r, s).
               case r of None \<Rightarrow> bindE (iunlockput dp s) (end_with minus_one)
               | Some (ip, off) \<Rightarrow>
                   bindE (ilock (Some ip) s) (\<lambda>s.
                   if sint (i_nlink (itable s ip)) < 1 then Inl (Panic ''unlink: nlink < 1'')
                   else bindE (if i_type (itable s ip) = T_DIR then isdirempty ip s else Inr (True, s)) (\<lambda>(empty, s).
                     if \<not> empty then
                       bindE (iunlockput ip s) (\<lambda>s. bindE (iunlockput dp s) (end_with minus_one))
                     else unlink_entry dp ip off s)))))))"

definition create_fail :: "nat \<Rightarrow> nat \<Rightarrow> 'a kproc_scheme \<Rightarrow> (nat option \<times> 'a kproc_scheme) res" where
  "create_fail ip dp s =
     bindE (iupdate ip (upd_inode ip (\<lambda>x. x\<lparr>i_nlink := 0\<rparr>) s)) (\<lambda>s.
     bindE (iunlockput ip s) (\<lambda>s.
     bindE (iunlockput dp s) (\<lambda>s. Inr (None, s))))"

definition create_dots :: "nat \<Rightarrow> nat \<Rightarrow> 'a kproc_scheme \<Rightarrow> (bool \<times> 'a kproc_scheme) res" where
  "create_dots ip dp s =
     bindE (dirlink ip (chars_of (string_bytes ''.'')) (i_inum (itable s ip)) s) (\<lambda>(r, s).
     if r < 0 then Inr (False, s)
     else bindE (dirlink ip (chars_of (string_bytes ''..'')) (i_inum (itable s dp)) s) (\<lambda>(r, s). Inr (\<not> r < 0, s)))"

definition create_new :: "nat \<Rightarrow> cstring \<Rightarrow> nat \<Rightarrow> uint16 \<Rightarrow> uint16 \<Rightarrow> uint16 \<Rightarrow> 'a kproc_scheme \<Rightarrow> (nat option \<times> 'a kproc_scheme) res" where
  "create_new dp name ip type major minor s =
     bindE (ilock (Some ip) s) (\<lambda>s.
     bindE (iupdate ip (upd_inode ip (\<lambda>x. x\<lparr>i_major := major, i_minor := minor, i_nlink := 1\<rparr>) s)) (\<lambda>s.
     bindE (if type = T_DIR then create_dots ip dp s else Inr (True, s)) (\<lambda>(ok, s).
     if \<not> ok then create_fail ip dp s
     else bindE (dirlink dp name (i_inum (itable s ip)) s) (\<lambda>(r, s).
       if r < 0 then create_fail ip dp s
       else bindE (if type = T_DIR then iupdate dp (upd_inode dp (\<lambda>x. x\<lparr>i_nlink := i_nlink x + 1\<rparr>) s) else Inr s) (\<lambda>s.
         bindE (iunlockput dp s) (\<lambda>s. Inr (Some ip, s)))))))"

definition create :: "uint8 list \<Rightarrow> uint16 \<Rightarrow> uint16 \<Rightarrow> uint16 \<Rightarrow> 'a kproc_scheme \<Rightarrow> (nat option \<times> 'a kproc_scheme) res" where
  "create path type major minor s =
     bindE (nameiparent path (chars_at (mem s) (frame s)) s) (\<lambda>(r, name, s).
     case r of None \<Rightarrow> Inr (None, s)
     | Some dp \<Rightarrow>
         bindE (ilock (Some dp) s) (\<lambda>s.
         bindE (dirlookup dp name s) (\<lambda>(r, s).
         case r of
           Some (ip, _) \<Rightarrow>
             bindE (iunlockput dp s) (\<lambda>s.
             bindE (ilock (Some ip) s) (\<lambda>s.
             if type = T_FILE \<and> (i_type (itable s ip) = T_FILE \<or> i_type (itable s ip) = T_DEVICE) then Inr (Some ip, s)
             else bindE (iunlockput ip s) (\<lambda>s. Inr (None, s))))
         | None \<Rightarrow>
             bindE (ialloc (i_dev (itable s dp)) type s) (\<lambda>(r, s).
             case r of
               None \<Rightarrow> bindE (iunlockput dp s) (\<lambda>s. Inr (None, s))
             | Some ip \<Rightarrow> create_new dp name ip type major minor s))))"

definition O_RDONLY :: uint32 where "O_RDONLY = 0x000"
definition O_WRONLY :: uint32 where "O_WRONLY = 0x001"
definition O_RDWR :: uint32 where "O_RDWR = 0x002"
definition O_CREATE :: uint32 where "O_CREATE = 0x200"
definition O_TRUNC :: uint32 where "O_TRUNC = 0x400"

text \<open>The first half of \<^verbatim>\<open>sys_open\<close>: the locked inode, or \<open>None\<close> with the transaction still open.\<close>

definition open_inode :: "uint8 list \<Rightarrow> uint32 \<Rightarrow> 'a kproc_scheme \<Rightarrow> (nat option \<times> 'a kproc_scheme) res" where
  "open_inode path omode s =
     (if omode AND O_CREATE \<noteq> 0 then create path T_FILE 0 0 s
      else bindE (namei path s) (\<lambda>(r, s).
        case r of None \<Rightarrow> Inr (None, s)
        | Some ip \<Rightarrow>
            bindE (ilock (Some ip) s) (\<lambda>s.
            if i_type (itable s ip) = T_DIR \<and> omode \<noteq> O_RDONLY
            then bindE (iunlockput ip s) (\<lambda>s. Inr (None, s))
            else Inr (Some ip, s))))"

definition open_file :: "nat \<Rightarrow> nat \<Rightarrow> uint32 \<Rightarrow> 'a kproc_scheme \<Rightarrow> 'a kproc_scheme" where
  "open_file f ip omode s =
     (let x = itable s ip;
          s = (if i_type x = T_DEVICE then upd_file f (\<lambda>y. y\<lparr>f_type := FD_DEVICE, f_major := i_major x\<rparr>) s
               else upd_file f (\<lambda>y. y\<lparr>f_type := FD_INODE, f_off := 0\<rparr>) s) in
      upd_file f (\<lambda>y. y\<lparr>f_ip := Some ip, f_readable := (omode AND O_WRONLY = 0),
        f_writable := (omode AND O_WRONLY \<noteq> 0 \<or> omode AND O_RDWR \<noteq> 0)\<rparr>) s)"

definition open_fd :: "nat \<Rightarrow> uint32 \<Rightarrow> 'a kproc_scheme \<Rightarrow> (uint64 \<times> 'a kproc_scheme) res" where
  "open_fd ip omode s =
     bindE (filealloc s) (\<lambda>(r, s).
     case r of
       None \<Rightarrow> bindE (iunlockput ip s) (end_with minus_one)
     | Some f \<Rightarrow>
         bindE (fdalloc f s) (\<lambda>(r, s).
         case r of
           None \<Rightarrow> bindE (fileclose f s) (\<lambda>s. bindE (iunlockput ip s) (end_with minus_one))
         | Some fd \<Rightarrow>
             let s = open_file f ip omode s in
             bindE (if omode AND O_TRUNC \<noteq> 0 \<and> i_type (itable s ip) = T_FILE then itrunc ip s else Inr s) (\<lambda>s.
             bindE (iunlock (Some ip) s) (end_with (word_of_nat fd)))))"

definition sys_open :: "'a kproc_scheme \<Rightarrow> (uint64 \<times> 'a kproc_scheme) res" where
  "sys_open s =
     bindE (argint 1 s) (\<lambda>(omode, s).
     bindE (argpath 0 s) (\<lambda>(path, s).
     case path of None \<Rightarrow> Inr (minus_one, s)
     | Some path \<Rightarrow>
         bindE (begin_op s) (\<lambda>s.
         bindE (open_inode path (word_of_int omode) s) (\<lambda>(r, s).
         case r of None \<Rightarrow> end_with minus_one s
         | Some ip \<Rightarrow>
             if i_type (itable s ip) = T_DEVICE \<and> \<not> dev_in_range (i_major (itable s ip))
             then bindE (iunlockput ip s) (end_with minus_one)
             else open_fd ip (word_of_int omode) s))))"

definition sys_mkdir :: "'a kproc_scheme \<Rightarrow> (uint64 \<times> 'a kproc_scheme) res" where
  "sys_mkdir s =
     bindE (begin_op s) (\<lambda>s.
     bindE (argpath 0 s) (\<lambda>(path, s).
     bindE (case path of None \<Rightarrow> Inr (None, s) | Some path \<Rightarrow> create path T_DIR 0 0 s) (\<lambda>(r, s).
     case r of None \<Rightarrow> end_with minus_one s
     | Some ip \<Rightarrow> bindE (iunlockput ip s) (end_with 0))))"

definition sys_mknod :: "'a kproc_scheme \<Rightarrow> (uint64 \<times> 'a kproc_scheme) res" where
  "sys_mknod s =
     bindE (begin_op s) (\<lambda>s.
     bindE (argint 1 s) (\<lambda>(major, s).
     bindE (argint 2 s) (\<lambda>(minor, s).
     bindE (argpath 0 s) (\<lambda>(path, s).
     bindE (case path of None \<Rightarrow> Inr (None, s)
            | Some path \<Rightarrow> create path T_DEVICE (word_of_int major) (word_of_int minor) s) (\<lambda>(r, s).
     case r of None \<Rightarrow> end_with minus_one s
     | Some ip \<Rightarrow> bindE (iunlockput ip s) (end_with 0))))))"

definition sys_chdir :: "'a kproc_scheme \<Rightarrow> (uint64 \<times> 'a kproc_scheme) res" where
  "sys_chdir s =
     bindE (curproc s) (\<lambda>(p, s).
     bindE (begin_op s) (\<lambda>s.
     bindE (argpath 0 s) (\<lambda>(path, s).
     bindE (case path of None \<Rightarrow> Inr (None, s) | Some path \<Rightarrow> namei path s) (\<lambda>(r, s).
     case r of None \<Rightarrow> end_with minus_one s
     | Some ip \<Rightarrow>
         bindE (ilock (Some ip) s) (\<lambda>s.
         if i_type (itable s ip) \<noteq> T_DIR then bindE (iunlockput ip s) (end_with minus_one)
         else
           bindE (iunlock (Some ip) s) (\<lambda>s.
           bindE (case p_cwd (procs s p) of None \<Rightarrow> Inl Fault | Some cwd \<Rightarrow> iput cwd s) (\<lambda>s.
           bindE (end_op s) (\<lambda>s. Inr (0, upd_proc p (\<lambda>x. x\<lparr>p_cwd := Some ip\<rparr>) s)))))))))"

text \<open>
  The loop of \<^verbatim>\<open>sys_exec\<close> over the argument vector: \<open>n\<close> array elements are left, \<open>argv\<close> are the pages filled.
  On failure the pages are given back as well.
\<close>

fun exec_argv :: "nat \<Rightarrow> uint64 \<Rightarrow> uint64 list \<Rightarrow> 'a kproc_scheme \<Rightarrow> (bool \<times> uint64 list \<times> 'a kproc_scheme) res" where
  "exec_argv 0 uargv argv s = Inr (False, argv, s)"
| "exec_argv (Suc n) uargv argv s =
     bindE (fetchaddr (uargv + 8 * word_of_nat (length argv)) s) (\<lambda>(r, s).
     case r of None \<Rightarrow> Inr (False, argv, s)
     | Some uarg \<Rightarrow>
         if uarg = 0 then Inr (True, argv, s)
         else bindE (kalloc s) (\<lambda>(page, s).
           if page = 0 then Inr (False, argv, s)
           else bindE (fetchstr uarg page PGSIZE s) (\<lambda>(r, s).
             if r < 0 then Inr (False, argv @ [page], s)
             else exec_argv n uargv (argv @ [page]) s)))"

definition sys_exec :: "'a kproc_scheme \<Rightarrow> (uint64 \<times> 'a kproc_scheme) res" where
  "sys_exec s =
     bindE (argaddr 1 s) (\<lambda>(uargv, s).
     bindE (argpath 0 s) (\<lambda>(path, s).
     case path of None \<Rightarrow> Inr (minus_one, s)
     | Some path \<Rightarrow>
         bindE (exec_argv MAXARG uargv [] s) (\<lambda>(ok, argv, s).
         bindE (if ok then exec path argv s else Inr (-1, s)) (\<lambda>(ret, s).
         bindE (forE kfree argv s) (\<lambda>s. Inr (word_of_int ret, s))))))"

definition put_fd :: "nat \<Rightarrow> nat \<Rightarrow> nat option \<Rightarrow> 'a machine_scheme \<Rightarrow> 'a machine_scheme" where
  "put_fd p fd f s = upd_proc p (\<lambda>x. x\<lparr>p_ofile := (p_ofile x)(fd := f)\<rparr>) s"

definition close_both :: "nat \<Rightarrow> nat \<Rightarrow> 'a kproc_scheme \<Rightarrow> (uint64 \<times> 'a kproc_scheme) res" where
  "close_both rfile wfile s = bindE (fileclose rfile s) (\<lambda>s. bindE (fileclose wfile s) (\<lambda>s. Inr (minus_one, s)))"

definition int_bytes :: "nat \<Rightarrow> uint8 list" where
  "int_bytes n = map (le_byte (word_of_nat n :: uint32)) [0..<4]"

definition sys_pipe :: "'a kproc_scheme \<Rightarrow> (uint64 \<times> 'a kproc_scheme) res" where
  "sys_pipe s =
     bindE (curproc s) (\<lambda>(p, s).
     bindE (argaddr 0 s) (\<lambda>(fdarray, s).
     bindE (pipealloc s) (\<lambda>(r, s).
     case r of None \<Rightarrow> Inr (minus_one, s)
     | Some (rfile, wfile) \<Rightarrow>
         bindE (fdalloc rfile s) (\<lambda>(r0, s).
         case r0 of None \<Rightarrow> close_both rfile wfile s
         | Some fd0 \<Rightarrow>
             bindE (fdalloc wfile s) (\<lambda>(r1, s).
             case r1 of None \<Rightarrow> close_both rfile wfile (put_fd p fd0 None s)
             | Some fd1 \<Rightarrow>
                 bindE (copyout_bytes (p_pagetable (procs s p)) fdarray (int_bytes fd0) s) (\<lambda>(c, s).
                 bindE (if c < 0 then Inr (c, s)
                        else copyout_bytes (p_pagetable (procs s p)) (fdarray + 4) (int_bytes fd1) s) (\<lambda>(c, s).
                 if c < 0 then close_both rfile wfile (put_fd p fd1 None (put_fd p fd0 None s))
                 else Inr (0, s))))))))"

section \<open>Dispatch\<close>

definition ret_val :: "(uint64 \<times> 's) res \<Rightarrow> (sysret \<times> 's) res" where
  "ret_val r = bindE r (\<lambda>(v, s). Inr (Ret v, s))"

text \<open>The handler of a call number, \<open>None\<close> where the table has no entry.\<close>

definition syscalls :: "int \<Rightarrow> ('a kproc_scheme \<Rightarrow> (sysret \<times> 'a kproc_scheme) res) option" where
  "syscalls num =
     (if num = 1 then Some (\<lambda>s. ret_val (sys_fork s))
      else if num = 2 then Some (\<lambda>s. bindE (sys_exit s) (\<lambda>(i, s). Inr (Gone i, s)))
      else if num = 3 then Some (\<lambda>s. ret_val (sys_wait s))
      else if num = 4 then Some (\<lambda>s. ret_val (sys_pipe s))
      else if num = 5 then Some (\<lambda>s. ret_val (sys_read s))
      else if num = 6 then Some (\<lambda>s. ret_val (sys_kill s))
      else if num = 7 then Some (\<lambda>s. ret_val (sys_exec s))
      else if num = 8 then Some (\<lambda>s. ret_val (sys_fstat s))
      else if num = 9 then Some (\<lambda>s. ret_val (sys_chdir s))
      else if num = 10 then Some (\<lambda>s. ret_val (sys_dup s))
      else if num = 11 then Some (\<lambda>s. ret_val (sys_getpid s))
      else if num = 12 then Some (\<lambda>s. ret_val (sys_sbrk s))
      else if num = 13 then Some (\<lambda>s. ret_val (sys_sleep s))
      else if num = 14 then Some (\<lambda>s. ret_val (sys_uptime s))
      else if num = 15 then Some (\<lambda>s. ret_val (sys_open s))
      else if num = 16 then Some (\<lambda>s. ret_val (sys_write s))
      else if num = 17 then Some (\<lambda>s. ret_val (sys_mknod s))
      else if num = 18 then Some (\<lambda>s. ret_val (sys_unlink s))
      else if num = 19 then Some (\<lambda>s. ret_val (sys_link s))
      else if num = 20 then Some (\<lambda>s. ret_val (sys_mkdir s))
      else if num = 21 then Some (\<lambda>s. ret_val (sys_close s))
      else if num = 22 then Some (\<lambda>s. ret_val (sys_debugswitch s))
      else None)"

text \<open>\<open>None\<close> when the call returns to the user, \<open>Some\<close> when the process has exited.\<close>

definition syscall :: "'a kproc_scheme \<Rightarrow> (bool option \<times> 'a kproc_scheme) res" where
  "syscall s =
     bindE (curproc s) (\<lambda>(p, s).
     let num = sint (ucast (tf_get p tf_a7 s) :: uint32) in
     case syscalls num of
       Some h \<Rightarrow>
         bindE (h s) (\<lambda>(r, s).
         case r of Ret v \<Rightarrow> Inr (None, tf_set p tf_a0 v s) | Gone i \<Rightarrow> Inr (Some i, s))
     | None \<Rightarrow>
         bindE (printf (''%d %s: unknown sys call %d'' @ nl)
           [VInt (word_of_int (p_pid (procs s p))), VStr (Some (name_string (p_name (procs s p)))), VInt (word_of_int num)] s) (\<lambda>s.
         Inr (None, tf_set p tf_a0 minus_one s)))"

end
