(* ===== verification/Trap.thy ===== *)
theory Trap imports Syscall begin

text \<open>
  Traps: the register save and restore of \<^verbatim>\<open>kernel/trampoline.S\<close> and \<^verbatim>\<open>kernel/kernelvec.S\<close>, the handlers of
  \<^verbatim>\<open>kernel/trap.c\<close>, the interrupt controller \<^verbatim>\<open>kernel/plic.c\<close>, \<^verbatim>\<open>forkret\<close> of \<^verbatim>\<open>kernel/proc.c\<close> and the boot
  sequence of \<^verbatim>\<open>kernel/main.c\<close>. Where a handler gives up the CPU its model ends at the switch.
\<close>

unbundle bit_operations_syntax

section \<open>Registers\<close>

text \<open>
  The general registers are numbered as in the instruction set: \<^verbatim>\<open>ra\<close> is 1, \<^verbatim>\<open>sp\<close> 2, \<^verbatim>\<open>gp\<close> 3, \<^verbatim>\<open>tp\<close> 4,
  \<^verbatim>\<open>t0\<close> to \<^verbatim>\<open>t2\<close> 5 to 7, \<^verbatim>\<open>s0\<close> and \<^verbatim>\<open>s1\<close> 8 and 9, \<^verbatim>\<open>a0\<close> to \<^verbatim>\<open>a7\<close> 10 to 17, \<^verbatim>\<open>s2\<close> to \<^verbatim>\<open>s11\<close> 18 to 27, \<^verbatim>\<open>t3\<close>
  to \<^verbatim>\<open>t6\<close> 28 to 31. A list of pairs of register and offset is a run of stores or loads.
\<close>

type_synonym regs = "nat \<Rightarrow> uint64"

definition tf_slots :: "(nat \<times> uint64) list" where
  "tf_slots =
     [(1, 40), (2, 48), (3, 56), (4, 64), (5, 72), (6, 80), (7, 88), (8, 96), (9, 104),
      (11, 120), (12, 128), (13, 136), (14, 144), (15, 152), (16, 160), (17, 168),
      (18, 176), (19, 184), (20, 192), (21, 200), (22, 208), (23, 216), (24, 224), (25, 232), (26, 240), (27, 248),
      (28, 256), (29, 264), (30, 272), (31, 280)]"

definition save_regs :: "uint64 \<Rightarrow> regs \<Rightarrow> (nat \<times> uint64) list \<Rightarrow> memory \<Rightarrow> memory" where
  "save_regs base r ps m = fold (\<lambda>(i, k). store64 (base + k) (r i)) ps m"

definition load_regs :: "uint64 \<Rightarrow> memory \<Rightarrow> (nat \<times> uint64) list \<Rightarrow> regs \<Rightarrow> regs" where
  "load_regs base m ps r = fold (\<lambda>(i, k) r. r(i := load64 m (base + k))) ps r"

text \<open>
  \<^verbatim>\<open>uservec\<close>: \<open>tf\<close> is where the page table maps \<^verbatim>\<open>TRAPFRAME\<close>. The result is the registers, the
  memory, the new \<^verbatim>\<open>satp\<close> and the address jumped to.
\<close>

definition uservec :: "uint64 \<Rightarrow> regs \<Rightarrow> memory \<Rightarrow> regs \<times> memory \<times> uint64 \<times> uint64" where
  "uservec tf r m =
     (let sscratch = r 10;
          r = r(10 := TRAPFRAME);
          m = save_regs tf r tf_slots m;
          r = r(5 := sscratch);
          m = store64 (tf + 112) (r 5) m;
          r = r(2 := load64 m (tf + 8));
          r = r(4 := load64 m (tf + 32));
          r = r(5 := load64 m (tf + 16));
          r = r(6 := load64 m (tf + 0)) in
      (r, m, r 6, r 5))"

text \<open>\<^verbatim>\<open>userret\<close>: the registers the user program continues with, and \<^verbatim>\<open>satp\<close>.\<close>

definition userret :: "uint64 \<Rightarrow> regs \<Rightarrow> memory \<Rightarrow> regs \<times> uint64" where
  "userret tf r m =
     (let satp = r 10;
          r = r(10 := TRAPFRAME);
          r = load_regs tf m tf_slots r;
          r = r(10 := load64 m (tf + 112)) in
      (r, satp))"

definition kvec_slots :: "(nat \<times> uint64) list" where
  "kvec_slots =
     [(1, 0), (2, 8), (3, 16), (4, 24), (5, 32), (6, 40), (7, 48),
      (10, 72), (11, 80), (12, 88), (13, 96), (14, 104), (15, 112), (16, 120), (17, 128),
      (28, 216), (29, 224), (30, 232), (31, 240)]"

text \<open>
  The two halves of \<^verbatim>\<open>kernelvec\<close>, before and after the call of \<^verbatim>\<open>kerneltrap\<close>; \<^verbatim>\<open>tp\<close> is not restored. The loads
  are relative to \<^verbatim>\<open>sp\<close>, which the second of them loads.
\<close>

definition kernelvec_save :: "regs \<Rightarrow> memory \<Rightarrow> regs \<times> memory" where
  "kernelvec_save r m = (let r = r(2 := r 2 - 256) in (r, save_regs (r 2) r kvec_slots m))"

definition kernelvec_restore :: "regs \<Rightarrow> memory \<Rightarrow> regs" where
  "kernelvec_restore r m =
     (let r = fold (\<lambda>(i, k) r. r(i := load64 m (r 2 + k))) (filter (\<lambda>(i, _). i \<noteq> 4) kvec_slots) r in r(2 := r 2 + 256))"

section \<open>Interrupt controller\<close>

definition UART0_IRQ :: nat where "UART0_IRQ = 10"
definition VIRTIO0_IRQ :: nat where "VIRTIO0_IRQ = 1"

definition PLIC_SENABLE :: "nat \<Rightarrow> uint64" where
  "PLIC_SENABLE h = PLIC + 0x2080 + word_of_nat h * 0x100"

definition PLIC_SPRIORITY :: "nat \<Rightarrow> uint64" where
  "PLIC_SPRIORITY h = PLIC + 0x201000 + word_of_nat h * 0x2000"

definition PLIC_SCLAIM :: "nat \<Rightarrow> uint64" where
  "PLIC_SCLAIM h = PLIC + 0x201004 + word_of_nat h * 0x2000"

definition plic_put :: "uint64 \<Rightarrow> uint32 \<Rightarrow> 'a kproc_scheme \<Rightarrow> 'a kproc_scheme" where
  "plic_put a v s = s\<lparr>plic_writes := plic_writes s @ [(a, v)]\<rparr>"

definition plicinit :: "'a kproc_scheme \<Rightarrow> 'a kproc_scheme" where
  "plicinit s = plic_put (PLIC + word_of_nat (VIRTIO0_IRQ * 4)) 1 (plic_put (PLIC + word_of_nat (UART0_IRQ * 4)) 1 s)"

definition plicinithart :: "'a kproc_scheme \<Rightarrow> 'a kproc_scheme" where
  "plicinithart s =
     (let h = cpuid s;
          s = plic_put (PLIC_SENABLE h) (push_bit UART0_IRQ 1 OR push_bit VIRTIO0_IRQ 1) s in
      plic_put (PLIC_SPRIORITY h) 0 s)"

text \<open>The read that claims an interrupt is kept among the accesses, as a write of 0, so that its effect shows.\<close>

definition plic_claim :: "'a kproc_scheme \<Rightarrow> uint32 \<times> 'a kproc_scheme" where
  "plic_claim s = (let h = cpuid s in (plic_irq s (plic_writes s) h, plic_put (PLIC_SCLAIM h) 0 s))"

definition plic_complete :: "uint32 \<Rightarrow> 'a kproc_scheme \<Rightarrow> 'a kproc_scheme" where
  "plic_complete irq s = plic_put (PLIC_SCLAIM (cpuid s)) irq s"

section \<open>Device interrupts\<close>

definition trapinit :: "'a machine_scheme \<Rightarrow> 'a machine_scheme" where
  "trapinit s = initlock L_ticks ''time'' s"

definition trapinithart :: "'a kproc_scheme \<Rightarrow> 'a kproc_scheme" where
  "trapinithart s = s\<lparr>stvec := (stvec s)(hart s := sym s ''kernelvec'')\<rparr>"

definition clockintr :: "'a kproc_scheme \<Rightarrow> 'a kproc_scheme res" where
  "clockintr s =
     bindE (if cpuid s = 0 then
              bindE (acquire L_ticks s) (\<lambda>s.
              bindE (wakeup Ch_ticks (s\<lparr>ticks := ticks s + 1\<rparr>)) (release L_ticks))
            else Inr s) (\<lambda>s.
     Inr (s\<lparr>stimecmp := (stimecmp s)(hart s := time s + 1000000)\<rparr>))"

definition devintr :: "'a kproc_scheme \<Rightarrow> (nat \<times> 'a kproc_scheme) res" where
  "devintr s =
     (let cause = scause s (hart s) in
      if cause = 0x8000000000000009 then
        let (irq, s) = plic_claim s in
        bindE (if irq = word_of_nat UART0_IRQ then uartintr s
               else if irq = word_of_nat VIRTIO0_IRQ then virtio_disk_intr s
               else if irq \<noteq> 0 then printf (''unexpected interrupt irq=%d'' @ nl) [VInt irq] s
               else Inr s) (\<lambda>s.
        Inr (1, if irq \<noteq> 0 then plic_complete irq s else s))
      else if cause = 0x8000000000000005 then bindE (clockintr s) (\<lambda>s. Inr (2, s))
      else Inr (0, s))"

section \<open>User traps\<close>

definition usertrapret :: "'a kproc_scheme \<Rightarrow> 'a kproc_scheme res" where
  "usertrapret s =
     bindE (curproc s) (\<lambda>(p, s).
     let s = intr_off s;
         h = hart s;
         s = s\<lparr>stvec := (stvec s)(h := TRAMPOLINE + (sym s ''uservec'' - trampoline s))\<rparr>;
         s = tf_set p tf_kernel_satp (satp s h) s;
         s = tf_set p tf_kernel_sp (p_kstack (procs s p) + PGSIZE) s;
         s = tf_set p tf_kernel_trap (sym s ''usertrap'') s;
         s = tf_set p tf_kernel_hartid (word_of_nat h) s;
         s = s\<lparr>spp := (spp s)(h := False), spie := (spie s)(h := True)\<rparr>;
         s = s\<lparr>sepc := (sepc s)(h := tf_get p tf_epc s)\<rparr> in
     Inr s)"

text \<open>
  A trap ends back in the user program, or with the process in the scheduler: after \<^verbatim>\<open>exit\<close>, or after
  the first half of \<^verbatim>\<open>yield\<close>, to be continued by \<open>usertrap_resume\<close>.
\<close>

datatype trap_end = To_user | Exited bool | Yielded bool

definition usertrap_tail :: "nat \<Rightarrow> nat \<Rightarrow> 'a kproc_scheme \<Rightarrow> (trap_end \<times> 'a kproc_scheme) res" where
  "usertrap_tail p which_dev s =
     bindE (killed p s) (\<lambda>(k, s).
     if k \<noteq> 0 then bindE (exit_out (-1) s) (\<lambda>(i, s). Inr (Exited i, s))
     else if which_dev = 2 then bindE (yield_out s) (\<lambda>(i, s). Inr (Yielded i, s))
     else bindE (usertrapret s) (\<lambda>s. Inr (To_user, s)))"

definition usertrap :: "'a kproc_scheme \<Rightarrow> (trap_end \<times> 'a kproc_scheme) res" where
  "usertrap s =
     (if spp s (hart s) then Inl (Panic ''usertrap: not from user mode'')
      else
        let s = s\<lparr>stvec := (stvec s)(hart s := sym s ''kernelvec'')\<rparr> in
        bindE (curproc s) (\<lambda>(p, s).
        let s = tf_set p tf_epc (sepc s (hart s)) s in
        if scause s (hart s) = 8 then
          bindE (killed p s) (\<lambda>(k, s).
          if k \<noteq> 0 then bindE (exit_out (-1) s) (\<lambda>(i, s). Inr (Exited i, s))
          else
            let s = tf_set p tf_epc (tf_get p tf_epc s + 4) s;
                s = intr_on s in
            bindE (syscall s) (\<lambda>(r, s).
            case r of Some i \<Rightarrow> Inr (Exited i, s) | None \<Rightarrow> usertrap_tail p 0 s))
        else bindE (devintr s) (\<lambda>(which_dev, s).
          if which_dev \<noteq> 0 then usertrap_tail p which_dev s
          else
            bindE (printf (''usertrap(): unexpected scause 0x%lx pid=%d'' @ nl)
              [VLong (scause s (hart s)), VInt (word_of_int (p_pid (procs s p)))] s) (\<lambda>s.
            bindE (printf (''            sepc=0x%lx stval=0x%lx'' @ nl) [VLong (sepc s (hart s)), VLong (stval s (hart s))] s) (\<lambda>s.
            bindE (setkilled p s) (usertrap_tail p 0))))))"

definition usertrap_resume :: "nat \<Rightarrow> bool \<Rightarrow> 'a kproc_scheme \<Rightarrow> 'a kproc_scheme res" where
  "usertrap_resume p i s = bindE (yield_in p i s) usertrapret"

section \<open>Kernel traps\<close>

definition kerneltrap_tail :: "uint64 \<Rightarrow> bool \<Rightarrow> bool \<Rightarrow> 'a kproc_scheme \<Rightarrow> 'a kproc_scheme" where
  "kerneltrap_tail epc was ie s =
     s\<lparr>sepc := (sepc s)(hart s := epc), spp := (spp s)(hart s := was), spie := (spie s)(hart s := ie)\<rparr>"

text \<open>
  The result is \<open>None\<close> when the handler returns, and \<open>Some\<close> after the first half of a \<^verbatim>\<open>yield\<close>, to be
  continued by \<open>kerneltrap_resume\<close>.
\<close>

definition kerneltrap :: "'a kproc_scheme \<Rightarrow> (bool option \<times> 'a kproc_scheme) res" where
  "kerneltrap s =
     (let epc = sepc s (hart s); was = spp s (hart s); ie = spie s (hart s); cause = scause s (hart s) in
      if \<not> was then Inl (Panic ''kerneltrap: not from supervisor mode'')
      else if intr_get s then Inl (Panic ''kerneltrap: interrupts enabled'')
      else bindE (devintr s) (\<lambda>(which_dev, s).
        if which_dev = 0 then
          bindE (printf (''scause=0x%lx sepc=0x%lx stval=0x%lx'' @ nl)
            [VLong cause, VLong (sepc s (hart s)), VLong (stval s (hart s))] s) (\<lambda>s. Inl (Panic ''kerneltrap''))
        else
          bindE (if which_dev = 2 then myproc s else Inr (None, s)) (\<lambda>(q, s).
          if which_dev = 2 \<and> q \<noteq> None then bindE (yield_out s) (\<lambda>(i, s). Inr (Some i, s))
          else Inr (None, kerneltrap_tail epc was ie s))))"

definition kerneltrap_resume :: "nat \<Rightarrow> bool \<Rightarrow> uint64 \<Rightarrow> bool \<Rightarrow> bool \<Rightarrow> 'a kproc_scheme \<Rightarrow> 'a kproc_scheme res" where
  "kerneltrap_resume p i epc was ie s = bindE (yield_in p i s) (\<lambda>s. Inr (kerneltrap_tail epc was ie s))"

section \<open>First run of a process\<close>

definition forkret :: "'a kproc_scheme \<Rightarrow> 'a kproc_scheme res" where
  "forkret s =
     bindE (curproc s) (\<lambda>(p, s).
     bindE (release (L_proc p) s) (\<lambda>s.
     bindE (if fork_first s then bindE (fsinit ROOTDEV s) (\<lambda>s. Inr (s\<lparr>fork_first := False\<rparr>)) else Inr s) usertrapret))"

section \<open>Boot\<close>

definition slab_words :: nat where
  "slab_words = 0"

text \<open>\<^verbatim>\<open>main\<close> on the boot hart up to the scheduler, and on the others once \<^verbatim>\<open>started\<close> is set.\<close>

definition main_boot :: "'a kproc_scheme \<Rightarrow> 'a kproc_scheme res" where
  "main_boot s =
     (let s = printfinit (consoleinit s) in
      bindE (printf nl [] s) (\<lambda>s.
      bindE (printf (''xv6 kernel is booting'' @ nl) [] s) (\<lambda>s.
      bindE (printf nl [] s) (\<lambda>s.
      bindE (debug (''[MP2] Slab size: %lu'' @ nl) [VLong (word_of_nat slab_words)] s) (\<lambda>s.
      bindE (kinit s) (\<lambda>s.
      bindE (kvminit s) (\<lambda>s.
      let s = kvminithart s in
      bindE (procinit s) (\<lambda>s.
      let s = plicinithart (plicinit (trapinithart (trapinit s))) in
      bindE (binit s) (\<lambda>s.
      bindE (iinit s) (\<lambda>s.
      bindE (fileinit s) (\<lambda>s.
      bindE (virtio_disk_init s) userinit)))))))))))"

definition main_other :: "'a kproc_scheme \<Rightarrow> 'a kproc_scheme res" where
  "main_other s =
     bindE (printf (''hart %d starting'' @ nl) [VInt (word_of_nat (cpuid s))] s) (\<lambda>s.
     Inr (plicinithart (trapinithart (kvminithart s))))"


section \<open>Saving and restoring registers\<close>

definition is_slot :: "uint64 \<Rightarrow> bool" where
  "is_slot k \<longleftrightarrow> unat k mod 8 = 0 \<and> unat k < 4096"

definition slots_ok :: "(nat \<times> uint64) list \<Rightarrow> bool" where
  "slots_ok ps \<longleftrightarrow> distinct (map fst ps) \<and> distinct (map snd ps) \<and> list_all is_slot (map snd ps)"

lemma slot_index:
  assumes "is_slot k" obtains j where "j < 512" "k = word_of_nat (8 * j)"
proof
  have e: "8 * (unat k div 8) = unat k" using assms by (auto simp: is_slot_def)
  show "k = word_of_nat (8 * (unat k div 8))" unfolding e by simp
  show "unat k div 8 < 512" using assms by (simp add: is_slot_def less_mult_imp_div_less)
qed

lemma slot_other:
  assumes "is_slot k" "is_slot k'" "k \<noteq> k'"
  shows "load64 (store64 (b + k) v m) (b + k') = load64 m (b + k')"
proof -
  obtain j j' where "j < 512" "k = word_of_nat (8 * j)" "j' < 512" "k' = word_of_nat (8 * j')"
    using assms(1,2) by (metis slot_index)
  then show ?thesis using assms(3) load64_store64_slot [of j j' b v m] by fastforce
qed

lemma save_regs_other:
  assumes "list_all is_slot (map snd ps)"
    and "is_slot k" "k \<notin> snd ` set ps"
  shows "load64 (save_regs b r ps m) (b + k) = load64 m (b + k)"
  using assms
proof (induction ps arbitrary: m)
  case (Cons p ps)
  obtain i q where p: "p = (i, q)" by (cases p)
  have "load64 (save_regs b r (p # ps) m) (b + k) = load64 (store64 (b + q) (r i) m) (b + k)"
    using Cons unfolding p save_regs_def by simp
  also have "\<dots> = load64 m (b + k)" using Cons.prems unfolding p by (intro slot_other) auto
  finally show ?case .
qed (simp add: save_regs_def)

lemma save_regs_same:
  assumes "slots_ok ps" "(i, k) \<in> set ps"
  shows "load64 (save_regs b r ps m) (b + k) = r i"
  using assms
proof (induction ps arbitrary: m)
  case (Cons p ps)
  obtain i' q where p: "p = (i', q)" by (cases p)
  have e: "save_regs b r (p # ps) m = save_regs b r ps (store64 (b + q) (r i') m)" by (simp add: save_regs_def p)
  have ok: "slots_ok ps" using Cons.prems by (simp add: slots_ok_def p)
  show ?case
  proof (cases "(i, k) \<in> set ps")
    case True then show ?thesis unfolding e by (rule Cons.IH [OF ok])
  next
    case False
    then have "i' = i" "q = k" using Cons.prems p by auto
    moreover have "k \<notin> snd ` set ps" using Cons.prems(1) \<open>q = k\<close> by (auto simp: slots_ok_def p)
    ultimately show ?thesis unfolding e
      using save_regs_other [of ps k b r "store64 (b + q) (r i') m"] Cons.prems(1) by (simp add: slots_ok_def p)
  qed
qed simp

lemma load_regs_apply:
  assumes "distinct (map fst ps)"
  shows "load_regs b m ps r i = (case map_of ps i of Some k \<Rightarrow> load64 m (b + k) | None \<Rightarrow> r i)"
  using assms
proof (induction ps arbitrary: r)
  case (Cons p ps)
  obtain i' q where p: "p = (i', q)" by (cases p)
  have e: "load_regs b m (p # ps) r = load_regs b m ps (r(i' := load64 m (b + q)))" by (simp add: load_regs_def p)
  have "i' \<notin> fst ` set ps" using Cons.prems by (auto simp: p)
  then have "map_of ps i' = None" by (simp add: map_of_eq_None_iff)
  then show ?case unfolding e using Cons by (simp add: p split: option.split)
qed (simp add: load_regs_def)

lemma tf_slots_ok: "slots_ok tf_slots"
  unfolding slots_ok_def tf_slots_def by (simp add: is_slot_def)

lemma kvec_slots_ok: "slots_ok kvec_slots"
  unfolding slots_ok_def kvec_slots_def by (simp add: is_slot_def)


lemma tf_slots_member: "i \<in> set [1..<32] \<Longrightarrow> i \<noteq> 10 \<Longrightarrow> (i, word_of_nat (32 + 8 * i)) \<in> set tf_slots"
proof -
  have "list_all (\<lambda>i. i = 10 \<or> (i, word_of_nat (32 + 8 * i)) \<in> set tf_slots) [1..<32]" by code_simp
  then show "i \<in> set [1..<32] \<Longrightarrow> i \<noteq> 10 \<Longrightarrow> (i, word_of_nat (32 + 8 * i)) \<in> set tf_slots" by (auto simp: list_all_iff)
qed

lemma userret_apply:
  assumes "1 \<le> i" "i \<le> 31"
  shows "fst (userret tf r m) i = load64 m (tf + word_of_nat (32 + 8 * i))"
proof -
  have "i \<in> set [1..<32]" using assms by auto
  then show ?thesis
    unfolding userret_def Let_def fst_conv fun_upd_apply load_regs_apply [OF conjunct1 [OF tf_slots_ok [unfolded slots_ok_def]]]
    by (simp add: upt_rec) (auto simp: tf_slots_def)
qed


text \<open>
  C17. A trap does not change the user's registers: after \<^verbatim>\<open>uservec\<close> has saved them, \<^verbatim>\<open>userret\<close> gives each of the
  31 general registers its old value, whatever the kernel's own registers are and whatever it did to
  memory outside the save area of the trapframe. \<^verbatim>\<open>uservec\<close> takes the kernel's stack, hart number, entry
  point and page table from the words of the trapframe that \<^verbatim>\<open>usertrapret\<close> filled.
\<close>

theorem uservec_userret_roundtrip:
  assumes "uservec tf r m = (r1, m1, satp1, pc)"
    and "\<And>i. 1 \<le> i \<Longrightarrow> i \<le> 31 \<Longrightarrow> load64 m2 (tf + word_of_nat (32 + 8 * i)) = load64 m1 (tf + word_of_nat (32 + 8 * i))"
    and "1 \<le> i" "i \<le> 31"
  shows "fst (userret tf rk m2) i = r i \<and> r1 2 = load64 m (tf + tf_kernel_sp) \<and> r1 4 = load64 m (tf + tf_kernel_hartid) \<and>
    pc = load64 m (tf + tf_kernel_trap) \<and> satp1 = load64 m (tf + tf_kernel_satp)"
proof -
  let ?r = "r(10 := TRAPFRAME)"
  let ?ms = "save_regs tf ?r tf_slots m"
  have m1: "m1 = store64 (tf + 112) (r 10) ?ms" using assms(1) by (auto simp: uservec_def Let_def)
  have low: "load64 m1 (tf + k) = load64 m (tf + k)" if "k \<in> {0, 8, 16, 32}" for k
  proof -
    have "load64 m1 (tf + k) = load64 ?ms (tf + k)"
      unfolding m1 using that by (intro slot_other) (auto simp: is_slot_def)
    also have "\<dots> = load64 m (tf + k)"
      using that tf_slots_ok by (intro save_regs_other) (auto simp: is_slot_def slots_ok_def tf_slots_def)
    finally show ?thesis .
  qed
  have "load64 m1 (tf + word_of_nat (32 + 8 * i)) = r i"
  proof (cases "i = 10")
    case False
    have k: "(i, word_of_nat (32 + 8 * i)) \<in> set tf_slots"
      using assms(3,4) False by (intro tf_slots_member) auto
    then have "is_slot (word_of_nat (32 + 8 * i))" "word_of_nat (32 + 8 * i) \<noteq> (112 :: uint64)"
      by (auto simp del: of_nat_add of_nat_mult simp: tf_slots_def is_slot_def)
    then have "load64 m1 (tf + word_of_nat (32 + 8 * i)) = load64 ?ms (tf + word_of_nat (32 + 8 * i))"
      unfolding m1 by (intro slot_other) (auto simp: is_slot_def)
    then show ?thesis using save_regs_same [OF tf_slots_ok k, of tf ?r m] False by simp
  qed (simp add: m1)
  moreover have "r1 2 = load64 m1 (tf + 8)" "r1 4 = load64 m1 (tf + 32)" "pc = load64 m1 (tf + 16)" "satp1 = load64 m1 (tf + 0)"
    using assms(1) by (auto simp: uservec_def Let_def)
  ultimately show ?thesis using assms(2) [OF assms(3,4)] userret_apply [OF assms(3,4)] low low [of 0]
    by (simp add: tf_kernel_sp_def tf_kernel_hartid_def tf_kernel_trap_def tf_kernel_satp_def)
qed

theorem uservec_userret_roundtrip_witness:
  "fst (userret 0x80000000 (\<lambda>_. 7) (fst (snd (uservec 0x80000000 (\<lambda>i. word_of_nat (100 + i)) (\<lambda>_. 0))))) 17 = 117"
proof -
  let ?u = "uservec 0x80000000 (\<lambda>i. word_of_nat (100 + i)) (\<lambda>_. 0)"
  have "?u = (fst ?u, fst (snd ?u), fst (snd (snd ?u)), snd (snd (snd ?u)))" by simp
  from uservec_userret_roundtrip [OF this, of "fst (snd ?u)" 17 "\<lambda>_. 7"] show ?thesis by simp
qed

lemma fold_sp_relative:
  assumes "\<And>k. (2, k) \<in> set ps \<Longrightarrow> load64 m (b + k) = b" "r 2 = b"
  shows "fold (\<lambda>(i, k) r. r(i := load64 m (r 2 + k))) ps r = load_regs b m ps r"
  using assms unfolding load_regs_def by (induction ps arbitrary: r) auto

text \<open>
  C18. A trap taken in the kernel is invisible to the interrupted code: \<^verbatim>\<open>kernelvec\<close> saves the caller-saved
  registers on the stack and restores them, so that when \<^verbatim>\<open>kerneltrap\<close> keeps the callee-saved registers and the
  saved words, every register except \<^verbatim>\<open>tp\<close>, which follows the CPU, has its old value.
\<close>

theorem kernelvec_roundtrip:
  assumes "kernelvec_save r m = (r1, m1)"
    and "\<forall>i \<in> {2, 8, 9} \<union> {18..27}. r2 i = r1 i"
    and "\<forall>k \<in> snd ` set kvec_slots. load64 m2 (r1 2 + k) = load64 m1 (r1 2 + k)"
    and "1 \<le> i" "i \<le> 31" "i \<noteq> 4"
  shows "kernelvec_restore r2 m2 i = r i"
proof -
  let ?r = "r(2 := r 2 - 256)"
  let ?ps = "filter (\<lambda>(i, _). i \<noteq> 4) kvec_slots"
  have r1: "r1 = ?r" and m1: "m1 = save_regs (r 2 - 256) ?r kvec_slots m"
    using assms(1) by (auto simp: kernelvec_save_def Let_def)
  have r22: "r2 2 = r 2 - 256" using assms(2) r1 by simp
  have d: "distinct (map fst ?ps)" by (simp add: kvec_slots_def)
  have saved: "load64 m2 (r 2 - 256 + k) = ?r j" if "(j, k) \<in> set kvec_slots" for j k
    using assms(3) that save_regs_same [OF kvec_slots_ok that, of "r 2 - 256" ?r m] by (force simp: r1 m1)
  have loaded: "load_regs (r2 2) m2 ?ps r2 j = ?r j" if j: "1 \<le> j" "j \<le> 31" "j \<noteq> 4" for j
  proof (cases "map_of ?ps j")
    case None
    moreover have "j \<in> set [1..<32]" using j by auto
    ultimately have "j \<in> {2, 8, 9} \<union> {18..27}" using j(3) by (auto simp: upt_rec kvec_slots_def)
    then show ?thesis using assms(2) None unfolding load_regs_apply [OF d] r1 by auto
  next
    case (Some k)
    then have "(j, k) \<in> set ?ps" by (rule map_of_SomeD)
    then have "(j, k) \<in> set kvec_slots" by simp
    then show ?thesis using saved Some unfolding load_regs_apply [OF d] r22 by simp
  qed
  have "fold (\<lambda>(i, k) r. r(i := load64 m2 (r 2 + k))) ?ps r2 = load_regs (r2 2) m2 ?ps r2"
    using saved by (intro fold_sp_relative) (auto simp: r22)
  then show ?thesis using loaded [OF assms(4-6)] loaded [of 2]
    by (auto simp: kernelvec_restore_def Let_def)
qed

theorem kernelvec_roundtrip_witness:
  "kernelvec_restore (fst (kernelvec_save (\<lambda>i. word_of_nat (1000 + i)) (\<lambda>_. 0)))
     (snd (kernelvec_save (\<lambda>i. word_of_nat (1000 + i)) (\<lambda>_. 0))) 13 = 1013"
proof -
  let ?u = "kernelvec_save (\<lambda>i. word_of_nat (1000 + i)) (\<lambda>_. 0)"
  have "?u = (fst ?u, snd ?u)" by simp
  from kernelvec_roundtrip [OF this, of "fst ?u" "snd ?u" 13] show ?thesis by simp
qed

end
