(* ===== verification/InodeDisk.thy ===== *)
theory InodeDisk imports File begin

text \<open>
  Inodes on disk: what \<^verbatim>\<open>iupdate\<close> writes into the block of an inode and what \<^verbatim>\<open>ilock\<close> reads from it, through the
  buffer cache and the log. The first part shows that the disk layer keeps the state above it.
\<close>

section \<open>What the disk layer leaves alone\<close>

text \<open>
  The fields above the disk driver, the log and everything that uses it, are the extension \<open>vdisk.more\<close>
  of the driver's record.
\<close>

named_theorems more_frame \<open>operations of the disk layer keep the fields above it\<close>

lemma mframe_more: "mframe s s' \<Longrightarrow> vdisk.more s' = vdisk.more s" "mframe s s' \<Longrightarrow> vq s' = vq s"
  by (subst mframe_eq, assumption, simp)+

lemmas mops_more [more_frame] = mframe_more(1) [OF acquire_frame] mframe_more(1) [OF release_frame] mframe_more(1) [OF wakeup_frame]
  mframe_more(1) [OF curproc_frame]

lemmas mops_vq = mframe_more(2) [OF acquire_frame] mframe_more(2) [OF release_frame] mframe_more(2) [OF wakeup_frame]
  mframe_more(2) [OF curproc_frame]

lemma upd_more [simp]:
  "vdisk.more (upd_proc p f s) = vdisk.more s" "vdisk.more (set_mycpu c s) = vdisk.more s" "vdisk.more (upd_buf b g s) = vdisk.more s"
  "vdisk.more (mmio_put r x s) = vdisk.more s" "vdisk.more (sched_in i s) = vdisk.more s" "vdisk.more (upd_data b h s) = vdisk.more s"
  by (simp_all add: upd_proc_def set_mycpu_def upd_buf_def mmio_put_def sched_in_def upd_data_def)

lemma sched_out_more [more_frame]: "sched_out s = Inr (i, s') \<Longrightarrow> vdisk.more s' = vdisk.more s"
  by (auto simp: sched_out_def swtch_def Let_def res_iff more_frame split: if_splits)

lemma sleep_out_more [more_frame]: "sleep_out chan lk s = Inr (i, s') \<Longrightarrow> vdisk.more s' = vdisk.more s"
  by (auto simp: sleep_out_def res_iff more_frame)

lemma sleep_in_more [more_frame]: "sleep_in p lk i s = Inr s' \<Longrightarrow> vdisk.more s' = vdisk.more s"
  by (auto simp: sleep_in_def Let_def res_iff more_frame)

lemma scheduler_more [more_frame]:
  "scheduler_back p s = Inr s' \<Longrightarrow> vdisk.more s' = vdisk.more s"
  "scheduler_pick p s = Inr (ok, s') \<Longrightarrow> vdisk.more s' = vdisk.more s"
  by (auto simp: scheduler_back_def scheduler_pick_def swtch_def Let_def res_iff more_frame split: if_splits)

lemma free_desc_more [more_frame]: "free_desc i s = Inr s' \<Longrightarrow> vdisk.more s' = vdisk.more s"
  by (auto simp: free_desc_def Let_def res_iff more_frame split: if_splits)

lemma free_descs_more [more_frame]: "forE free_desc is s = Inr s' \<Longrightarrow> vdisk.more s' = vdisk.more s"
  by (induction "is" arbitrary: s) (auto simp: res_iff more_frame)

lemma free_chain_more [more_frame]: "free_chain i s = Inr s' \<Longrightarrow> vdisk.more s' = vdisk.more s"
proof -
  have "free_chain_from k i s = Inr s' \<Longrightarrow> vdisk.more s' = vdisk.more s" for k
  proof (induction k i s rule: free_chain_from.induct)
    case (1 k i s)
    obtain s1 where s1: "free_desc i s = Inr s1"
      and r: "(if d_flags (desc (vq s) i) AND VRING_DESC_F_NEXT \<noteq> 0
        then (if k = 0 then Inl Spins else free_chain_from (k - 1) (unat (d_next (desc (vq s) i))) s1) else Inr s1) = Inr s'"
      using 1(2) by (subst (asm) free_chain_from.simps) (auto simp: Let_def res_iff)
    have "vdisk.more s' = vdisk.more s1" using r 1(1) [OF refl refl s1] by (auto split: if_split_asm)
    then show ?case using free_desc_more [OF s1] by simp
  qed
  then show "free_chain i s = Inr s' \<Longrightarrow> vdisk.more s' = vdisk.more s" unfolding free_chain_def .
qed

lemma alloc_more_more [more_frame]: "alloc_more n idx s = Inr (r, s') \<Longrightarrow> vdisk.more s' = vdisk.more s"
  by (induction n idx s rule: alloc_more.induct) (auto simp: alloc_desc_def res_iff more_frame split: option.splits)

lemma intr_entries_more [more_frame]: "intr_entries n s = Inr s' \<Longrightarrow> vdisk.more s' = vdisk.more s"
proof (induction n arbitrary: s)
  case 0
  then show ?case by (subst (asm) intr_entries.simps) (auto split: if_splits)
next
  case (Suc n)
  from Suc.prems show ?case
    by (subst (asm) intr_entries.simps) (auto simp: Let_def res_iff more_frame dest!: Suc.IH split: if_splits option.splits)
qed

lemma disk_sleep_more [more_frame]: "disk_sleep b s = Inr s' \<Longrightarrow> vdisk.more s' = vdisk.more s"
  by (auto simp: disk_sleep_def virtio_disk_intr_def Let_def res_iff more_frame split: if_splits)

lemma disk_submit_more [simp]: "vdisk.more (disk_submit b w i0 i1 i2 s) = vdisk.more s"
  by (simp add: disk_submit_def Let_def)

lemma virtio_disk_rw_more [more_frame]:
  assumes "virtio_disk_rw b w s = Inr s'" shows "vdisk.more s' = vdisk.more s"
proof -
  obtain s1 idx s2 where 1: "acquire L_vdisk s = Inr s1" "alloc3_desc s1 = Inr (idx, s2)"
    and r: "(case idx of Some [i0, i1, i2] \<Rightarrow>
         bindE (disk_sleep b (disk_submit b w i0 i1 i2 s2)) (\<lambda>s.
         if b_disk (bufs s b) then Inl Sleeps
         else bindE (free_chain i0 (s\<lparr>info_b := (info_b s)(i0 := None)\<rparr>)) (release L_vdisk))
     | _ \<Rightarrow> Inl Sleeps) = Inr s'"
    using assms by (auto simp: virtio_disk_rw_def res_iff)
  obtain i0 i1 i2 where "idx = Some [i0, i1, i2]" using r by (auto split: option.split_asm list.split_asm)
  then have "vdisk.more s' = vdisk.more s2" using r by (auto simp: res_iff more_frame split: if_splits)
  then show ?thesis using 1 by (simp add: alloc3_desc_def more_frame)
qed

lemma sleeplock_more [more_frame]:
  "acquiresleep k s = Inr s' \<Longrightarrow> vdisk.more s' = vdisk.more s"
  "releasesleep k s = Inr s' \<Longrightarrow> vdisk.more s' = vdisk.more s"
  "holdingsleep k s = Inr (h, s') \<Longrightarrow> vdisk.more s' = vdisk.more s"
  by (auto simp: acquiresleep_def releasesleep_def holdingsleep_def Let_def res_iff more_frame split: if_splits)

lemma sleeplock_vq:
  "acquiresleep k s = Inr s' \<Longrightarrow> vq s' = vq s"
  "releasesleep k s = Inr s' \<Longrightarrow> vq s' = vq s"
  "holdingsleep k s = Inr (h, s') \<Longrightarrow> vq s' = vq s"
  by (auto simp: acquiresleep_def releasesleep_def holdingsleep_def Let_def res_iff mops_vq split: if_splits)

lemma bget_locks:
  assumes "bget dev n s = Inr (b, s')" and 1: "acquire L_bcache s = Inr s1"
  obtains f s2 where "release L_bcache (upd_buf b f s1) = Inr s2" "acquiresleep (SL_buf (unat b)) s2 = Inr s'"
proof -
  note r = assms(1) [unfolded bget_def 1 bindE_simps]
  show thesis
  proof (cases "scan (\<lambda>b. next (blist s1 b)) (\<lambda>b. b_dev (bufs s1 b) = dev \<and> b_blockno (bufs s1 b) = n)
            (next (blist s1 bcache_head)) bcache_head")
    case (Some x)
    then show ?thesis
    proof (cases x)
      case None
      then show ?thesis using r Some that by (auto simp: res_iff split: option.split_asm)
    qed (use r Some that in \<open>auto simp: res_iff\<close>)
  qed (use r in simp)
qed

lemma bget_more [more_frame]:
  assumes "bget dev n s = Inr (b, s')" shows "vdisk.more s' = vdisk.more s"
proof -
  obtain s1 where 1: "acquire L_bcache s = Inr s1" using assms by (auto simp: bget_def res_iff)
  obtain f s2 where "release L_bcache (upd_buf b f s1) = Inr s2" "acquiresleep (SL_buf (unat b)) s2 = Inr s'"
    using bget_locks [OF assms 1] .
  then show ?thesis using 1 by (simp add: more_frame)
qed

lemma bread_more [more_frame]:
  assumes "bread dev n s = Inr (b, s')" shows "vdisk.more s' = vdisk.more s"
proof -
  obtain s1 where 1: "bget dev n s = Inr (b, s1)" and "s' = s1 \<or> (\<exists>s2. virtio_disk_rw b False s1 = Inr s2 \<and> s' = upd_buf b (\<lambda>x. x\<lparr>b_valid := True\<rparr>) s2)"
    using assms by (auto simp: bread_def res_iff split: if_split_asm)
  then show ?thesis using bget_more [OF 1] by (auto dest!: virtio_disk_rw_more)
qed

lemma brelse_frame: "brelse b s = Inr s' \<Longrightarrow> vdisk.more s' = vdisk.more s \<and> vq s' = vq s"
  by (auto simp: brelse_def Let_def res_iff more_frame mops_vq sleeplock_vq upd_buf_def split: if_splits)

lemma log_write_frame:
  assumes "log_write b s = Inr s'" shows "klog.more s' = klog.more s \<and> vq s' = vq s"
proof -
  have f: "klog.more t = klog.more u" "vq t = vq u" if "mframe u t" for t u :: "'a klog_scheme"
    by (subst mframe_eq [OF that], simp)+
  note ops = f [OF acquire_frame] f [OF release_frame]
  obtain s1 where 1: "acquire L_log s = Inr s1" using assms by (auto simp: log_write_def res_iff)
  define i where "i = (case first_from (\<lambda>i. lh_block s1 i = b_blockno (bufs s1 b)) 0 (nat (lh_n s1)) of
    Some i \<Rightarrow> i | None \<Rightarrow> nat (lh_n s1))"
  obtain s2 where
    2: "(if int i = lh_n s1 then bindE (bpin b (s1\<lparr>lh_block := (lh_block s1)(i := b_blockno (bufs s1 b))\<rparr>)) (\<lambda>s. Inr (s\<lparr>lh_n := lh_n s + 1\<rparr>))
         else Inr (s1\<lparr>lh_block := (lh_block s1)(i := b_blockno (bufs s1 b))\<rparr>)) = Inr s2" "release L_log s2 = Inr s'"
    using assms unfolding log_write_def 1 bindE_simps i_def [symmetric] Let_def
    by (auto simp: bindE_Inr_iff split: if_split_asm)
  have "klog.more s2 = klog.more s1 \<and> vq s2 = vq s1"
    using 2(1) by (auto simp: bpin_def res_iff ops upd_buf_def split: if_split_asm)
  then show ?thesis using ops(1,2) [OF 1] ops(3,4) [OF 2(2)] by simp
qed

lemma fsys_more:
  assumes "vdisk.more s' = vdisk.more s" shows "klog.more s' = klog.more s"
  using assms by (cases s; cases s') simp

lemma fsys_fields:
  assumes "klog.more s' = klog.more s" shows "itable s' = itable s" "sb s' = sb s"
  using assms by (cases s; cases s'; simp)+

lemma bget_vq:
  assumes "bget dev n s = Inr (b, s')" shows "vq s' = vq s"
proof -
  obtain s1 where 1: "acquire L_bcache s = Inr s1" using assms by (auto simp: bget_def res_iff)
  obtain f s2 where 2: "release L_bcache (upd_buf b f s1) = Inr s2" "acquiresleep (SL_buf (unat b)) s2 = Inr s'"
    using bget_locks [OF assms 1] .
  show ?thesis using mops_vq sleeplock_vq(1) [OF 2(2)] 1 2(1) by (simp add: mops_vq upd_buf_def)
qed

text \<open>A block that is in the cache is not read from the disk.\<close>

lemma bread_cached:
  assumes "bread dev n s = Inr (b, s')" and "bget dev n s = Inr (c, s1)" "b_valid (bufs s1 c)"
  shows "b = c \<and> vq s' = vq s"
  using assms bget_vq [OF assms(2)] by (simp add: bread_def)

lemma dinode_in_block: "dinode_at i + sizeof_dinode \<le> BSIZE"
proof -
  have "unat i mod 16 < (16 :: nat)" by simp
  then show ?thesis by (simp add: dinode_at_def IPB_def sizeof_dinode_def NDIRECT_def BSIZE_def)
qed

section \<open>An inode written back and read again\<close>

text \<open>What \<^verbatim>\<open>iupdate\<close> leaves in the buffer of the inode block.\<close>

lemma iupdate_writes:
  assumes "iupdate ip s = Inr s'"
  obtains bp s1 where
    "bread (i_dev (itable s ip)) (IBLOCK (i_inum (itable s ip)) (sb s)) s = Inr (bp, s1)"
    "data_of bp s' = put_dinode (dinode_at (i_inum (itable s ip))) (inode_dinode (itable s ip)) (data_of bp s1)"
    "itable s' = itable s" "sb s' = sb s"
proof -
  obtain bp s1 where 1: "bread (i_dev (itable s ip)) (IBLOCK (i_inum (itable s ip)) (sb s)) s = Inr (bp, s1)"
    using assms by (auto simp: iupdate_def bindE_Inr_iff)
  define s2 where "s2 = upd_data bp (put_dinode (dinode_at (i_inum (itable s1 ip))) (inode_dinode (itable s1 ip))) s1"
  obtain s3 where 3: "log_write bp s2 = Inr s3" "brelse bp s3 = Inr s'"
    using assms unfolding iupdate_def 1 bindE_simps prod.case Let_def s2_def [symmetric] by (auto simp: bindE_Inr_iff)
  note f1 = fsys_fields [OF fsys_more [OF bread_more [OF 1]]]
  note f2 = log_write_frame [OF 3(1)]
  note f3 = brelse_frame [OF 3(2)]
  have "itable s' = itable s \<and> sb s' = sb s"
    using fsys_fields [OF f2 [THEN conjunct1]] fsys_fields [OF fsys_more [OF f3 [THEN conjunct1]]] f1
    by (simp add: s2_def upd_data_def)
  moreover have "data_of bp s' = data_of bp s2" using f2 f3 by (simp add: data_of_def)
  then have "data_of bp s' = put_dinode (dinode_at (i_inum (itable s ip))) (inode_dinode (itable s ip)) (data_of bp s1)"
    by (simp add: s2_def upd_data_def data_of_def f1)
  ultimately show thesis using that 1 by blast
qed

text \<open>What \<^verbatim>\<open>ilock\<close> makes of an inode that is not in memory yet.\<close>

lemma ilock_reads:
  assumes "ilock (Some jp) t = Inr t'" and "\<not> i_valid (itable t jp)"
  obtains b t1 t2 where
    "acquiresleep (SL_inode jp) t = Inr t1"
    "bread (i_dev (itable t jp)) (IBLOCK (i_inum (itable t jp)) (sb t)) t1 = Inr (b, t2)"
    "itable t' = (itable t)(jp := (load_dinode (get_dinode (data_of b t2) (dinode_at (i_inum (itable t jp)))) (itable t jp))\<lparr>i_valid := True\<rparr>)"
proof -
  obtain t1 where 1: "acquiresleep (SL_inode jp) t = Inr t1"
    using assms by (auto simp: ilock_def bindE_Inr_iff split: if_split_asm)
  note f1 = fsys_fields [OF fsys_more [OF sleeplock_more(1) [OF 1]]]
  obtain b t2 where 2: "bread (i_dev (itable t jp)) (IBLOCK (i_inum (itable t jp)) (sb t)) t1 = Inr (b, t2)"
    using assms by (auto simp: ilock_def 1 f1 bindE_Inr_iff split: if_split_asm)
  note f2 = fsys_fields [OF fsys_more [OF bread_more [OF 2]]]
  define t3 where "t3 = upd_inode jp (load_dinode (get_dinode (data_of b t2) (dinode_at (i_inum (itable t2 jp))))) t2"
  obtain t4 where 4: "brelse b t3 = Inr t4" "t' = upd_inode jp (\<lambda>x. x\<lparr>i_valid := True\<rparr>) t4"
    using assms by (auto simp: ilock_def 1 2 f1 Let_def t3_def bindE_Inr_iff split: if_split_asm)
  note f4 = fsys_fields [OF fsys_more [OF brelse_frame [OF 4(1), THEN conjunct1]]]
  have "itable t' = (itable t)(jp := (load_dinode (get_dinode (data_of b t2) (dinode_at (i_inum (itable t jp)))) (itable t jp))\<lparr>i_valid := True\<rparr>)"
    by (simp add: 4(2) upd_inode_def f4 t3_def f2 f1)
  then show thesis using that 1 2 by blast
qed

text \<open>
  C23. An inode that \<^verbatim>\<open>iupdate\<close> has written back is the inode that \<^verbatim>\<open>ilock\<close> later reads. \<^verbatim>\<open>iupdate\<close>
  finds the inode's block through \<^verbatim>\<open>bread\<close>, leaves the inode table as it was, and changes in that block
  only the inode's own slot: what would be loaded from the other slots stays the same. When \<^verbatim>\<open>ilock\<close> later
  locks an entry of the inode table for the same device and inode number whose contents are not valid,
  and the block it reads holds the bytes \<^verbatim>\<open>iupdate\<close> left, the entry becomes valid with the type, device
  numbers, link count, size and all block addresses of the inode written, keeps its own reference
  count, and no other entry changes.
\<close>

theorem inode_written_is_read:
  assumes "iupdate ip s = Inr s'"
    and "ilock (Some jp) t = Inr t'" and "\<not> i_valid (itable t jp)"
    and "i_dev (itable t jp) = i_dev (itable s ip)" and "i_inum (itable t jp) = i_inum (itable s ip)" and "sb t = sb s"
  shows "\<exists>bp s1 t1 b t2.
    bread (i_dev (itable s ip)) (IBLOCK (i_inum (itable s ip)) (sb s)) s = Inr (bp, s1) \<and> itable s' = itable s \<and>
    (\<forall>j y. dinode_at j \<noteq> dinode_at (i_inum (itable s ip)) \<longrightarrow>
       load_dinode (get_dinode (data_of bp s') (dinode_at j)) y = load_dinode (get_dinode (data_of bp s1) (dinode_at j)) y) \<and>
    acquiresleep (SL_inode jp) t = Inr t1 \<and>
    bread (i_dev (itable s ip)) (IBLOCK (i_inum (itable s ip)) (sb s)) t1 = Inr (b, t2) \<and>
    ((\<forall>k < BSIZE. data_of b t2 k = data_of bp s' k) \<longrightarrow>
       itable t' = (itable t)(jp := (itable s ip)\<lparr>i_ref := i_ref (itable t jp), i_valid := True,
         i_addrs := (\<lambda>i. if i < NDIRECT + 1 then i_addrs (itable s ip) i else i_addrs (itable t jp) i)\<rparr>))"
proof -
  let ?k = "dinode_at (i_inum (itable s ip))"
  obtain bp s1 where w: "bread (i_dev (itable s ip)) (IBLOCK (i_inum (itable s ip)) (sb s)) s = Inr (bp, s1)" "itable s' = itable s"
    and d: "data_of bp s' = put_dinode ?k (inode_dinode (itable s ip)) (data_of bp s1)"
    by (rule iupdate_writes [OF assms(1)])
  obtain b t1 t2 where r: "acquiresleep (SL_inode jp) t = Inr t1"
      "bread (i_dev (itable s ip)) (IBLOCK (i_inum (itable s ip)) (sb s)) t1 = Inr (b, t2)"
    and i: "itable t' = (itable t)(jp := (load_dinode (get_dinode (data_of b t2) ?k) (itable t jp))\<lparr>i_valid := True\<rparr>)"
    using ilock_reads [OF assms(2,3)] unfolding assms(4-6) by metis
  have o: "load_dinode (get_dinode (data_of bp s') (dinode_at j)) y = load_dinode (get_dinode (data_of bp s1) (dinode_at j)) y"
    if "dinode_at j \<noteq> ?k" for j y
    unfolding d using dinode_slots_apart [OF that] by (intro get_dinode_cong put_dinode_outside) auto
  have "itable t' = (itable t)(jp := (itable s ip)\<lparr>i_ref := i_ref (itable t jp), i_valid := True,
         i_addrs := (\<lambda>i. if i < NDIRECT + 1 then i_addrs (itable s ip) i else i_addrs (itable t jp) i)\<rparr>)"
    if e: "\<forall>k < BSIZE. data_of b t2 k = data_of bp s' k"
  proof -
    have "load_dinode (get_dinode (data_of b t2) ?k) (itable t jp) = load_dinode (get_dinode (data_of bp s') ?k) (itable t jp)"
      using e dinode_in_block by (intro get_dinode_cong) (meson order_less_le_trans)
    also have "\<dots>\<lparr>i_valid := True\<rparr> = (itable s ip)\<lparr>i_ref := i_ref (itable t jp), i_valid := True,
         i_addrs := (\<lambda>i. if i < NDIRECT + 1 then i_addrs (itable s ip) i else i_addrs (itable t jp) i)\<rparr>"
      unfolding d load_put_dinode assms(4,5) by (rule inode.equality) simp_all
    finally show ?thesis unfolding i by (rule arg_cong)
  qed
  with w r o show ?thesis by blast
qed

text \<open>
  The first buffer of the cache's list holds the block, and somebody, such as the log, keeps a
  reference to it.
\<close>

definition cached_first :: "nat \<Rightarrow> uint32 \<Rightarrow> uint32 \<Rightarrow> uint64 \<Rightarrow> 'a vdisk_scheme \<Rightarrow> bool" where
  "cached_first p dev n b s \<longleftrightarrow> runs p s \<and> next (blist s bcache_head) = b \<and> b \<noteq> bcache_head \<and>
     b_dev (bufs s b) = dev \<and> b_blockno (bufs s b) = n \<and> b_valid (bufs s b) \<and> b_refcnt (bufs s b) \<noteq> 0 \<and>
     sl_locked (sleeplocks s (SL_buf (unat b))) = 0"

definition got :: "nat \<Rightarrow> uint64 \<Rightarrow> 'a vdisk_scheme \<Rightarrow> 'a vdisk_scheme" where
  "got p b s = (let k = SL_buf (unat b) in
     (upd_buf b (\<lambda>x. x\<lparr>b_refcnt := b_refcnt x + 1\<rparr>) s)
       \<lparr>sleeplocks := (sleeplocks s)(k := (sleeplocks s k)\<lparr>sl_locked := 1, sl_pid := p_pid (procs s p)\<rparr>)\<rparr>)"

lemma bget_first:
  assumes "cached_first p dev n b s" shows "bget dev n s = Inr (b, got p b s)"
proof -
  note c = assms [unfolded cached_first_def]
  note r = runsD [OF c [THEN conjunct1]]
  have "scan f g b bcache_head = Some (Some b)" if "g b" for f g
    using c that by (subst scan.simps) simp
  then show ?thesis
    using c r by (simp add: bget_def critical upd_buf_def acquiresleep_eq [of p] got_def Let_def)
qed

lemma bread_first: "cached_first p dev n b s \<Longrightarrow> bread dev n s = Inr (b, got p b s)"
  by (simp add: bread_def bget_first) (simp add: cached_first_def got_def Let_def upd_buf_def)

lemma brelse_kept:
  assumes "runs p s" "sl_locked (sleeplocks s (SL_buf (unat b))) \<noteq> 0" "sl_pid (sleeplocks s (SL_buf (unat b))) = p_pid (procs s p)"
    "b_refcnt (bufs s b) \<noteq> 1"
  shows "brelse b s = Inr (upd_buf b (\<lambda>x. x\<lparr>b_refcnt := b_refcnt x - 1\<rparr>)
    (s\<lparr>sleeplocks := (sleeplocks s)(SL_buf (unat b) := (sleeplocks s (SL_buf (unat b)))\<lparr>sl_locked := 0, sl_pid := 0\<rparr>),
       procs := woken (Ch_sleep (SL_buf (unat b))) (Some p) [0..<NPROC] (procs s)\<rparr>))"
  using assms runsD [OF assms(1)]
  by (simp add: brelse_def holdingsleep_eq [of p] releasesleep_eq [of p] critical upd_buf_def Let_def)

lemma log_write_first:
  assumes "runs p s" "lh_n s = 0" "2 \<le> log_size s" "1 \<le> outstanding s"
  shows "log_write b s = Inr (upd_buf b (\<lambda>x. x\<lparr>b_refcnt := b_refcnt x + 1\<rparr>)
    (s\<lparr>lh_block := (lh_block s)(0 := b_blockno (bufs s b)), lh_n := 1\<rparr>))"
  using assms runsD [OF assms(1)]
  by (simp add: log_write_def bpin_def critical first_from.simps upd_buf_def LOGSIZE_def MAXOPBLOCKS_def Let_def)

lemma ilock_first:
  assumes "cached_first p (i_dev (itable s ip)) (IBLOCK (i_inum (itable s ip)) (sb s)) b s"
    "0 < i_ref (itable s ip)" "\<not> i_valid (itable s ip)" "sl_locked (sleeplocks s (SL_inode ip)) = 0"
    "di_type (get_dinode (data_of b s) (dinode_at (i_inum (itable s ip)))) \<noteq> 0"
  shows "\<exists>s'. ilock (Some ip) s = Inr s'"
proof -
  let ?d = "load_dinode (get_dinode (data_of b s) (dinode_at (i_inum (itable s ip))))"
  define s1 where "s1 = s\<lparr>sleeplocks := (sleeplocks s)(SL_inode ip := (sleeplocks s (SL_inode ip))\<lparr>sl_locked := 1, sl_pid := p_pid (procs s p)\<rparr>)\<rparr>"
  have r: "runs p s" using assms(1) by (simp add: cached_first_def)
  then have 1: "acquiresleep (SL_inode ip) s = Inr s1" using assms(4) by (simp add: acquiresleep_eq [of p] s1_def)
  have "cached_first p (i_dev (itable s1 ip)) (IBLOCK (i_inum (itable s1 ip)) (sb s1)) b s1"
    using assms(1) by (simp add: cached_first_def s1_def)
  from bread_first [OF this] have 2: "bread (i_dev (itable s1 ip)) (IBLOCK (i_inum (itable s1 ip)) (sb s1)) s1 = Inr (b, got p b s1)" .
  have "b_refcnt (bufs s b) + 1 \<noteq> 1" using assms(1) by (simp add: cached_first_def)
  then obtain s2 where 3: "brelse b (upd_inode ip ?d (got p b s1)) = Inr s2" "itable s2 = itable (upd_inode ip ?d (got p b s1))"
    using brelse_kept [of p "upd_inode ip ?d (got p b s1)" b] r
    by (simp add: upd_inode_def got_def upd_buf_def Let_def s1_def)
  have i: "data_of b (got p b s1) = data_of b s" "itable (got p b s1) = itable s" "itable s1 = itable s"
    by (simp_all add: got_def upd_buf_def Let_def s1_def data_of_def)
  have "i_type (itable (upd_inode ip (\<lambda>x. x\<lparr>i_valid := True\<rparr>) s2) ip) \<noteq> 0"
    using assms(5) by (simp add: 3(2) upd_inode_def i load_dinode_def)
  then show ?thesis
    using assms(2,3) by (simp add: ilock_def 1 2 [unfolded i] 3(1) i Let_def)
qed

definition inode_kernel :: kfile where
  "inode_kernel = demo_kernel\<lparr>outstanding := 1,
     bufs := (\<lambda>_. \<lparr>b_valid = True, b_disk = False, b_dev = 1, b_blockno = 32, b_refcnt = 1\<rparr>),
     itable := (\<lambda>_. zero_inode)(3 := zero_inode\<lparr>i_dev := 1, i_inum := 5, i_ref := 1, i_valid := True, i_type := 2, i_nlink := 1, i_size := 77\<rparr>)\<rparr>"

definition recycled :: "'a fsys_scheme \<Rightarrow> 'a fsys_scheme" where
  "recycled s = upd_inode 3 (\<lambda>_. zero_inode\<lparr>i_dev := 1, i_inum := 5, i_ref := 2\<rparr>) s"

lemma inode_kernel_fields:
  "cached_first 0 1 32 0 inode_kernel" "lh_n inode_kernel = 0" "log_size inode_kernel = 30" "outstanding inode_kernel = 1"
  "sleeplocks inode_kernel = (\<lambda>_. zero_sleeplock)" "IBLOCK 5 (sb inode_kernel) = 32"
  "itable inode_kernel 3 = zero_inode\<lparr>i_dev := 1, i_inum := 5, i_ref := 1, i_valid := True, i_type := 2, i_nlink := 1, i_size := 77\<rparr>"
  "bufs inode_kernel 0 = \<lparr>b_valid = True, b_disk = False, b_dev = 1, b_blockno = 32, b_refcnt = 1\<rparr>"
  using demo_runs
  by (simp_all add: inode_kernel_def cached_first_def bcache_head_def demo_kernel_def zero_sleeplock_def IBLOCK_def IPB_def BSIZE_def sizeof_dinode_def NDIRECT_def NBUF_def MAXOPBLOCKS_def)

lemma woken_pid [simp]: "p_pid (woken c q is ps i) = p_pid (ps i)"
  by (simp add: woken_def)

text \<open>A kernel with one transaction open writes the inode back, and reads it into an entry that was recycled.\<close>

lemma inode_kernel_runs:
  obtains s' t' where "iupdate 3 inode_kernel = Inr s'" "ilock (Some 3) (recycled s') = Inr t'"
    "cached_first 0 1 32 0 (recycled s')" "sb s' = sb inode_kernel"
proof -
  let ?s = inode_kernel
  define s2 where "s2 = upd_data 0 (put_dinode (dinode_at 5) (inode_dinode (itable ?s 3))) (got 0 0 ?s)"
  define s3 where "s3 = upd_buf 0 (\<lambda>x. x\<lparr>b_refcnt := b_refcnt x + 1\<rparr>) (s2\<lparr>lh_block := (lh_block s2)(0 := b_blockno (bufs s2 0)), lh_n := 1\<rparr>)"
  have c: "runs 0 ?s" by (simp add: inode_kernel_fields(1) [unfolded cached_first_def])
  have "bread 1 32 ?s = Inr (0, got 0 0 ?s)" by (rule bread_first) (rule inode_kernel_fields)
  moreover have "log_write 0 s2 = Inr s3" unfolding s3_def using c
    by (intro log_write_first [of 0]) (simp_all add: s2_def upd_data_def got_def upd_buf_def Let_def inode_kernel_fields)
  moreover have "brelse 0 s3 = Inr (upd_buf 0 (\<lambda>x. x\<lparr>b_refcnt := b_refcnt x - 1\<rparr>)
    (s3\<lparr>sleeplocks := (sleeplocks s3)(SL_buf 0 := (sleeplocks s3 (SL_buf 0))\<lparr>sl_locked := 0, sl_pid := 0\<rparr>),
       procs := woken (Ch_sleep (SL_buf 0)) (Some 0) [0..<NPROC] (procs s3)\<rparr>))" (is "_ = Inr ?s'")
    using brelse_kept [of 0 s3 0] c by (simp add: s3_def s2_def upd_data_def got_def upd_buf_def Let_def inode_kernel_fields)
  ultimately have u: "iupdate 3 ?s = Inr ?s'"
    by (simp add: iupdate_def inode_kernel_fields s2_def got_def upd_buf_def Let_def)
  define s' where "s' = ?s'"
  have f: "itable s' = itable ?s" "sb s' = sb ?s" "sleeplocks s' (SL_inode 3) = zero_sleeplock" "cached_first 0 1 32 0 s'"
    using inode_kernel_fields(1) c
    by (simp_all add: s'_def s3_def s2_def upd_data_def got_def upd_buf_def Let_def inode_kernel_fields cached_first_def)
  have b: "b_refcnt (bufs s' 0) = 2" "data_of 0 s' = put_dinode (dinode_at 5) (inode_dinode (itable ?s 3)) (data_of 0 ?s)"
    by (simp_all add: s'_def s3_def s2_def upd_data_def got_def upd_buf_def Let_def inode_kernel_fields data_of_def)
  have z: "\<not> i_valid zero_inode" by (simp add: zero_inode_def)
  have g: "cached_first 0 1 32 0 (recycled s')" using f(4) by (simp add: recycled_def cached_first_def upd_inode_def)
  moreover obtain t' where "ilock (Some 3) (recycled s') = Inr t'"
    using z ilock_first [of 0 "recycled s'" 3 0] g b f inode_kernel_fields(6)
    by (auto simp: recycled_def upd_inode_def zero_sleeplock_def inode_kernel_fields data_of_def get_put_dinode inode_dinode_def)
  ultimately show thesis using that u f(2) by (simp add: s'_def)
qed

theorem inode_written_is_read_witness:
  "\<exists>s' t'. iupdate 3 inode_kernel = Inr s' \<and> ilock (Some 3) (recycled s') = Inr t' \<and>
     i_valid (itable t' 3) \<and> i_type (itable t' 3) = 2 \<and> i_size (itable t' 3) = 77 \<and> i_ref (itable t' 3) = 2"
proof -
  obtain s' t' where w: "iupdate 3 inode_kernel = Inr s'" "ilock (Some 3) (recycled s') = Inr t'"
    and c: "cached_first 0 1 32 0 (recycled s')" and b: "sb s' = sb inode_kernel"
    by (rule inode_kernel_runs)
  have r: "\<not> i_valid (itable (recycled s') 3)" "i_dev (itable (recycled s') 3) = 1" "i_inum (itable (recycled s') 3) = 5"
    "sb (recycled s') = sb inode_kernel" "i_ref (itable (recycled s') 3) = 2"
    using b by (simp_all add: recycled_def upd_inode_def zero_inode_def)
  have k: "i_dev (itable inode_kernel 3) = 1" "i_inum (itable inode_kernel 3) = 5" "IBLOCK 5 (sb inode_kernel) = 32"
    by (simp_all add: inode_kernel_fields)
  obtain bp s1 t1 b t2 where p: "bread 1 32 inode_kernel = Inr (bp, s1)" "acquiresleep (SL_inode 3) (recycled s') = Inr t1"
      "bread 1 32 t1 = Inr (b, t2)"
    and i: "(\<forall>k < BSIZE. data_of b t2 k = data_of bp s' k) \<longrightarrow>
       itable t' = (itable (recycled s'))(3 := (itable inode_kernel 3)\<lparr>i_ref := i_ref (itable (recycled s') 3), i_valid := True,
         i_addrs := (\<lambda>i. if i < NDIRECT + 1 then i_addrs (itable inode_kernel 3) i else i_addrs (itable (recycled s') 3) i)\<rparr>)"
    using inode_written_is_read [OF w] r by (simp only: k) blast
  have "bp = 0" using p(1) bread_first [OF inode_kernel_fields(1)] by simp
  moreover have "cached_first 0 1 32 0 t1"
    using c p(2) by (auto simp: cached_first_def acquiresleep_eq split: if_split_asm)
  then have "b = 0 \<and> vq t2 = vq t1" using p(3) by (auto simp: bread_first got_def upd_buf_def Let_def)
  moreover have "vq t1 = vq s'" using sleeplock_vq(1) [OF p(2)] by (simp add: recycled_def upd_inode_def)
  ultimately have "itable t' 3 = (itable inode_kernel 3)\<lparr>i_ref := 2, i_valid := True,
         i_addrs := (\<lambda>i. if i < NDIRECT + 1 then i_addrs (itable inode_kernel 3) i else i_addrs (itable (recycled s') 3) i)\<rparr>"
    using i r by (simp add: data_of_def)
  with w show ?thesis by (simp add: inode_kernel_fields)
qed

end
