(* ===== verification/PipeMemory.thy ===== *)
theory PipeMemory imports File UserMemory begin

text \<open>
  Pipes and user memory: \<^verbatim>\<open>piperead\<close> of \<^verbatim>\<open>kernel/pipe.c\<close> through the page table of the reading process.
\<close>

unbundle bit_operations_syntax

section \<open>One byte to user memory\<close>

lemma copyout_one_exact:
  assumes "uvm_ok e (mem s) root"
  shows "copyout_bytes root va [b] s =
    (if writable (mem s) root va then Inr (0, s\<lparr>mem := (mem s)(user_addr (mem s) root va := b)\<rparr>) else Inr (-1, s))"
proof -
  have n: "take (page_rest va) [b] = [b]" "drop (page_rest va) [b] = []" using page_rest_pos [of va] by simp_all
  have wf: "pt_wf (mem s) root" using assms by (simp add: uvm_ok_def)
  show ?thesis
  proof (cases "PGROUNDDOWN va < MAXVA")
    case True
    obtain pte where w: "walk root (PGROUNDDOWN va) False s = Inr (pte, s)"
      "pte = 0 \<and> pte_of (mem s) root va = 0 \<or> pte \<noteq> 0 \<and> load64 (mem s) pte = pte_of (mem s) root va"
      by (rule walk_pte [OF wf True, unfolded pte_of_page])
    have v: "va < MAXVA" "(MAXVA \<le> PGROUNDDOWN va) = False" using True MAXVA_page [of va] by (simp_all add: not_le)
    have f: "writable (mem s) root va \<longleftrightarrow> \<not> (pte = 0 \<or> load64 (mem s) pte AND PTE_V = 0 \<or> load64 (mem s) pte AND PTE_U = 0 \<or>
        load64 (mem s) pte AND PTE_W = 0)"
      using w(2) v(1) pte_flag_bits [of "pte_of (mem s) root va"] by (auto simp: writable_def user_pte_def)
    have "PTE2PA (load64 (mem s) pte) + (va - PGROUNDDOWN va) = user_addr (mem s) root va" if "pte \<noteq> 0"
      using w(2) that by (simp add: user_addr_def user_page_def)
    then show ?thesis unfolding f using w(1)
      by (subst copyout_bytes.simps) (simp add: n v(2) copyout_bytes.simps [of _ _ "[]"] Let_def)
  next
    case False
    then have "\<not> va < MAXVA" "MAXVA \<le> PGROUNDDOWN va" by (metis MAXVA_page leI)+
    then show ?thesis by (subst copyout_bytes.simps) (simp add: writable_def user_pte_def)
  qed
qed

lemma user_addr_inj:
  assumes "uvm_ok e m root" "user_pte m root x" "user_pte m root y" "user_addr m root x = user_addr m root y"
  shows "x = y"
proof -
  have p: "PGROUNDDOWN x = PGROUNDDOWN y" using user_addr_apart [OF assms(1-3)] assms(4) by blast
  then have "user_page m root x = user_page m root y" by (metis user_page_page)
  then show ?thesis using assms(4) p by (simp add: user_addr_def)
qed

lemma store_keeps_tables:
  fixes b :: uint8
  assumes ok: "uvm_ok e m root" and u: "user_pte m root va"
  defines "m1 \<equiv> m(user_addr m root va := b)"
  shows "uvm_ok e m1 root" "pte_of m1 root = pte_of m root"
proof -
  have "m1 a = m a" if "q \<in> tables m root" "in_page q a" for q a
  proof -
    have "managed e (user_page m root va)" "user_page m root va \<notin> tables m root" "pt_wf m root" using ok u by (auto simp: uvm_ok_def)
    then have "a \<noteq> user_addr m root va"
      using that tables_aligned in_page_unique [of q "user_page m root va" a] user_addr_in_page [of m root va] by (auto simp: managed_def)
    then show ?thesis by (simp add: m1_def)
  qed
  then show "uvm_ok e m1 root" "pte_of m1 root = pte_of m root" using uvm_ok_frame [OF ok, of m1] by blast+
qed

text \<open>The bytes \<open>bs\<close> have been stored at the user address \<open>va\<close>, and nothing else has changed.\<close>

definition stored :: "memory \<Rightarrow> uint64 \<Rightarrow> uint64 \<Rightarrow> uint8 list \<Rightarrow> memory \<Rightarrow> bool" where
  "stored m root va bs m' \<longleftrightarrow>
     (\<forall>j < length bs. writable m root (va + word_of_nat j) \<and> m' (user_addr m root (va + word_of_nat j)) = bs ! j) \<and>
     (\<forall>a. (\<forall>j < length bs. a \<noteq> user_addr m root (va + word_of_nat j)) \<longrightarrow> m' a = m a)"

lemma stored_Nil [simp]: "stored m root va [] m' \<longleftrightarrow> m' = m"
  by (auto simp: stored_def fun_eq_iff)

lemma stored_Cons:
  assumes ok: "uvm_ok e m root" and w: "writable m root va" and len: "length bs < 2 ^ 64 - 1"
    and st: "stored (m(user_addr m root va := b)) root (va + 1) bs m'"
  shows "stored m root va (b # bs) m'"
proof -
  let ?m = "m(user_addr m root va := b)"
  have u: "user_pte m root va" using w by (simp add: writable_def)
  have p: "pte_of ?m root = pte_of m root" by (rule store_keeps_tables [OF ok u])
  have e: "writable ?m root = writable m root" "user_addr ?m root = user_addr m root"
    using p by (simp_all add: fun_eq_iff writable_def user_pte_def user_addr_def user_page_def)
  have sh: "va + 1 + word_of_nat j = va + word_of_nat (Suc j)" for j by simp
  have s1: "\<And>j. j < length bs \<Longrightarrow> writable m root (va + word_of_nat (Suc j)) \<and> m' (user_addr m root (va + word_of_nat (Suc j))) = bs ! j"
    and s2: "\<And>a. (\<And>j. j < length bs \<Longrightarrow> a \<noteq> user_addr m root (va + word_of_nat (Suc j))) \<Longrightarrow> m' a = ?m a"
    using st unfolding stored_def e sh by blast+
  have "user_addr m root va \<noteq> user_addr m root (va + word_of_nat (Suc j))" if "j < length bs" for j
  proof
    assume "user_addr m root va = user_addr m root (va + word_of_nat (Suc j))"
    then have "va = va + word_of_nat (Suc j)" using s1 [OF that] u user_addr_inj [OF ok] unfolding writable_def by blast
    then have "word_of_nat (Suc j) = (0 :: uint64)" by (metis add_cancel_right_right)
    moreover have "unat (word_of_nat (Suc j) :: uint64) = Suc j" using that len by (intro unat_word_of_nat) simp
    ultimately show False by simp
  qed
  then have h: "m' (user_addr m root va) = b" using s2 by simp
  show ?thesis unfolding stored_def
  proof (intro conjI allI impI)
    fix j assume "j < length (b # bs)"
    then show "writable m root (va + word_of_nat j)" "m' (user_addr m root (va + word_of_nat j)) = (b # bs) ! j"
      using w h s1 by (cases j; simp)+
  next
    fix a assume a: "\<forall>j < length (b # bs). a \<noteq> user_addr m root (va + word_of_nat j)"
    have "a \<noteq> user_addr m root va" using a [rule_format, of 0] by simp
    moreover have "a \<noteq> user_addr m root (va + word_of_nat (Suc j))" if "j < length bs" for j using a [rule_format, of "Suc j"] that by simp
    ultimately show "m' a = m a" using s2 by simp
  qed
qed

section \<open>Reading a pipe\<close>

lemma piperead_from_stores:
  assumes "piperead_from p pr addr n i s = Inr (k, s')" "pipe_inv (pipes s p)"
    and "uvm_ok e (mem s) root" "p_pagetable (procs s pr) = root"
  shows "\<exists>m j. pipe_inv (pipes s' p) \<and> pipe_queue (pipes s' p) = drop m (pipe_queue (pipes s p)) \<and> m \<le> n \<and>
    m \<le> length (pipe_queue (pipes s p)) \<and> k = i + int j \<and> j \<le> m \<and>
    stored (mem s) root addr (take j (pipe_queue (pipes s p))) (mem s') \<and>
    (m = j \<and> (m < n \<longrightarrow> pipe_queue (pipes s' p) = []) \<or> m = Suc j \<and> \<not> writable (mem s) root (addr + word_of_nat j))"
  using assms
proof (induction n arbitrary: addr i s)
  case 0
  then show ?case by (intro exI [of _ 0]) auto
next
  case (Suc n)
  show ?case
  proof (cases "pi_nread (pipes s p) = pi_nwrite (pipes s p)")
    case True
    then show ?thesis using Suc.prems by (intro exI [of _ 0]) auto
  next
    case False
    then have "pipe_queue (pipes s p) \<noteq> []" by (simp add: ring_queue_def unat_eq_0)
    note q = pq.pop [OF Suc.prems(2) this]
    let ?s = "upd_pipe p pipe_pop s" and ?b = "pipe_get (pipes s p)"
    have s1: "pipes ?s p = pipe_pop (pipes s p)" "mem ?s = mem s" "procs ?s = procs s" by (simp_all add: upd_pipe_def)
    note c = copyout_one_exact [of e ?s root addr ?b, unfolded s1(2), OF Suc.prems(3)]
    show ?thesis
    proof (cases "writable (mem s) root addr")
      case False
      then have "k = i" "s' = ?s" using Suc.prems(1,4) \<open>pi_nread (pipes s p) \<noteq> _\<close> c s1 by (auto simp: Let_def)
      then show ?thesis using q s1 False by (intro exI [of _ 1] exI [of _ 0]) (auto simp: Suc_le_eq)
    next
      case True
      let ?s2 = "?s\<lparr>mem := (mem s)(user_addr (mem s) root addr := ?b)\<rparr>"
      have "piperead_from p pr (addr + 1) n (i + 1) ?s2 = Inr (k, s')"
        using Suc.prems(1,4) False True c s1 by (auto simp: Let_def)
      note run = this
      have s2: "pipes ?s2 p = pipe_pop (pipes s p)" "procs ?s2 = procs s" using s1 by simp_all
      have u: "user_pte (mem s) root addr" using True by (simp add: writable_def)
      note kt = store_keeps_tables [OF Suc.prems(3) u, of ?b]
      have "pipe_inv (pipes ?s2 p)" "uvm_ok e (mem ?s2) root" "p_pagetable (procs ?s2 pr) = root"
        using q kt(1) Suc.prems(4) unfolding s2 by simp_all
      note ih = Suc.IH [OF run this, unfolded s2]
      obtain m j where r: "pipe_inv (pipes s' p)" "pipe_queue (pipes s' p) = drop m (pipe_queue (pipe_pop (pipes s p)))" "m \<le> n"
        "m \<le> length (pipe_queue (pipe_pop (pipes s p)))" "k = i + 1 + int j" "j \<le> m"
        "stored (mem ?s2) root (addr + 1) (take j (pipe_queue (pipe_pop (pipes s p)))) (mem s')"
        "m = j \<and> (m < n \<longrightarrow> pipe_queue (pipes s' p) = []) \<or> m = Suc j \<and> \<not> writable (mem ?s2) root (addr + 1 + word_of_nat j)"
        using ih by blast
      have "length (pipe_queue (pipe_pop (pipes s p))) \<le> PIPESIZE" using q by simp
      then have "stored (mem s) root addr (?b # take j (pipe_queue (pipe_pop (pipes s p)))) (mem s')"
        using r(7) by (intro stored_Cons [OF Suc.prems(3) True]) (simp_all add: PIPESIZE_def)
      moreover have "writable (mem ?s2) root = writable (mem s) root" using kt(2) by (simp add: fun_eq_iff writable_def user_pte_def)
      moreover have "addr + 1 + word_of_nat j = addr + word_of_nat (Suc j)" by simp
      ultimately show ?thesis using r q by (intro exI [of _ "Suc m"] exI [of _ "Suc j"]) (auto simp: add.assoc)
    qed
  qed
qed

text \<open>
  C27. \<^verbatim>\<open>piperead\<close> by a process with a well-formed address space moves bytes from the front of the
  pipe's queue to the user's buffer. The first \<open>k\<close> bytes of the queue, where \<open>k\<close> is the result, are
  in the buffer in their order, at addresses the user may write, and no other byte of memory has changed. It
  returns fewer bytes than asked for only when the queue has run empty, or when the next byte's
  address is not writable; in that case the byte is gone, the queue being shorter by one more than
  the result. It returns -1 only if the queue is empty, the pipe still open for writing and the process killed, and then
  pipe and memory are as before.
\<close>

theorem piperead_delivers:
  assumes "piperead p addr n s = Inr (k, s')" "pipe_inv (pipes s p)"
    and "curproc s = Inr (pr, t)" "p_pagetable (procs s pr) = root" "uvm_ok e (mem s) root"
  shows "\<exists>m. pipe_inv (pipes s' p) \<and> pipe_queue (pipes s' p) = drop m (pipe_queue (pipes s p)) \<and>
    (k = -1 \<and> m = 0 \<and> mem s' = mem s \<and> pipe_queue (pipes s p) = [] \<and> pi_writeopen (pipes s p) \<and> p_killed (procs s pr) \<noteq> 0 \<or>
     0 \<le> k \<and> m \<le> nat n \<and> m \<le> length (pipe_queue (pipes s p)) \<and>
     (\<forall>j < nat k. writable (mem s) root (addr + word_of_nat j) \<and>
        mem s' (user_addr (mem s) root (addr + word_of_nat j)) = pipe_queue (pipes s p) ! j) \<and>
     (\<forall>a. (\<forall>j < nat k. a \<noteq> user_addr (mem s) root (addr + word_of_nat j)) \<longrightarrow> mem s' a = mem s a) \<and>
     (k = int m \<and> (m < nat n \<longrightarrow> pipe_queue (pipes s' p) = []) \<or>
      k + 1 = int m \<and> \<not> writable (mem s) root (addr + word_of_nat (nat k))))"
proof -
  obtain s2 where 1: "acquire (L_pipe p) t = Inr s2"
    using assms(1,3) by (auto simp: piperead_def res_iff)
  note fr = mframe_trans [OF curproc_frame [OF assms(3)] acquire_frame [OF 1]]
  have f: "pipes s2 = pipes s" "mem s2 = mem s" "procs s2 = procs s"
    using mframe_kfile(1,2) [OF fr] curproc_procs [OF assms(3)] acquire_procs [OF 1] by simp_all
  show ?thesis
  proof (cases "pi_nread (pipes s2 p) = pi_nwrite (pipes s2 p) \<and> pi_writeopen (pipes s2 p)")
    case True
    then obtain x s3 where k: "killed pr s2 = Inr (x, s3)" "x \<noteq> 0" "release (L_pipe p) s3 = Inr s'" "k = -1"
      using assms(1,3) 1 by (auto simp: piperead_def res_iff split: if_splits)
    have "pipes s' = pipes s" "mem s' = mem s" using mframe_kfile(1,2) [OF mframe_trans [OF killed_frame [OF k(1)] release_frame [OF k(3)]]] f by simp_all
    moreover have "x = p_killed (procs s pr)" using k(1) f(3) by (auto simp: killed_def res_iff Let_def acquire_procs)
    ultimately show ?thesis using k(2,4) assms(2) True f(1) by (intro exI [of _ 0]) (simp add: ring_queue_def)
  next
    case False
    then obtain s3 s4 where 3: "piperead_from p pr addr (nat n) 0 s2 = Inr (k, s3)" "wakeup (Ch_nwrite p) s3 = Inr s4" "release (L_pipe p) s4 = Inr s'"
      using assms(1,3) 1 by (auto simp: piperead_def res_iff split: if_splits)
    have g: "pipes s' = pipes s3" "mem s' = mem s3" using mframe_kfile(1,2) [OF mframe_trans [OF wakeup_frame [OF 3(2)] release_frame [OF 3(3)]]] .
    obtain m j where r: "pipe_inv (pipes s' p)" "pipe_queue (pipes s' p) = drop m (pipe_queue (pipes s p))" "m \<le> nat n"
        "m \<le> length (pipe_queue (pipes s p))" "k = int j" "j \<le> m"
        and st: "stored (mem s) root addr (take j (pipe_queue (pipes s p))) (mem s')"
        and e: "m = j \<and> (m < nat n \<longrightarrow> pipe_queue (pipes s' p) = []) \<or> m = Suc j \<and> \<not> writable (mem s) root (addr + word_of_nat j)"
      using piperead_from_stores [OF 3(1), of e root] assms(2,4,5) unfolding f g by auto
    have l: "length (take j (pipe_queue (pipes s p))) = j" using r(4,6) by simp
    have "(\<forall>i < j. writable (mem s) root (addr + word_of_nat i) \<and> mem s' (user_addr (mem s) root (addr + word_of_nat i)) = pipe_queue (pipes s p) ! i) \<and>
      (\<forall>a. (\<forall>i < j. a \<noteq> user_addr (mem s) root (addr + word_of_nat i)) \<longrightarrow> mem s' a = mem s a)"
      using st unfolding stored_def l by simp
    then show ?thesis using r e by (intro exI [of _ m]) auto
  qed
qed

text \<open>The kernel of the examples, with another address space and one byte in its pipes.\<close>

definition pipe_kernel :: "memory \<Rightarrow> uint64 \<Rightarrow> kfile" where
  "pipe_kernel m root = upd_pipe 0x9000 (pipe_put 66)
     (demo_kernel\<lparr>mem := m, procs := (procs demo_kernel)(0 := (procs demo_kernel 0)\<lparr>p_pagetable := root\<rparr>)\<rparr>)"

lemma pipe_kernel_fields:
  "runs 0 (pipe_kernel m root)" "mem (pipe_kernel m root) = m" "p_pagetable (procs (pipe_kernel m root) 0) = root"
  "pipe_inv (pipes (pipe_kernel m root) 0x9000)" "pipe_queue (pipes (pipe_kernel m root) 0x9000) = [66]"
  "pipes (pipe_kernel m root) 0x9000 = pipe_put 66 demo_pipe"
  using demo_runs pq.put [of demo_pipe 66]
  by (simp_all add: pipe_kernel_def upd_pipe_def demo_fields) (simp_all add: demo_pipe_def PIPESIZE_def)

lemma pipe_kernel_reads:
  assumes "uvm_ok e m root"
  shows "\<exists>s'. piperead 0x9000 addr 1 (pipe_kernel m root) = Inr (if writable m root addr then 1 else 0, s')"
proof -
  let ?s = "pipe_kernel m root"
  note r = runsD [OF pipe_kernel_fields(1) [of m root]]
  have c: "copyout_bytes root addr [b] s = (if writable m root addr then Inr (0, s\<lparr>mem := m(user_addr m root addr := b)\<rparr>) else Inr (-1, s))"
    if "mem s = m" for b and s :: kfile
    using copyout_one_exact [of e s root addr b] assms that by simp
  have ne: "pi_nread (pipe_put 66 demo_pipe) \<noteq> pi_nwrite (pipe_put 66 demo_pipe)" by (simp add: pipe_put_def demo_pipe_def)
  show ?thesis using r
    by (simp add: piperead_def curproc_def critical c ne pipe_kernel_fields upd_pipe_def wakeup_eq Let_def)
qed

theorem piperead_delivers_witness:
  "\<exists>m root s1 s2. piperead 0x9000 0xFF0 1 (pipe_kernel m root) = Inr (1, s1) \<and> mem s1 (user_addr m root 0xFF0) = 66 \<and>
     pipe_queue (pipes s1 0x9000) = [] \<and>
     piperead 0x9000 0x1000 1 (pipe_kernel m root) = Inr (0, s2) \<and> mem s2 = m \<and> pipe_queue (pipes s2 0x9000) = []"
proof -
  obtain s :: phys and root ps where s: "uvm_inv s root ps"
    and w: "\<forall>k<unat (16 :: uint64). writable (mem s) root (0xFF0 + word_of_nat k)" "\<not> writable (mem s) root 0x1000"
    using example_space by blast
  let ?k = "pipe_kernel (mem s) root"
  have w0: "writable (mem s) root 0xFF0" using w(1) [rule_format, of 0] by simp
  have ok: "uvm_ok (kernel_end s) (mem s) root" by (rule uvm_invD [OF s])
  obtain s1 where 1: "piperead 0x9000 0xFF0 1 ?k = Inr (1, s1)" using pipe_kernel_reads [OF ok, of "0xFF0"] w0 by auto
  obtain s2 where 2: "piperead 0x9000 0x1000 1 ?k = Inr (0, s2)" using pipe_kernel_reads [OF ok, of "0x1000"] w(2) by auto
  note f = pipe_kernel_fields [of "mem s" root]
  have ok': "uvm_ok (kernel_end s) (mem ?k) root" using ok by (simp add: f(2))
  note p = piperead_delivers [OF _ f(4) curproc_runs [OF f(1)] f(3) ok', unfolded f(2,5)]
  have "mem s1 (user_addr (mem s) root 0xFF0) = 66 \<and> pipe_queue (pipes s1 0x9000) = []" using p [OF 1] by auto
  moreover have "mem s2 = mem s \<and> pipe_queue (pipes s2 0x9000) = []" using p [OF 2] by (auto simp: fun_eq_iff)
  ultimately show ?thesis using 1 2 by blast
qed

end
