(* ===== verification/Ulib.thy ===== *)
theory Ulib imports Fs begin

text \<open>
  User programs: what they see of the system, and the library they are linked with, \<^verbatim>\<open>user/ulib.c\<close> and
  \<^verbatim>\<open>user/printf.c\<close>. The system calls are stubs that the build generates, so they are a parameter: a
  record of functions on the rest of the world, which a program never inspects. NUL-terminated
  strings are the lists of their characters before the NUL; buffers are arrays.
\<close>

unbundle bit_operations_syntax

section \<open>Programs\<close>

text \<open>
  A program ends by \<^verbatim>\<open>exit\<close>, by a successful \<^verbatim>\<open>exec\<close>, or by an access that C leaves undefined. A function
  of a program may also not return at all, which is \<open>None\<close>.
\<close>

datatype uend = Exit int | Exec string "string list" | Undefined

type_synonym ('a, 'w) prog = "((uend + 'a) \<times> 'w) option"

definition retU :: "'a \<Rightarrow> 'w \<Rightarrow> ('a, 'w) prog" where
  "retU x w = Some (Inr x, w)"

definition exitU :: "int \<Rightarrow> 'w \<Rightarrow> ('a, 'w) prog" where
  "exitU st w = Some (Inl (Exit st), w)"

definition bindU :: "('a, 'w) prog \<Rightarrow> ('a \<Rightarrow> 'w \<Rightarrow> ('b, 'w) prog) \<Rightarrow> ('b, 'w) prog" where
  "bindU m f = Option.bind m (\<lambda>(r, w). case r of Inl e \<Rightarrow> Some (Inl e, w) | Inr x \<Rightarrow> f x w)"

lemma bindU_simps [simp]:
  "bindU None f = None"
  "bindU (Some (Inl e, w)) f = Some (Inl e, w)"
  "bindU (Some (Inr x, w)) f = f x w"
  "bindU (retU x w) f = f x w"
  "bindU (exitU st w) f = exitU st w"
  by (simp_all add: bindU_def retU_def exitU_def)

lemma bindU_cong [fundef_cong]:
  "m = m' \<Longrightarrow> (\<And>x w. m' = Some (Inr x, w) \<Longrightarrow> f x w = f' x w) \<Longrightarrow> bindU m f = bindU m' f'"
  by (auto simp: bindU_def split: Option.bind_splits sum.splits)

lemma bindU_mono [partial_function_mono]:
  assumes "mono_option m" "\<And>x w. mono_option (\<lambda>g. f g x w)"
  shows "mono_option (\<lambda>g. bindU (m g) (f g))"
  unfolding bindU_def
proof (rule bind_mono [OF assms(1)])
  fix y :: "(uend + 'c) \<times> 'd"
  show "mono_option (\<lambda>g. case y of (r, w) \<Rightarrow> case r of Inl e \<Rightarrow> Some (Inl e, w) | Inr x \<Rightarrow> f g x w)"
    using assms(2) by (cases y; cases "fst y") (auto simp: monotone_def flat_ord_def)
qed

section \<open>System calls\<close>

text \<open>
  \<^verbatim>\<open>read\<close> gives its result and the bytes it has stored, \<^verbatim>\<open>exec\<close> returns only when it fails, and \<^verbatim>\<open>pipe\<close> gives
  its result and the two descriptors.
\<close>

record 'w os =
  u_read :: "int \<Rightarrow> nat \<Rightarrow> 'w \<Rightarrow> int \<times> string \<times> 'w"
  u_write :: "int \<Rightarrow> string \<Rightarrow> 'w \<Rightarrow> int \<times> 'w"
  u_open :: "string \<Rightarrow> nat \<Rightarrow> 'w \<Rightarrow> int \<times> 'w"
  u_close :: "int \<Rightarrow> 'w \<Rightarrow> int \<times> 'w"
  u_fstat :: "int \<Rightarrow> 'w \<Rightarrow> int \<times> stat \<times> 'w"
  u_fork :: "'w \<Rightarrow> int \<times> 'w"
  u_wait :: "'w \<Rightarrow> int \<times> 'w"
  u_exec :: "string \<Rightarrow> string list \<Rightarrow> 'w \<Rightarrow> int option \<times> 'w"
  u_pipe :: "'w \<Rightarrow> int \<times> (int \<times> int) \<times> 'w"
  u_dup :: "int \<Rightarrow> 'w \<Rightarrow> int \<times> 'w"
  u_kill :: "int \<Rightarrow> 'w \<Rightarrow> int \<times> 'w"
  u_link :: "string \<Rightarrow> string \<Rightarrow> 'w \<Rightarrow> int \<times> 'w"
  u_unlink :: "string \<Rightarrow> 'w \<Rightarrow> int \<times> 'w"
  u_mkdir :: "string \<Rightarrow> 'w \<Rightarrow> int \<times> 'w"
  u_mknod :: "string \<Rightarrow> int \<Rightarrow> int \<Rightarrow> 'w \<Rightarrow> int \<times> 'w"
  u_chdir :: "string \<Rightarrow> 'w \<Rightarrow> int \<times> 'w"
  u_getpid :: "'w \<Rightarrow> int \<times> 'w"
  u_sleep :: "int \<Rightarrow> 'w \<Rightarrow> int \<times> 'w"
  u_debugswitch :: "'w \<Rightarrow> int \<times> 'w"
  u_printfslab :: "'w \<Rightarrow> int \<times> 'w"

definition O_RDONLY :: nat where "O_RDONLY = 0x000"
definition O_WRONLY :: nat where "O_WRONLY = 0x001"
definition O_RDWR :: nat where "O_RDWR = 0x002"
definition O_CREATE :: nat where "O_CREATE = 0x200"
definition O_TRUNC :: nat where "O_TRUNC = 0x400"

section \<open>Strings and arrays\<close>

type_synonym chars = "nat \<Rightarrow> char"

abbreviation NUL :: char where "NUL \<equiv> CHR 0x00"

abbreviation newline :: char where "newline \<equiv> CHR 0x0A"

text \<open>The character at an index of a string, the NUL included, and the string at an index of an array.\<close>

definition char_at :: "string \<Rightarrow> nat \<Rightarrow> char" where
  "char_at s i = (if i < length s then s ! i else NUL)"

partial_function (option) string_at :: "chars \<Rightarrow> nat \<Rightarrow> string option" where
  "string_at a i = (if a i = NUL then Some [] else Option.bind (string_at a (Suc i)) (\<lambda>s. Some (a i # s)))"

text \<open>Bytes stored by a system call.\<close>

definition store_chars :: "nat \<Rightarrow> string \<Rightarrow> chars \<Rightarrow> chars" where
  "store_chars k s a = (\<lambda>i. if k \<le> i \<and> i < k + length s then s ! (i - k) else a i)"

fun strcpy_from :: "nat \<Rightarrow> string \<Rightarrow> chars \<Rightarrow> chars" where
  "strcpy_from i [] s = s(i := NUL)"
| "strcpy_from i (c # t) s = strcpy_from (Suc i) t (s(i := c))"

definition strcpy :: "nat \<Rightarrow> string \<Rightarrow> chars \<Rightarrow> chars" where
  "strcpy i t s = strcpy_from i t s"

fun strcmp :: "string \<Rightarrow> string \<Rightarrow> int" where
  "strcmp (c # p) (d # q) = (if c = d then strcmp p q else of_char c - of_char d)"
| "strcmp (c # p) [] = of_char c"
| "strcmp [] (d # q) = - of_char d"
| "strcmp [] [] = 0"

fun strlen_u :: "string \<Rightarrow> nat" where
  "strlen_u [] = 0"
| "strlen_u (c # s) = Suc (strlen_u s)"

definition memset_u :: "nat \<Rightarrow> char \<Rightarrow> nat \<Rightarrow> chars \<Rightarrow> chars" where
  "memset_u k c n a = fold (\<lambda>i a. a(k + i := c)) [0..<n] a"

text \<open>\<^verbatim>\<open>strchr\<close> gives the position of the character; the NUL at the end is not found.\<close>

fun strchr :: "string \<Rightarrow> char \<Rightarrow> nat option" where
  "strchr [] c = None"
| "strchr (d # s) c = (if d = c then Some 0 else map_option Suc (strchr s c))"

text \<open>\<open>k\<close> is \<^verbatim>\<open>max - 1 - i\<close>, \<open>c\<close> the variable that \<^verbatim>\<open>read\<close> fills.\<close>

fun gets_from :: "'w os \<Rightarrow> nat \<Rightarrow> nat \<Rightarrow> char \<Rightarrow> chars \<Rightarrow> 'w \<Rightarrow> chars \<times> 'w" where
  "gets_from sys 0 i c buf w = (buf(i := NUL), w)"
| "gets_from sys (Suc k) i c buf w =
     (let (cc, bs, w) = u_read sys 0 1 w;
          c = (if bs = [] then c else hd bs) in
      if cc < 1 then (buf(i := NUL), w)
      else let buf = buf(i := c) in
           if c = CHR 0x0A \<or> c = CHR 0x0D then (buf(Suc i := NUL), w)
           else gets_from sys k (Suc i) c buf w)"

definition gets :: "'w os \<Rightarrow> nat \<Rightarrow> chars \<Rightarrow> 'w \<Rightarrow> chars \<times> 'w" where
  "gets sys n buf w = gets_from sys (n - 1) 0 NUL buf w"

definition stat_u :: "'w os \<Rightarrow> string \<Rightarrow> 'w \<Rightarrow> (int \<times> stat option) \<times> 'w" where
  "stat_u sys n w =
     (let (fd, w) = u_open sys n O_RDONLY w in
      if fd < 0 then ((-1, None), w)
      else let (r, st, w) = u_fstat sys fd w;
               (_, w) = u_close sys fd w in
           ((r, Some st), w))"

definition isdigit :: "char \<Rightarrow> bool" where
  "isdigit c \<longleftrightarrow> (of_char CHR ''0'' :: nat) \<le> of_char c \<and> of_char c \<le> (of_char CHR ''9'' :: nat)"

fun atoi_from :: "uint32 \<Rightarrow> string \<Rightarrow> uint32" where
  "atoi_from n [] = n"
| "atoi_from n (c # s) = (if isdigit c then atoi_from (n * 10 + of_char c - of_char CHR ''0'') s else n)"

definition atoi :: "string \<Rightarrow> uint32" where
  "atoi s = atoi_from 0 s"

text \<open>\<^verbatim>\<open>memmove\<close> inside one array.\<close>

fun move_up :: "nat \<Rightarrow> nat \<Rightarrow> nat \<Rightarrow> chars \<Rightarrow> chars" where
  "move_up dst src 0 a = a"
| "move_up dst src (Suc n) a = move_up (Suc dst) (Suc src) n (a(dst := a src))"

fun move_down :: "nat \<Rightarrow> nat \<Rightarrow> nat \<Rightarrow> chars \<Rightarrow> chars" where
  "move_down dst src 0 a = a"
| "move_down dst src (Suc n) a = move_down dst src n (a(dst + n := a (src + n)))"

definition memmove_u :: "nat \<Rightarrow> nat \<Rightarrow> nat \<Rightarrow> chars \<Rightarrow> chars" where
  "memmove_u dst src n a = (if src > dst then move_up dst src n a else move_down dst src n a)"

definition memcpy_u :: "nat \<Rightarrow> nat \<Rightarrow> nat \<Rightarrow> chars \<Rightarrow> chars" where
  "memcpy_u dst src n a = memmove_u dst src n a"

fun memcmp_u :: "chars \<Rightarrow> chars \<Rightarrow> nat \<Rightarrow> nat \<Rightarrow> int" where
  "memcmp_u p1 p2 i 0 = 0"
| "memcmp_u p1 p2 i (Suc n) = (if p1 i \<noteq> p2 i then of_char (p1 i) - of_char (p2 i) else memcmp_u p1 p2 (Suc i) n)"

text \<open>\<^verbatim>\<open>start\<close> calls \<^verbatim>\<open>main\<close> and exits when it returns.\<close>

definition start_u :: "('w \<Rightarrow> ('a, 'w) prog) \<Rightarrow> 'w \<Rightarrow> ('b, 'w) prog" where
  "start_u main w = bindU (main w) (\<lambda>_. exitU 0)"

section \<open>Formatted output\<close>

definition putc :: "'w os \<Rightarrow> int \<Rightarrow> char \<Rightarrow> 'w \<Rightarrow> 'w" where
  "putc sys fd c w = snd (u_write sys fd [c] w)"

definition puts_u :: "'w os \<Rightarrow> int \<Rightarrow> string \<Rightarrow> 'w \<Rightarrow> 'w" where
  "puts_u sys fd s w = fold (putc sys fd) s w"

definition digit_chars_u :: string where
  "digit_chars_u = ''0123456789ABCDEF''"

definition printint_u_chars :: "uint32 \<Rightarrow> nat \<Rightarrow> bool \<Rightarrow> string" where
  "printint_u_chars xx base sg =
     (let neg = (sg \<and> sint xx < 0);
          x = (if neg then - xx else xx) in
      map (\<lambda>d. digit_chars_u ! d) (digits_rev base (unat x)) @ (if neg then ''-'' else []))"

definition printint_u :: "'w os \<Rightarrow> int \<Rightarrow> uint32 \<Rightarrow> nat \<Rightarrow> bool \<Rightarrow> 'w \<Rightarrow> (unit, 'w) prog" where
  "printint_u sys fd xx base sg w =
     (let buf = printint_u_chars xx base sg in
      if 16 < length buf then Some (Inl Undefined, w) else retU () (puts_u sys fd (rev buf) w))"

definition printptr_u :: "'w os \<Rightarrow> int \<Rightarrow> uint64 \<Rightarrow> 'w \<Rightarrow> 'w" where
  "printptr_u sys fd x w =
     puts_u sys fd (''0x'' @ map (\<lambda>i. digit_chars_u ! unat (drop_bit 60 (push_bit (4 * i) x))) [0..<16]) w"

text \<open>
  What follows a percent sign, as in the kernel's \<^verbatim>\<open>printf\<close>, and how many characters it takes.
\<close>

definition udirective_of :: "string \<Rightarrow> directive \<times> nat" where
  "udirective_of f =
     (let c0 = char_at f 0;
          c1 = (if c0 \<noteq> NUL then char_at f 1 else NUL);
          c2 = (if c1 \<noteq> NUL then char_at f 2 else NUL) in
      if c0 = CHR ''d'' then (D_int 10 True, 1)
      else if c0 = CHR ''l'' \<and> c1 = CHR ''d'' then (D_long 10 True, 2)
      else if c0 = CHR ''l'' \<and> c1 = CHR ''l'' \<and> c2 = CHR ''d'' then (D_long 10 True, 3)
      else if c0 = CHR ''u'' then (D_int 10 False, 1)
      else if c0 = CHR ''l'' \<and> c1 = CHR ''u'' then (D_long 10 False, 2)
      else if c0 = CHR ''l'' \<and> c1 = CHR ''l'' \<and> c2 = CHR ''u'' then (D_long 10 False, 3)
      else if c0 = CHR ''x'' then (D_int 16 False, 1)
      else if c0 = CHR ''l'' \<and> c1 = CHR ''x'' then (D_long 16 False, 2)
      else if c0 = CHR ''l'' \<and> c1 = CHR ''l'' \<and> c2 = CHR ''x'' then (D_long 16 False, 3)
      else if c0 = CHR ''p'' then (D_ptr, 1)
      else if c0 = CHR ''s'' then (D_str, 1)
      else if c0 = CHR ''%'' then (D_percent, 1)
      else if c0 = NUL then (D_end, 0)
      else (D_unknown c0, 1))"

text \<open>\<^verbatim>\<open>printint\<close> takes an int, so of a 64-bit argument only the low half is printed.\<close>

fun udo_directive :: "'w os \<Rightarrow> int \<Rightarrow> directive \<Rightarrow> va list \<Rightarrow> 'w \<Rightarrow> (va list, 'w) prog" where
  "udo_directive sys fd (D_int base sg) (VInt v # ap) w = bindU (printint_u sys fd v base sg w) (\<lambda>_. retU ap)"
| "udo_directive sys fd (D_long base sg) (VLong v # ap) w = bindU (printint_u sys fd (ucast v) base sg w) (\<lambda>_. retU ap)"
| "udo_directive sys fd D_ptr (VLong v # ap) w = retU ap (printptr_u sys fd v w)"
| "udo_directive sys fd D_str (VStr p # ap) w =
     retU ap (puts_u sys fd (case p of None \<Rightarrow> ''(null)'' | Some cs \<Rightarrow> cs) w)"
| "udo_directive sys fd D_percent ap w = retU ap (putc sys fd CHR ''%'' w)"
| "udo_directive sys fd (D_unknown c) ap w = retU ap (putc sys fd c (putc sys fd CHR ''%'' w))"
| "udo_directive sys fd _ ap w = Some (Inl Undefined, w)"

function vprintf :: "'w os \<Rightarrow> int \<Rightarrow> string \<Rightarrow> va list \<Rightarrow> 'w \<Rightarrow> (unit, 'w) prog" where
  "vprintf sys fd [] ap w = retU () w"
| "vprintf sys fd (c # f) ap w =
     (if c \<noteq> CHR ''%'' then vprintf sys fd f ap (putc sys fd c w)
      else let (d, k) = udirective_of f in
           if d = D_end then retU () w
           else bindU (udo_directive sys fd d ap w) (\<lambda>ap w. vprintf sys fd (drop k f) ap w))"
  by pat_completeness auto

termination
  by (relation "measure (\<lambda>(_, _, f, _, _). length f)") auto

declare vprintf.simps [simp del]

definition fprintf :: "'w os \<Rightarrow> int \<Rightarrow> string \<Rightarrow> va list \<Rightarrow> 'w \<Rightarrow> (unit, 'w) prog" where
  "fprintf sys fd fmt ap w = vprintf sys fd fmt ap w"

definition printf_u :: "'w os \<Rightarrow> string \<Rightarrow> va list \<Rightarrow> 'w \<Rightarrow> (unit, 'w) prog" where
  "printf_u sys fmt ap w = vprintf sys 1 fmt ap w"

section \<open>Facts about strings and arrays\<close>

lemma string_at_eq: "(\<forall>i<length s. a (k + i) = s ! i) \<Longrightarrow> a (k + length s) = NUL \<Longrightarrow> NUL \<notin> set s \<Longrightarrow> string_at a k = Some s"
proof (induction s arbitrary: k)
  case Nil
  then show ?case by (simp add: string_at.simps)
next
  case (Cons c s)
  have "string_at a (Suc k) = Some s" using Cons.prems by (intro Cons.IH) auto
  moreover have "a k = c" using Cons.prems(1) by (metis add.right_neutral length_Cons nth_Cons_0 zero_less_Suc)
  ultimately show ?case using Cons.prems(3) by (subst string_at.simps) auto
qed

lemma strchr_append: "c \<notin> set s \<Longrightarrow> strchr (s @ c # t) c = Some (length s)"
  by (induction s) auto

lemma strchr_None: "strchr s c = None \<longleftrightarrow> c \<notin> set s"
  by (induction s) auto

text \<open>What programs rely on: reading delivers the input in pieces, writing appends to the output.\<close>

definition reads :: "'w os \<Rightarrow> int \<Rightarrow> ('w \<Rightarrow> string) \<Rightarrow> ('w \<Rightarrow> string) \<Rightarrow> bool" where
  "reads sys fd inp out \<longleftrightarrow> (\<forall>n w. \<exists>k w'. u_read sys fd n w = (int k, take k (inp w), w') \<and> k \<le> n \<and> k \<le> length (inp w) \<and>
     (0 < n \<and> inp w \<noteq> [] \<longrightarrow> 0 < k) \<and> inp w' = drop k (inp w) \<and> out w' = out w)"

definition writes :: "'w os \<Rightarrow> int \<Rightarrow> ('w \<Rightarrow> string) \<Rightarrow> ('w \<Rightarrow> string) \<Rightarrow> bool" where
  "writes sys fd inp out \<longleftrightarrow> (\<forall>s w. \<exists>w'. u_write sys fd s w = (int (length s), w') \<and> out w' = out w @ s \<and> inp w' = inp w)"

lemma move_up_apply: "dst < src \<Longrightarrow> move_up dst src n a i = (if dst \<le> i \<and> i < dst + n then a (src + (i - dst)) else a i)"
proof (induction n arbitrary: dst src a)
  case (Suc n)
  show ?case
  proof (cases "i = dst")
    case False
    then show ?thesis using Suc.IH [of "Suc dst" "Suc src"] Suc.prems by (auto intro!: arg_cong [where f = a])
  qed (use Suc.IH [of "Suc dst" "Suc src"] Suc.prems in auto)
qed auto

lemma move_down_apply: "src \<le> dst \<Longrightarrow> move_down dst src n a i = (if dst \<le> i \<and> i < dst + n then a (src + (i - dst)) else a i)"
proof (induction n arbitrary: a)
  case (Suc n)
  then show ?case by (auto simp: less_Suc_eq)
qed auto

lemma memmove_u_apply: "memmove_u dst src n a i = (if dst \<le> i \<and> i < dst + n then a (src + (i - dst)) else a i)"
  by (simp add: memmove_u_def move_up_apply move_down_apply)

section \<open>What formatted output writes\<close>

lemma puts_u_out:
  assumes "writes sys fd inp out"
  shows "out (puts_u sys fd s w) = out w @ s \<and> inp (puts_u sys fd s w) = inp w"
proof (induction s arbitrary: w)
  case (Cons c s)
  obtain w' where "u_write sys fd [c] w = (1, w')" "out w' = out w @ [c]" "inp w' = inp w"
    using assms unfolding writes_def by (metis One_nat_def length_Cons list.size(3) of_nat_1)
  then show ?case using Cons [of w'] by (simp add: puts_u_def putc_def)
qed (simp add: puts_u_def)

definition decimal :: "uint32 \<Rightarrow> string" where
  "decimal x = rev (printint_u_chars x 10 True)"

lemma length_printint_u_chars: "length (printint_u_chars x 10 sg) \<le> 11"
proof -
  have "unat (if sg \<and> sint x < 0 then - x else x) < 10 ^ Suc 9" using unat_32_less [of "if sg \<and> sint x < 0 then - x else x"] by simp
  then have "length (digits_rev 10 (unat (if sg \<and> sint x < 0 then - x else x))) \<le> Suc 9"
    by (subst length_digits_rev) simp_all
  then show ?thesis by (auto simp: printint_u_chars_def Let_def split: if_splits)
qed

lemma vprintf_steps:
  "c \<noteq> CHR ''%'' \<Longrightarrow> vprintf sys fd (c # f) ap w = vprintf sys fd f ap (puts_u sys fd [c] w)"
  "vprintf sys fd (CHR ''%'' # CHR ''d'' # f) (VInt v # ap) w = vprintf sys fd f ap (puts_u sys fd (decimal v) w)"
  "vprintf sys fd (CHR ''%'' # CHR ''s'' # f) (VStr (Some s) # ap) w = vprintf sys fd f ap (puts_u sys fd s w)"
proof -
  have l: "\<not> 16 < length (printint_u_chars v 10 True)" using length_printint_u_chars [of v True] by simp
  show "c \<noteq> CHR ''%'' \<Longrightarrow> vprintf sys fd (c # f) ap w = vprintf sys fd f ap (puts_u sys fd [c] w)"
    by (simp add: vprintf.simps puts_u_def)
  show "vprintf sys fd (CHR ''%'' # CHR ''d'' # f) (VInt v # ap) w = vprintf sys fd f ap (puts_u sys fd (decimal v) w)"
    using l by (subst vprintf.simps) (simp add: udirective_of_def char_at_def printint_u_def decimal_def)
  show "vprintf sys fd (CHR ''%'' # CHR ''s'' # f) (VStr (Some s) # ap) w = vprintf sys fd f ap (puts_u sys fd s w)"
    by (subst vprintf.simps) (simp add: udirective_of_def char_at_def)
qed

section \<open>An example system\<close>

text \<open>A system with one input that is read in pieces of at most three characters.\<close>

definition demo_os :: "(string \<times> string) os" where
  "demo_os = \<lparr>u_read = (\<lambda>fd n w. let k = min (min n 3) (length (fst w)) in (int k, take k (fst w), (drop k (fst w), snd w))),
     u_write = (\<lambda>fd s w. (int (length s), (fst w, snd w @ s))), u_open = (\<lambda>_ _ w. (3, w)), u_close = (\<lambda>_ w. (0, w)),
     u_fstat = (\<lambda>_ w. (0, \<lparr>st_dev = 1, st_ino = 2, st_type = 2, st_nlink = 1, st_size = 0\<rparr>, w)), u_fork = (\<lambda>w. (1, w)), u_wait = (\<lambda>w. (1, w)),
     u_exec = (\<lambda>_ _ w. (None, w)), u_pipe = (\<lambda>w. (0, (3, 4), w)), u_dup = (\<lambda>_ w. (5, w)), u_kill = (\<lambda>_ w. (0, w)),
     u_link = (\<lambda>_ _ w. (0, w)), u_unlink = (\<lambda>_ w. (0, w)), u_mkdir = (\<lambda>_ w. (0, w)), u_mknod = (\<lambda>_ _ _ w. (0, w)), u_chdir = (\<lambda>_ w. (0, w)),
     u_getpid = (\<lambda>w. (2, w)), u_sleep = (\<lambda>_ w. (0, w)), u_debugswitch = (\<lambda>w. (0, w)), u_printfslab = (\<lambda>w. (0, w))\<rparr>"

lemma demo_os_reads: "reads demo_os fd fst snd"
  unfolding reads_def
proof (intro allI)
  fix n and w :: "string \<times> string"
  let ?k = "min (min n 3) (length (fst w))"
  show "\<exists>k w'. u_read demo_os fd n w = (int k, take k (fst w), w') \<and> k \<le> n \<and> k \<le> length (fst w) \<and>
     (0 < n \<and> fst w \<noteq> [] \<longrightarrow> 0 < k) \<and> fst w' = drop k (fst w) \<and> snd w' = snd w"
    by (intro exI [of _ ?k] exI [of _ "(drop ?k (fst w), snd w)"]) (simp add: demo_os_def Let_def)
qed

lemma demo_os_writes: "writes demo_os fd fst snd"
  by (simp add: writes_def demo_os_def)

end
