(* ===== verification/Grep.thy ===== *)
theory Grep imports Ulib begin

text \<open>
  \<^verbatim>\<open>user/grep.c\<close>: the regular-expression matcher and the loop that cuts its input into lines. The
  matcher is compared with the language of a pattern; the loop with the lines of the whole input,
  whatever pieces \<^verbatim>\<open>read\<close> delivers it in.
\<close>

section \<open>The matcher\<close>

function (sequential) matchhere :: "string \<Rightarrow> string \<Rightarrow> bool"
  and matchstar :: "char \<Rightarrow> string \<Rightarrow> string \<Rightarrow> bool" where
  "matchhere re text =
     (if char_at re 0 = NUL then True
      else if char_at re 1 = CHR ''*'' then matchstar (char_at re 0) (drop 2 re) text
      else if char_at re 0 = CHR ''$'' \<and> char_at re 1 = NUL then char_at text 0 = NUL
      else if char_at text 0 \<noteq> NUL \<and> (char_at re 0 = CHR ''.'' \<or> char_at re 0 = char_at text 0)
      then matchhere (drop 1 re) (drop 1 text)
      else False)"
| "matchstar c re text =
     (if matchhere re text then True
      else if char_at text 0 \<noteq> NUL \<and> (char_at text 0 = c \<or> c = CHR ''.'') then matchstar c re (drop 1 text)
      else False)"
  by pat_completeness auto

termination
  by (relation "measure (\<lambda>x. case x of Inl (re, text) \<Rightarrow> 2 * (length re + length text)
       | Inr (c, re, text) \<Rightarrow> 2 * (length re + length text) + 1)")
    (auto simp: char_at_def neq_Nil_conv split: if_splits)

declare matchhere.simps [simp del] matchstar.simps [simp del]

fun match_from :: "string \<Rightarrow> string \<Rightarrow> bool" where
  "match_from re text =
     (if matchhere re text then True else case text of [] \<Rightarrow> False | _ # text \<Rightarrow> match_from re text)"

declare match_from.simps [simp del]

definition match :: "string \<Rightarrow> string \<Rightarrow> bool" where
  "match re text = (if char_at re 0 = CHR ''^'' then matchhere (drop 1 re) text else match_from re text)"

section \<open>The input loop\<close>

definition GREPBUF :: nat where "GREPBUF = 1024"

text \<open>The complete lines of the buffer from index \<open>p\<close> on; the result is the start of the incomplete one.\<close>

partial_function (option) grep_lines :: "'w os \<Rightarrow> string \<Rightarrow> nat \<Rightarrow> chars \<Rightarrow> 'w \<Rightarrow> (nat \<times> chars \<times> 'w) option" where
  "grep_lines sys pattern p buf w =
     Option.bind (string_at buf p) (\<lambda>s.
     case strchr s newline of
       None \<Rightarrow> Some (p, buf, w)
     | Some k \<Rightarrow>
         let q = p + k;
             buf = buf(q := NUL) in
         Option.bind (string_at buf p) (\<lambda>line.
         if match pattern line then
           let buf = buf(q := newline) in
           grep_lines sys pattern (Suc q) buf (snd (u_write sys 1 (map buf [p..<Suc q]) w))
         else grep_lines sys pattern (Suc q) buf w))"

partial_function (option) grep_from :: "'w os \<Rightarrow> string \<Rightarrow> int \<Rightarrow> nat \<Rightarrow> chars \<Rightarrow> 'w \<Rightarrow> (chars \<times> 'w) option" where
  "grep_from sys pattern fd m buf w =
     (let (n, bs, w) = u_read sys fd (GREPBUF - m - 1) w;
          buf = store_chars m bs buf in
      if n > 0 then
        let m = m + nat n;
            buf = buf(m := NUL) in
        Option.bind (grep_lines sys pattern 0 buf w) (\<lambda>(p, buf, w).
        if m > 0 then
          let m = m - p in
          grep_from sys pattern fd m (memmove_u 0 p m buf) w
        else grep_from sys pattern fd m buf w)
      else Some (buf, w))"

definition grep :: "'w os \<Rightarrow> string \<Rightarrow> int \<Rightarrow> chars \<Rightarrow> 'w \<Rightarrow> (chars \<times> 'w) option" where
  "grep sys pattern fd buf w = grep_from sys pattern fd 0 buf w"

fun grep_files :: "'w os \<Rightarrow> string \<Rightarrow> string list \<Rightarrow> chars \<Rightarrow> 'w \<Rightarrow> (unit, 'w) prog" where
  "grep_files sys pattern [] buf w = exitU 0 w"
| "grep_files sys pattern (name # names) buf w =
     (let (fd, w) = u_open sys name O_RDONLY w in
      if fd < 0 then bindU (printf_u sys (''grep: cannot open %s'' @ [newline]) [VStr (Some name)] w) (\<lambda>_. exitU 1)
      else Option.bind (grep sys pattern fd buf w) (\<lambda>(buf, w).
        grep_files sys pattern names buf (snd (u_close sys fd w))))"

fun grep_main :: "'w os \<Rightarrow> string list \<Rightarrow> chars \<Rightarrow> 'w \<Rightarrow> (unit, 'w) prog" where
  "grep_main sys (prog # pattern # []) buf w = Option.bind (grep sys pattern 0 buf w) (\<lambda>(buf, w). exitU 0 w)"
| "grep_main sys (prog # pattern # names) buf w = grep_files sys pattern names buf w"
| "grep_main sys argv buf w =
     bindU (fprintf sys 2 (''usage: grep pattern [file ...]'' @ [newline]) [] w) (\<lambda>_. exitU 1)"

section \<open>The language of a pattern\<close>

text \<open>
  A pattern is a sequence of characters, dots and starred ones of these, with an optional anchor at
  the end.
\<close>

datatype atom = Any | Lit char

datatype item = Single atom | Repeat atom

fun accepts :: "atom \<Rightarrow> char \<Rightarrow> bool" where
  "accepts Any c \<longleftrightarrow> True"
| "accepts (Lit d) c \<longleftrightarrow> c = d"

definition atom_of :: "char \<Rightarrow> atom" where
  "atom_of c = (if c = CHR ''.'' then Any else Lit c)"

fun pattern_items :: "string \<Rightarrow> item list \<times> bool" where
  "pattern_items [] = ([], False)"
| "pattern_items [c] = (if c = CHR ''$'' then ([], True) else ([Single (atom_of c)], False))"
| "pattern_items (c # d # re) =
     (if d = CHR ''*'' then let (is, e) = pattern_items re in (Repeat (atom_of c) # is, e)
      else let (is, e) = pattern_items (d # re) in (Single (atom_of c) # is, e))"

fun language :: "item list \<Rightarrow> string set" where
  "language [] = {[]}"
| "language (Single a # is) = {c # w |c w. accepts a c \<and> w \<in> language is}"
| "language (Repeat a # is) = {u @ w |u w. (\<forall>c \<in> set u. accepts a c) \<and> w \<in> language is}"

text \<open>A beginning of the text, or all of it when the pattern is anchored at its end, is in the language.\<close>

definition prefix_in :: "item list \<times> bool \<Rightarrow> string \<Rightarrow> bool" where
  "prefix_in p tx \<longleftrightarrow> (\<exists>u v. tx = u @ v \<and> u \<in> language (fst p) \<and> (snd p \<longrightarrow> v = []))"

lemma prefix_in_Nil: "prefix_in ([], e) tx \<longleftrightarrow> (e \<longrightarrow> tx = [])"
  by (auto simp: prefix_in_def)

lemma prefix_in_Single:
  "prefix_in (Single a # is, e) tx \<longleftrightarrow> tx \<noteq> [] \<and> accepts a (hd tx) \<and> prefix_in (is, e) (tl tx)"
proof
  assume "prefix_in (Single a # is, e) tx"
  then obtain c w v where "tx = (c # w) @ v" "accepts a c" "w \<in> language is" "e \<longrightarrow> v = []"
    unfolding prefix_in_def by force
  then show "tx \<noteq> [] \<and> accepts a (hd tx) \<and> prefix_in (is, e) (tl tx)"
    unfolding prefix_in_def by (intro conjI exI [of _ w] exI [of _ v]) simp_all
next
  assume r: "tx \<noteq> [] \<and> accepts a (hd tx) \<and> prefix_in (is, e) (tl tx)"
  then obtain u v where "tl tx = u @ v" "u \<in> language is" "e \<longrightarrow> v = []" unfolding prefix_in_def by force
  then have "tx = (hd tx # u) @ v" "hd tx # u \<in> language (Single a # is)" "e \<longrightarrow> v = []"
    using r by (cases tx; simp)+
  then show "prefix_in (Single a # is, e) tx" unfolding prefix_in_def fst_conv snd_conv by blast
qed

lemma prefix_in_Repeat:
  "prefix_in (Repeat a # is, e) tx \<longleftrightarrow>
     prefix_in (is, e) tx \<or> tx \<noteq> [] \<and> accepts a (hd tx) \<and> prefix_in (Repeat a # is, e) (tl tx)"
proof
  assume "prefix_in (Repeat a # is, e) tx"
  then obtain x w v where t: "tx = (x @ w) @ v" "\<forall>c \<in> set x. accepts a c" "w \<in> language is" "e \<longrightarrow> v = []"
    unfolding prefix_in_def by force
  show "prefix_in (is, e) tx \<or> tx \<noteq> [] \<and> accepts a (hd tx) \<and> prefix_in (Repeat a # is, e) (tl tx)"
  proof (cases x)
    case Nil
    then show ?thesis using t by (auto simp: prefix_in_def)
  next
    case (Cons c y)
    then have "prefix_in (Repeat a # is, e) (tl tx)"
      using t unfolding prefix_in_def fst_conv snd_conv language.simps by (intro exI [of _ "y @ w"] exI [of _ v]) auto
    then show ?thesis using t Cons by simp
  qed
next
  assume "prefix_in (is, e) tx \<or> tx \<noteq> [] \<and> accepts a (hd tx) \<and> prefix_in (Repeat a # is, e) (tl tx)"
  then show "prefix_in (Repeat a # is, e) tx"
  proof
    assume "prefix_in (is, e) tx"
    then obtain u v where "tx = u @ v" "u \<in> language is" "e \<longrightarrow> v = []" by (auto simp: prefix_in_def)
    moreover have "[] @ u \<in> language (Repeat a # is)"
      unfolding language.simps using \<open>u \<in> language is\<close> by (intro CollectI exI [of _ "[]"] exI [of _ u]) simp
    ultimately show ?thesis unfolding prefix_in_def fst_conv snd_conv append_Nil by blast
  next
    assume r: "tx \<noteq> [] \<and> accepts a (hd tx) \<and> prefix_in (Repeat a # is, e) (tl tx)"
    then obtain x w v where "tl tx = (x @ w) @ v" "\<forall>c \<in> set x. accepts a c" "w \<in> language is" "e \<longrightarrow> v = []"
      unfolding prefix_in_def by force
    then have "tx = ((hd tx # x) @ w) @ v" "\<forall>c \<in> set (hd tx # x). accepts a c" "w \<in> language is" "e \<longrightarrow> v = []"
      using r by (cases tx; simp)+
    moreover from this have "(hd tx # x) @ w \<in> language (Repeat a # is)" unfolding language.simps by blast
    ultimately show ?thesis unfolding prefix_in_def fst_conv snd_conv by blast
  qed
qed

lemma accepts_atom_of: "accepts (atom_of c) d \<longleftrightarrow> c = CHR ''.'' \<or> d = c"
  by (auto simp: atom_of_def)

lemma char_at_nul [simp]: "NUL \<notin> set s \<Longrightarrow> char_at s 0 = NUL \<longleftrightarrow> s = []"
  by (cases s) (auto simp: char_at_def)

lemma matcher_language:
  "NUL \<notin> set re \<Longrightarrow> NUL \<notin> set tx \<Longrightarrow> matchhere re tx \<longleftrightarrow> prefix_in (pattern_items re) tx"
  "NUL \<notin> set re \<Longrightarrow> NUL \<notin> set tx \<Longrightarrow>
     matchstar c re tx \<longleftrightarrow> prefix_in (Repeat (atom_of c) # fst (pattern_items re), snd (pattern_items re)) tx"
proof (induction re tx and c re tx rule: matchhere_matchstar.induct)
  case (1 re tx)
  note [simp] = prefix_in_Nil prefix_in_Single accepts_atom_of
  have n: "NUL \<notin> set (drop 2 re)" "NUL \<notin> set (drop 1 re)" "NUL \<notin> set (drop 1 tx)"
    using 1(3,4) by (auto dest: in_set_dropD)
  consider "re = []" | d where "re = [d]" | d r where "re = d # CHR ''*'' # r" | d x r where "re = d # x # r" "x \<noteq> CHR ''*''"
    by (metis neq_Nil_conv)
  then show ?case
  proof cases
    case 1
    then show ?thesis by (subst matchhere.simps) (simp add: char_at_def)
  next
    case (2 d)
    then show ?thesis using "1.prems" "1.IH"(2) n
      by (subst matchhere.simps) (cases tx; auto simp: char_at_def matchhere.simps [of "[]"])
  next
    case (3 d r)
    then have "matchstar d r tx \<longleftrightarrow> prefix_in (Repeat (atom_of d) # fst (pattern_items r), snd (pattern_items r)) tx"
      using "1.IH"(1) "1.prems" n by (auto simp: char_at_def)
    then show ?thesis using 3 "1.prems" by (subst matchhere.simps) (auto simp: char_at_def case_prod_beta)
  next
    case (4 d x r)
    have "prefix_in (pattern_items re) tx \<longleftrightarrow> tx \<noteq> [] \<and> accepts (atom_of d) (hd tx) \<and> prefix_in (pattern_items (x # r)) (tl tx)"
      using 4 by (simp add: case_prod_beta del: accepts_atom_of)
    moreover have "matchhere re tx \<longleftrightarrow> tx \<noteq> [] \<and> accepts (atom_of d) (hd tx) \<and> matchhere (x # r) (tl tx)"
      using 4 "1.prems" by (subst matchhere.simps) (cases tx; auto simp: char_at_def)
    moreover have "matchhere (x # r) (tl tx) \<longleftrightarrow> prefix_in (pattern_items (x # r)) (tl tx)"
      if "tx \<noteq> []" "accepts (atom_of d) (hd tx)"
      using "1.IH"(2) 4 "1.prems" n that by (cases tx) (auto simp: char_at_def)
    ultimately show ?thesis by blast
  qed
next
  case (2 c re tx)
  have n: "NUL \<notin> set (drop 1 tx)" using 2(4) by (auto dest: in_set_dropD)
  show ?case
    using 2 n by (subst matchstar.simps, subst prefix_in_Repeat) (cases tx; auto simp: char_at_def accepts_atom_of)
qed


lemma match_language:
  assumes "NUL \<notin> set re" "NUL \<notin> set tx"
  shows "match re tx \<longleftrightarrow>
    (if re \<noteq> [] \<and> hd re = CHR ''^'' then prefix_in (pattern_items (tl re)) tx
     else \<exists>u v. tx = u @ v \<and> prefix_in (pattern_items re) v)"
proof -
  have "match_from re tx \<longleftrightarrow> (\<exists>u v. tx = u @ v \<and> prefix_in (pattern_items re) v)"
    using assms(2)
  proof (induction tx)
    case Nil
    then show ?case using assms(1) by (subst match_from.simps) (simp add: matcher_language)
  next
    case (Cons c tx)
    have "(\<exists>u v. c # tx = u @ v \<and> prefix_in (pattern_items re) v) \<longleftrightarrow>
        prefix_in (pattern_items re) (c # tx) \<or> (\<exists>u v. tx = u @ v \<and> prefix_in (pattern_items re) v)"
      by (metis append_Cons append_Nil list.exhaust list.inject)
    then show ?case using Cons assms(1) by (subst match_from.simps) (auto simp: matcher_language)
  qed
  moreover have "NUL \<notin> set (tl re)" using assms(1) by (cases re) auto
  ultimately show ?thesis using assms
    by (cases re) (auto simp: match_def char_at_def matcher_language)
qed

text \<open>
  C28. The backtracking matcher of \<^verbatim>\<open>grep\<close> decides the language of its pattern: a text matches exactly if
  some part of it is a word of the pattern's language, a part at the beginning for a pattern
  that starts with \<^verbatim>\<open>^\<close> and a part at the end for one that ends with \<^verbatim>\<open>$\<close>. The matcher always returns.
\<close>

theorem grep_match_language:
  assumes "NUL \<notin> set re" "NUL \<notin> set tx"
  shows "match re tx \<longleftrightarrow>
    (\<exists>a u b. tx = a @ u @ b \<and>
       (let anchored = (re \<noteq> [] \<and> hd re = CHR ''^'');
            (is, dollar) = pattern_items (if anchored then tl re else re) in
        u \<in> language is \<and> (anchored \<longrightarrow> a = []) \<and> (dollar \<longrightarrow> b = [])))"
  unfolding match_language [OF assms] prefix_in_def by (auto simp: case_prod_beta)

theorem grep_match_language_witness:
  "match ''b.*$'' ''aabxx'' \<and> \<not> match ''^b'' ''ab''"
proof
  show "match ''b.*$'' ''aabxx''"
    by (rule grep_match_language [THEN iffD2], simp, simp, rule exI [of _ "''aa''"], rule exI [of _ "''bxx''"], rule exI [of _ "[]"])
      (simp add: atom_of_def)
  show "\<not> match ''^b'' ''ab''" using grep_match_language [of "''^b''" "''ab''"] by (auto simp: atom_of_def)
qed

section \<open>The lines printed\<close>

text \<open>A text in the buffer, up to its NUL.\<close>

definition holds :: "chars \<Rightarrow> nat \<Rightarrow> string \<Rightarrow> bool" where
  "holds a k s \<longleftrightarrow> (\<forall>i<length s. a (k + i) = s ! i) \<and> a (k + length s) = NUL"

definition unlines :: "string list \<Rightarrow> string" where
  "unlines ls = concat (map (\<lambda>l. l @ [newline]) ls)"

lemma unlines_simps [simp]: "unlines [] = []" "unlines (l # ls) = l @ newline # unlines ls" "unlines (ls @ ks) = unlines ls @ unlines ks"
  by (simp_all add: unlines_def)

lemma grep_lines_spec:
  assumes "writes sys 1 inp out" "holds buf p (unlines ls @ r)" "newline \<notin> set r" "NUL \<notin> set (unlines ls @ r)"
    "\<forall>l \<in> set ls. newline \<notin> set l"
  shows "\<exists>buf' w'. grep_lines sys pattern p buf w = Some (p + length (unlines ls), buf', w') \<and>
    (\<forall>i \<ge> p + length (unlines ls). buf' i = buf i) \<and>
    out w' = out w @ unlines (filter (match pattern) ls) \<and> inp w' = inp w"
  using assms(2-)
proof (induction ls arbitrary: p buf w)
  case Nil
  have "string_at buf p = Some r" using Nil by (intro string_at_eq) (auto simp: holds_def)
  moreover have "strchr r newline = None" using Nil by (simp add: strchr_None)
  ultimately show ?case by (subst grep_lines.simps) simp
next
  case (Cons l ls)
  let ?q = "p + length l"
  let ?t = "l @ newline # (unlines ls @ r)"
  have at: "buf (p + i) = ?t ! i" if "i < length ?t" for i using Cons.prems(1) that by (auto simp: holds_def)
  have s: "string_at buf p = Some ?t" using Cons.prems(1,3) by (intro string_at_eq) (auto simp: holds_def)
  have k: "strchr ?t newline = Some (length l)" using Cons.prems(4) by (intro strchr_append) auto
  have l: "string_at (buf(?q := NUL)) p = Some l"
    using at Cons.prems(3) by (intro string_at_eq) (auto simp: nth_append)
  have nl: "buf ?q = newline" using at [of "length l"] by simp
  have tx: "map (buf(?q := NUL, ?q := newline)) [p..<Suc ?q] = l @ [newline]"
    using at nl by (intro nth_equalityI) (auto simp: nth_append less_Suc_eq)
  have h: "holds b (Suc ?q) (unlines ls @ r)" if "\<forall>i \<ge> Suc ?q. b i = buf i" for b
    unfolding holds_def
  proof (intro conjI allI impI)
    fix i assume i: "i < length (unlines ls @ r)"
    then show "b (Suc ?q + i) = (unlines ls @ r) ! i" using that at [of "Suc (length l) + i"] by (simp add: nth_append_right add.assoc)
  next
    show "b (Suc ?q + length (unlines ls @ r)) = NUL" using that Cons.prems(1) by (simp add: holds_def add.assoc)
  qed
  have rest: "newline \<notin> set r" "NUL \<notin> set (unlines ls @ r)" "\<forall>l \<in> set ls. newline \<notin> set l" using Cons.prems by auto
  show ?case
  proof (cases "match pattern l")
    case True
    obtain w1 where w1: "u_write sys 1 (l @ [newline]) w = (int (length (l @ [newline])), w1)" "out w1 = out w @ l @ [newline]" "inp w1 = inp w"
      using assms(1) unfolding writes_def by metis
    let ?b = "buf(?q := NUL, ?q := newline)"
    have e: "grep_lines sys pattern p buf w = grep_lines sys pattern (Suc ?q) ?b w1"
      by (subst grep_lines.simps) (simp only: s k l tx w1(1) True Option.bind.bind_lunit option.case Let_def if_True snd_conv)
    have "\<forall>i \<ge> Suc ?q. ?b i = buf i" by simp
    from Cons.IH [OF h [of ?b, OF this] rest, of w1] obtain buf' w' where
      "grep_lines sys pattern (Suc ?q) ?b w1 = Some (Suc ?q + length (unlines ls), buf', w')"
      "\<forall>i \<ge> Suc ?q + length (unlines ls). buf' i = ?b i" "out w' = out w1 @ unlines (filter (match pattern) ls)" "inp w' = inp w1" by blast
    then show ?thesis unfolding e using True w1 by (intro exI [of _ buf'] exI [of _ w']) (simp add: add.assoc)
  next
    case False
    let ?b = "buf(?q := NUL)"
    have e: "grep_lines sys pattern p buf w = grep_lines sys pattern (Suc ?q) ?b w"
      by (subst grep_lines.simps) (simp only: s k l False Option.bind.bind_lunit option.case Let_def if_False)
    have "\<forall>i \<ge> Suc ?q. ?b i = buf i" by simp
    from Cons.IH [OF h [of ?b, OF this] rest, of w] obtain buf' w' where
      "grep_lines sys pattern (Suc ?q) ?b w = Some (Suc ?q + length (unlines ls), buf', w')"
      "\<forall>i \<ge> Suc ?q + length (unlines ls). buf' i = ?b i" "out w' = out w @ unlines (filter (match pattern) ls)" "inp w' = inp w" by blast
    then show ?thesis unfolding e using False by (intro exI [of _ buf'] exI [of _ w']) (simp add: add.assoc)
  qed
qed

lemma first_split: "c \<notin> set x \<Longrightarrow> c \<notin> set l \<Longrightarrow> x @ c # y = l @ c # z \<Longrightarrow> x = l \<and> y = z"
  by (induction x l rule: list_induct2') auto

text \<open>The complete lines of a piece of the input.\<close>

lemma cut_lines:
  assumes "b @ c = unlines ls @ r" "\<forall>l \<in> set ls. newline \<notin> set l" "newline \<notin> set r"
  shows "\<exists>j b'. b = unlines (take j ls) @ b' \<and> newline \<notin> set b' \<and> b' @ c = unlines (drop j ls) @ r"
  using assms(1,2)
proof (induction ls arbitrary: b)
  case Nil
  then have "newline \<notin> set b" using assms(3) by (metis Un_iff append_Nil set_append unlines_simps(1))
  then show ?case using Nil by (intro exI [of _ 0] exI [of _ b]) simp
next
  case (Cons l ls)
  show ?case
  proof (cases "newline \<in> set b")
    case False
    then show ?thesis using Cons.prems by (intro exI [of _ 0] exI [of _ b]) simp
  next
    case True
    then obtain x y where b: "b = x @ newline # y" "newline \<notin> set x" by (metis split_list_first)
    have "x @ newline # (y @ c) = l @ newline # (unlines ls @ r)" using Cons.prems(1) b by simp
    moreover have "newline \<notin> set l" using Cons.prems(2) by simp
    ultimately have "x = l" "y @ c = unlines ls @ r" using b(2) first_split [of newline x l] by blast+
    moreover obtain j b' where "y = unlines (take j ls) @ b'" "newline \<notin> set b'" "b' @ c = unlines (drop j ls) @ r"
      using Cons.IH [OF \<open>y @ c = unlines ls @ r\<close>] Cons.prems(2) by auto
    ultimately show ?thesis using b(1) by (intro exI [of _ "Suc j"] exI [of _ b']) simp
  qed
qed

lemma grep_from_spec:
  assumes "reads sys fd inp out" "writes sys 1 inp out"
    and "b @ inp w = unlines ls @ r" "newline \<notin> set b" "\<forall>i<length b. buf i = b ! i" "length b < GREPBUF"
    and "\<forall>l \<in> set ls. newline \<notin> set l \<and> length l < GREPBUF - 1" "newline \<notin> set r" "NUL \<notin> set (unlines ls @ r)"
  shows "\<exists>buf' w'. grep_from sys pattern fd (length b) buf w = Some (buf', w') \<and>
    out w' = out w @ unlines (filter (match pattern) ls)"
  using assms(3-)
proof (induction "length (inp w)" arbitrary: b buf w ls rule: less_induct)
  case less
  obtain k w1 where k: "u_read sys fd (GREPBUF - length b - 1) w = (int k, take k (inp w), w1)" "k \<le> GREPBUF - length b - 1"
    "k \<le> length (inp w)" "0 < GREPBUF - length b - 1 \<and> inp w \<noteq> [] \<longrightarrow> 0 < k" "inp w1 = drop k (inp w)" "out w1 = out w"
    using assms(1) unfolding reads_def by metis
  show ?case
  proof (cases "k = 0")
    case True
    have "ls = []"
    proof (rule ccontr)
      assume "ls \<noteq> []"
      then obtain l ls' where ls: "ls = l # ls'" by (cases ls) auto
      have "newline \<in> set (b @ inp w)" using less.prems(1) ls by simp
      then have "inp w \<noteq> []" using less.prems(2) by auto
      then have "length b = GREPBUF - 1" using k(4) True less.prems(4) by simp
      moreover have "length b \<le> length l"
      proof (rule ccontr)
        assume "\<not> length b \<le> length l"
        then have "(b @ inp w) ! length l \<in> set b" by (simp add: nth_append)
        then show False using less.prems(1,2) ls by simp
      qed
      ultimately show False using less.prems(5) ls by simp
    qed
    then show ?thesis using True k by (subst grep_from.simps) simp
  next
    case False
    let ?b = "b @ take k (inp w)"
    let ?m = "length b + k"
    let ?buf = "(store_chars (length b) (take k (inp w)) buf)(?m := NUL)"
    have eq: "?b @ inp w1 = unlines ls @ r" using less.prems(1) k(5) by simp
    obtain j b' where j: "?b = unlines (take j ls) @ b'" "newline \<notin> set b'" "b' @ inp w1 = unlines (drop j ls) @ r"
      using cut_lines [OF eq] less.prems(5,6) by blast
    have len: "length ?b = ?m" using k(3) by simp
    have h: "holds ?buf 0 ?b"
      using less.prems(3) k(3) by (auto simp: holds_def store_chars_def nth_append)
    have n: "NUL \<notin> set (unlines (take j ls) @ b')" using less.prems(7) eq j(1) by (metis Un_iff set_append)
    have tl: "\<forall>l \<in> set (take j ls). newline \<notin> set l" using less.prems(5) by (auto dest: in_set_takeD)
    obtain buf2 w2 where g: "grep_lines sys pattern 0 ?buf w1 = Some (length (unlines (take j ls)), buf2, w2)"
      "\<forall>i \<ge> length (unlines (take j ls)). buf2 i = ?buf i"
      "out w2 = out w1 @ unlines (filter (match pattern) (take j ls))" "inp w2 = inp w1"
      using grep_lines_spec [OF assms(2) h [unfolded j(1)] j(2) n tl, of pattern w1] by auto
    let ?p = "length (unlines (take j ls))"
    have m: "?m - ?p = length b'" using len j(1) by (metis add_diff_cancel_left' length_append)
    have b': "\<forall>i<length b'. memmove_u 0 ?p (length b') buf2 i = b' ! i"
      using g(2) h unfolding holds_def j(1) by (simp add: memmove_u_apply nth_append)
    have e: "grep_from sys pattern fd (length b) buf w = grep_from sys pattern fd (length b') (memmove_u 0 ?p (length b') buf2) w2"
      using False by (subst grep_from.simps) (simp add: k(1) [simplified] g(1) m Let_def)
    have "length (inp w2) < length (inp w)" using g(4) k(3,5) False by simp
    moreover have "length b' < GREPBUF" using m k(2) less.prems(4) by simp
    moreover have "\<forall>l \<in> set (drop j ls). newline \<notin> set l \<and> length l < GREPBUF - 1"
      using less.prems(5) by (auto dest: in_set_dropD)
    moreover have "NUL \<notin> set (unlines (drop j ls) @ r)"
      using less.prems(7) by (metis Un_iff append_take_drop_id set_append unlines_simps(3))
    ultimately obtain buf3 w3 where "grep_from sys pattern fd (length b') (memmove_u 0 ?p (length b') buf2) w2 = Some (buf3, w3)"
      "out w3 = out w2 @ unlines (filter (match pattern) (drop j ls))"
      using less.hyps [of w2 b' "drop j ls" "memmove_u 0 ?p (length b') buf2"] j(2,3) g(4) b' less.prems(6) by auto
    then show ?thesis unfolding e using g(3) k(6)
      by (metis append.assoc append_take_drop_id filter_append unlines_simps(3))
  qed
qed

text \<open>
  C29. \<^verbatim>\<open>grep\<close> returns, and what it has printed are exactly the lines that match, in order and each with its
  newline, however \<^verbatim>\<open>read\<close> cuts the input into pieces. The lines have to be shorter than 1023
  characters and free of NULs; an incomplete line at the end is not looked at.
\<close>

theorem grep_prints_matching_lines:
  assumes "reads sys fd inp out" "writes sys 1 inp out"
    and "inp w = unlines ls @ r" "newline \<notin> set r" "NUL \<notin> set (unlines ls @ r)"
    and "\<forall>l \<in> set ls. newline \<notin> set l \<and> length l < 1023"
  shows "\<exists>buf' w'. grep sys pattern fd buf w = Some (buf', w') \<and> out w' = out w @ unlines (filter (match pattern) ls)"
  using grep_from_spec [OF assms(1,2), of "[]" w ls r buf pattern] assms(3-) by (simp add: grep_def GREPBUF_def)

theorem grep_prints_matching_lines_witness:
  "\<exists>buf' w'. grep demo_os ''b'' 0 (\<lambda>_. NUL) (unlines [''abc'', ''xyz'', ''b''] @ ''zb'', []) = Some (buf', w') \<and>
     snd w' = unlines (filter (match ''b'') [''abc'', ''xyz'', ''b''])"
  using grep_prints_matching_lines [OF demo_os_reads demo_os_writes, where w = "(unlines [''abc'', ''xyz'', ''b''] @ ''zb'', [])" and
      ls = "[''abc'', ''xyz'', ''b'']" and r = "''zb''" and fd = 0 and pattern = "''b''" and buf = "\<lambda>_. NUL"] by simp

end
