(* ===== verification/Coreutils.thy ===== *)
theory Coreutils imports Ulib begin

text \<open>
  The small user programs: \<^verbatim>\<open>cat\<close>, \<^verbatim>\<open>wc\<close>, \<^verbatim>\<open>tee\<close>, \<^verbatim>\<open>echo\<close>, \<^verbatim>\<open>ls\<close>, \<^verbatim>\<open>kill\<close>, \<^verbatim>\<open>ln\<close>, \<^verbatim>\<open>mkdir\<close>, \<^verbatim>\<open>rm\<close>, \<^verbatim>\<open>zombie\<close>, \<^verbatim>\<open>init\<close> and
  the helpers of the file-cache exercise, \<^verbatim>\<open>ok.h\<close>, \<^verbatim>\<open>oap\<close>, \<^verbatim>\<open>oak\<close>, \<^verbatim>\<open>gah\<close>, \<^verbatim>\<open>checkstr\<close>, \<^verbatim>\<open>prepare\<close>, \<^verbatim>\<open>mp2\<close> and
  \<^verbatim>\<open>debugswitch\<close>. A program's arguments are the list \<^verbatim>\<open>argv\<close>, its name first.
\<close>

abbreviation line :: "string \<Rightarrow> string" where "line s \<equiv> s @ [newline]"

section \<open>Reading and writing whole files\<close>

text \<open>\<^verbatim>\<open>for(i = 1; i < argc; i++)\<close> with a body that opens the file, works on it and closes it.\<close>

fun each_file :: "'w os \<Rightarrow> (string \<Rightarrow> 'w \<Rightarrow> (unit, 'w) prog) \<Rightarrow> (int \<Rightarrow> string \<Rightarrow> 'w \<Rightarrow> (unit, 'w) prog) \<Rightarrow> string list \<Rightarrow> 'w \<Rightarrow> (unit, 'w) prog" where
  "each_file sys cannot work [] w = exitU 0 w"
| "each_file sys cannot work (name # names) w =
     (let (fd, w) = u_open sys name O_RDONLY w in
      if fd < 0 then bindU (cannot name w) (\<lambda>_. exitU 1)
      else bindU (work fd name w) (\<lambda>_ w. each_file sys cannot work names (snd (u_close sys fd w))))"

partial_function (option) cat :: "'w os \<Rightarrow> int \<Rightarrow> 'w \<Rightarrow> (unit, 'w) prog" where
  "cat sys fd w =
     (let (n, bs, w) = u_read sys fd 512 w in
      if n > 0 then
        let (k, w) = u_write sys 1 bs w in
        if k \<noteq> n then bindU (fprintf sys 2 (line ''cat: write error'') [] w) (\<lambda>_. exitU 1)
        else cat sys fd w
      else if n < 0 then bindU (fprintf sys 2 (line ''cat: read error'') [] w) (\<lambda>_. exitU 1)
      else retU () w)"

definition cat_main :: "'w os \<Rightarrow> string list \<Rightarrow> 'w \<Rightarrow> (unit, 'w) prog" where
  "cat_main sys argv w =
     (if length argv \<le> 1 then bindU (cat sys 0 w) (\<lambda>_. exitU 0)
      else each_file sys (\<lambda>name. fprintf sys 2 (line ''cat: cannot open %s'') [VStr (Some name)]) (\<lambda>fd _. cat sys fd) (tl argv) w)"

text \<open>The counts of \<^verbatim>\<open>wc\<close> are C ints.\<close>

type_synonym counts = "uint32 \<times> uint32 \<times> uint32 \<times> bool"

fun wc_char :: "char \<Rightarrow> counts \<Rightarrow> counts" where
  "wc_char ch (l, w, c, inword) =
     (let c = c + 1;
          l = (if ch = newline then l + 1 else l) in
      if strchr [CHR '' '', CHR 0x0D, CHR 0x09, CHR 0x0A, CHR 0x0B] ch \<noteq> None then (l, w, c, False)
      else if \<not> inword then (l, w + 1, c, True)
      else (l, w, c, inword))"

partial_function (option) wc_from :: "'w os \<Rightarrow> int \<Rightarrow> string \<Rightarrow> counts \<Rightarrow> 'w \<Rightarrow> (unit, 'w) prog" where
  "wc_from sys fd name t w =
     (let (n, bs, w) = u_read sys fd 512 w in
      if n > 0 then wc_from sys fd name (fold wc_char bs t) w
      else if n < 0 then bindU (printf_u sys (line ''wc: read error'') [] w) (\<lambda>_. exitU 1)
      else let (l, wd, c, inword) = t in
           printf_u sys (line ''%d %d %d %s'') [VInt l, VInt wd, VInt c, VStr (Some name)] w)"

definition wc :: "'w os \<Rightarrow> int \<Rightarrow> string \<Rightarrow> 'w \<Rightarrow> (unit, 'w) prog" where
  "wc sys fd name w = wc_from sys fd name (0, 0, 0, False) w"

definition wc_main :: "'w os \<Rightarrow> string list \<Rightarrow> 'w \<Rightarrow> (unit, 'w) prog" where
  "wc_main sys argv w =
     (if length argv \<le> 1 then bindU (wc sys 0 [] w) (\<lambda>_. exitU 0)
      else each_file sys (\<lambda>name. printf_u sys (line ''wc: cannot open %s'') [VStr (Some name)]) (wc sys) (tl argv) w)"

partial_function (option) tee_from :: "'w os \<Rightarrow> int \<Rightarrow> 'w \<Rightarrow> (unit, 'w) prog" where
  "tee_from sys fd w =
     (let (n, bs, w) = u_read sys 0 512 w in
      if n > 0 then
        let (_, w) = u_write sys 1 bs w;
            (_, w) = u_write sys fd bs w in
        tee_from sys fd w
      else bindU (if n < 0 then fprintf sys 2 (line ''tee: read error'') [] w else retU () w) (\<lambda>_ w.
        exitU 0 (snd (u_close sys fd w))))"

definition tee_main :: "'w os \<Rightarrow> string list \<Rightarrow> 'w \<Rightarrow> (unit, 'w) prog" where
  "tee_main sys argv w =
     (if length argv < 2 then bindU (fprintf sys 2 (line ''Usage: tee <file>'') [] w) (\<lambda>_. exitU 1)
      else let (fd, w) = u_open sys (argv ! 1) (O_CREATE + O_WRONLY) w in
           if fd < 0 then bindU (fprintf sys 2 (line ''tee: cannot open %s'') [VStr (Some (argv ! 1))] w) (\<lambda>_. exitU 1)
           else tee_from sys fd w)"

fun echo_args :: "'w os \<Rightarrow> string list \<Rightarrow> 'w \<Rightarrow> 'w" where
  "echo_args sys [] w = w"
| "echo_args sys (a # as) w =
     (let (_, w) = u_write sys 1 a w;
          (_, w) = u_write sys 1 (if as \<noteq> [] then '' '' else [newline]) w in
      echo_args sys as w)"

definition echo_main :: "'w os \<Rightarrow> string list \<Rightarrow> 'w \<Rightarrow> (unit, 'w) prog" where
  "echo_main sys argv w = exitU 0 (echo_args sys (tl argv) w)"

section \<open>Listing directories\<close>

text \<open>The part of a path after its last slash, padded with blanks if it is short.\<close>

definition fmtname :: "string \<Rightarrow> string" where
  "fmtname path =
     (let p = rev (takeWhile (\<lambda>c. c \<noteq> CHR ''/'') (rev path)) in
      if DIRSIZ \<le> length p then p else p @ replicate (DIRSIZ - length p) CHR '' '')"

definition print_stat :: "'w os \<Rightarrow> string \<Rightarrow> stat \<Rightarrow> 'w \<Rightarrow> (unit, 'w) prog" where
  "print_stat sys name st w =
     printf_u sys (line ''%s %d %d %d'') [VStr (Some name), VInt (scast (st_type st)), VInt (st_ino st), VInt (ucast (st_size st))] w"

text \<open>
  The 16 bytes of a directory entry are a little-endian inode number and a name. \<open>de\<close> is the variable
  that \<^verbatim>\<open>read\<close> fills.
\<close>

definition dirent_inum :: "chars \<Rightarrow> nat" where
  "dirent_inum de = of_char (de 0) + 256 * of_char (de 1)"

definition dirent_name :: "chars \<Rightarrow> string" where
  "dirent_name de = takeWhile (\<lambda>c. c \<noteq> NUL) (map (\<lambda>i. de (2 + i)) [0..<DIRSIZ])"

partial_function (option) ls_entries :: "'w os \<Rightarrow> int \<Rightarrow> string \<Rightarrow> chars \<Rightarrow> 'w \<Rightarrow> (unit, 'w) prog" where
  "ls_entries sys fd path de w =
     (let (n, bs, w) = u_read sys fd 16 w;
          de = store_chars 0 bs de in
      if n = 16 then
        if dirent_inum de = 0 then ls_entries sys fd path de w
        else
          let buf = path @ ''/'' @ dirent_name de;
              ((r, st), w) = stat_u sys buf w in
          bindU (if r < 0 then printf_u sys (line ''ls: cannot stat %s'') [VStr (Some buf)] w
                 else case st of None \<Rightarrow> Some (Inl Undefined, w) | Some st \<Rightarrow> print_stat sys (fmtname buf) st w)
            (\<lambda>_ w. ls_entries sys fd path de w)
      else retU () w)"

definition ls :: "'w os \<Rightarrow> string \<Rightarrow> chars \<Rightarrow> 'w \<Rightarrow> (unit, 'w) prog" where
  "ls sys path de w =
     (let (fd, w) = u_open sys path O_RDONLY w in
      if fd < 0 then fprintf sys 2 (line ''ls: cannot open %s'') [VStr (Some path)] w
      else let (r, st, w) = u_fstat sys fd w in
        if r < 0 then
          bindU (fprintf sys 2 (line ''ls: cannot stat %s'') [VStr (Some path)] w) (\<lambda>_ w. retU () (snd (u_close sys fd w)))
        else
          bindU (if st_type st = T_DEVICE \<or> st_type st = T_FILE then print_stat sys (fmtname path) st w
                 else if st_type st = T_DIR then
                   if 512 < length path + 1 + DIRSIZ + 1 then printf_u sys (line ''ls: path too long'') [] w
                   else ls_entries sys fd path de w
                 else retU () w) (\<lambda>_ w. retU () (snd (u_close sys fd w))))"

fun ls_args :: "'w os \<Rightarrow> chars \<Rightarrow> string list \<Rightarrow> 'w \<Rightarrow> (unit, 'w) prog" where
  "ls_args sys de [] w = exitU 0 w"
| "ls_args sys de (a # as) w = bindU (ls sys a de w) (\<lambda>_. ls_args sys de as)"

definition ls_main :: "'w os \<Rightarrow> string list \<Rightarrow> chars \<Rightarrow> 'w \<Rightarrow> (unit, 'w) prog" where
  "ls_main sys argv de w = ls_args sys de (if length argv < 2 then [''.''] else tl argv) w"

section \<open>One system call per argument\<close>

fun kill_args :: "'w os \<Rightarrow> string list \<Rightarrow> 'w \<Rightarrow> 'w" where
  "kill_args sys [] w = w"
| "kill_args sys (a # as) w = kill_args sys as (snd (u_kill sys (sint (atoi a)) w))"

definition kill_main :: "'w os \<Rightarrow> string list \<Rightarrow> 'w \<Rightarrow> (unit, 'w) prog" where
  "kill_main sys argv w =
     (if length argv < 2 then bindU (fprintf sys 2 (line ''usage: kill pid...'') [] w) (\<lambda>_. exitU 1)
      else exitU 0 (kill_args sys (tl argv) w))"

definition ln_main :: "'w os \<Rightarrow> string list \<Rightarrow> 'w \<Rightarrow> (unit, 'w) prog" where
  "ln_main sys argv w =
     (if length argv \<noteq> 3 then bindU (fprintf sys 2 (line ''Usage: ln old new'') [] w) (\<lambda>_. exitU 1)
      else let (r, w) = u_link sys (argv ! 1) (argv ! 2) w in
        bindU (if r < 0 then fprintf sys 2 (line ''link %s %s: failed'') [VStr (Some (argv ! 1)), VStr (Some (argv ! 2))] w
               else retU () w) (\<lambda>_. exitU 0))"

fun mkdir_args :: "'w os \<Rightarrow> string list \<Rightarrow> 'w \<Rightarrow> (unit, 'w) prog" where
  "mkdir_args sys [] w = retU () w"
| "mkdir_args sys (a # as) w =
     (let (r, w) = u_mkdir sys a w in
      if r < 0 then fprintf sys 2 (line ''mkdir: %s failed to create'') [VStr (Some a)] w else mkdir_args sys as w)"

definition mkdir_main :: "'w os \<Rightarrow> string list \<Rightarrow> 'w \<Rightarrow> (unit, 'w) prog" where
  "mkdir_main sys argv w =
     (if length argv < 2 then bindU (fprintf sys 2 (line ''Usage: mkdir files...'') [] w) (\<lambda>_. exitU 1)
      else bindU (mkdir_args sys (tl argv) w) (\<lambda>_. exitU 0))"

fun rm_args :: "'w os \<Rightarrow> string list \<Rightarrow> 'w \<Rightarrow> (unit, 'w) prog" where
  "rm_args sys [] w = retU () w"
| "rm_args sys (a # as) w =
     (let (r, w) = u_unlink sys a w in
      if r < 0 then fprintf sys 2 (line ''rm: %s failed to delete'') [VStr (Some a)] w else rm_args sys as w)"

definition rm_main :: "'w os \<Rightarrow> string list \<Rightarrow> 'w \<Rightarrow> (unit, 'w) prog" where
  "rm_main sys argv w =
     (if length argv < 2 then bindU (fprintf sys 2 (line ''Usage: rm files...'') [] w) (\<lambda>_. exitU 1)
      else bindU (rm_args sys (tl argv) w) (\<lambda>_. exitU 0))"

definition zombie_main :: "'w os \<Rightarrow> 'w \<Rightarrow> (unit, 'w) prog" where
  "zombie_main sys w =
     (let (pid, w) = u_fork sys w in
      exitU 0 (if pid > 0 then snd (u_sleep sys 5 w) else w))"

definition debugswitch_main :: "'w os \<Rightarrow> 'w \<Rightarrow> (unit, 'w) prog" where
  "debugswitch_main sys w = exitU 0 (snd (u_debugswitch sys w))"

definition mp2_main :: "'w os \<Rightarrow> 'w \<Rightarrow> (unit, 'w) prog" where
  "mp2_main sys w = exitU 0 (snd (u_printfslab sys w))"

section \<open>The first process\<close>

definition CONSOLE :: int where "CONSOLE = 1"

text \<open>The inner loop of \<^verbatim>\<open>init\<close>; it returns when the shell has exited.\<close>

partial_function (option) init_wait :: "'w os \<Rightarrow> int \<Rightarrow> 'w \<Rightarrow> (unit, 'w) prog" where
  "init_wait sys pid w =
     (let (wpid, w) = u_wait sys w in
      if wpid = pid then retU () w
      else if wpid < 0 then bindU (printf_u sys (line ''init: wait returned an error'') [] w) (\<lambda>_. exitU 1)
      else init_wait sys pid w)"

partial_function (option) init_loop :: "'w os \<Rightarrow> 'w \<Rightarrow> (unit, 'w) prog" where
  "init_loop sys w =
     bindU (printf_u sys (line ''init: starting sh'') [] w) (\<lambda>_ w.
     let (pid, w) = u_fork sys w in
     if pid < 0 then bindU (printf_u sys (line ''init: fork failed'') [] w) (\<lambda>_. exitU 1)
     else if pid = 0 then
       let (r, w) = u_exec sys ''sh'' [''sh''] w in
       case r of
         None \<Rightarrow> Some (Inl (Exec ''sh'' [''sh'']), w)
       | Some _ \<Rightarrow> bindU (printf_u sys (line ''init: exec sh failed'') [] w) (\<lambda>_. exitU 1)
     else bindU (init_wait sys pid w) (\<lambda>_ w. init_loop sys w))"

definition init_main :: "'w os \<Rightarrow> 'w \<Rightarrow> (unit, 'w) prog" where
  "init_main sys w =
     (let (fd, w) = u_open sys ''console'' O_RDWR w;
          w = (if fd < 0 then
                 let (_, w) = u_mknod sys ''console'' CONSOLE 0 w;
                     (_, w) = u_open sys ''console'' O_RDWR w in w
               else w);
          (_, w) = u_dup sys 0 w;
          (_, w) = u_dup sys 0 w in
      init_loop sys w)"

section \<open>Programs of the file-cache exercise\<close>

text \<open>
  \<^verbatim>\<open>read_until_match\<close> of \<^verbatim>\<open>ok.h\<close>: one character of the input, with the number of characters stored and the
  length of the matched beginning of \<^verbatim>\<open>match\<close>.
\<close>

definition match_char :: "string \<Rightarrow> nat \<Rightarrow> char \<Rightarrow> (nat \<times> nat \<times> chars) \<Rightarrow> (nat \<times> nat \<times> chars)" where
  "match_char pat buf_sz c = (\<lambda>(buf_idx, match_pos, buf).
     let (buf_idx, buf) = (if buf_idx < buf_sz - 1 then (buf_idx + 1, buf(buf_idx := c)) else (buf_idx, buf)) in
     if c = char_at pat match_pos then (buf_idx, match_pos + 1, buf)
     else (buf_idx, if c = char_at pat 0 then 1 else 0, buf))"

fun match_chars :: "string \<Rightarrow> nat \<Rightarrow> string \<Rightarrow> (nat \<times> nat \<times> chars) \<Rightarrow> (nat \<times> nat \<times> chars)" where
  "match_chars pat buf_sz [] t = t"
| "match_chars pat buf_sz (c # cs) t =
     (let t = match_char pat buf_sz c t in
      if 0 < fst (snd t) \<and> fst (snd t) = length pat then t else match_chars pat buf_sz cs t)"

partial_function (option) read_match :: "'w os \<Rightarrow> string \<Rightarrow> nat \<Rightarrow> (nat \<times> nat \<times> chars) \<Rightarrow> 'w \<Rightarrow> ((int \<times> nat \<times> nat \<times> chars) \<times> 'w) option" where
  "read_match sys pat buf_sz t w =
     (let (n, bs, w) = u_read sys 0 512 w in
      if n > 0 then
        let t = match_chars pat buf_sz bs t in
        if fst (snd t) = length pat then Some ((n, t), w) else read_match sys pat buf_sz t w
      else Some ((n, t), w))"

text \<open>\<open>None\<close> stands for a null \<^verbatim>\<open>match\<close>; \<^verbatim>\<open>buf\<close> is never null in a call.\<close>

definition read_until_match :: "'w os \<Rightarrow> string option \<Rightarrow> chars \<Rightarrow> nat \<Rightarrow> 'w \<Rightarrow> ((int \<times> chars) \<times> 'w) option" where
  "read_until_match sys pat buf buf_sz w =
     (case pat of
        None \<Rightarrow> Some ((-1, if buf_sz > 0 then buf(0 := NUL) else buf), w)
      | Some pat \<Rightarrow>
          if buf_sz = 0 then Some ((-1, buf), w)
          else if buf_sz \<le> length pat then Some ((-1, buf(0 := NUL)), w)
          else Option.bind (read_match sys pat buf_sz (0, 0, buf(buf_sz - 1 := NUL)) w) (\<lambda>((n, buf_idx, match_pos, buf), w).
            if n < 0 then Some ((-1, buf(0 := NUL)), w)
            else if match_pos < length pat then Some ((-1, buf(buf_idx := NUL)), w)
            else Some ((0, buf(buf_idx - length pat := NUL)), w)))"

definition oap_main :: "'w os \<Rightarrow> chars \<Rightarrow> 'w \<Rightarrow> (unit, 'w) prog" where
  "oap_main sys buf w =
     Option.bind (read_until_match sys (Some ''Ok'') buf 512 w) (\<lambda>(_, w).
     let (_, w) = u_printfslab sys w in
     bindU (printf_u sys ''Ok'' [] w) (\<lambda>_. exitU 0))"

definition oak_main :: "'w os \<Rightarrow> string list \<Rightarrow> chars \<Rightarrow> 'w \<Rightarrow> (unit, 'w) prog" where
  "oak_main sys argv buf w =
     bindU (if length argv = 2 \<and> strcmp (argv ! 1) ''end'' = 0 then retU () w
            else let (pid, w) = u_getpid sys w in printf_u sys ''%d'' [VInt (word_of_int pid)] w) (\<lambda>_ w.
     Option.bind (read_until_match sys (Some ''Ok'') buf 512 w) (\<lambda>((_, buf), w).
     Option.bind (string_at buf 0) (\<lambda>s.
     let (_, w) = u_kill sys (sint (atoi s)) w in
     bindU (printf_u sys ''Ok'' [] w) (\<lambda>_. exitU 0))))"

definition gen_and_hold :: "'w os \<Rightarrow> string \<Rightarrow> 'w \<Rightarrow> int \<times> 'w" where
  "gen_and_hold sys filename w = u_open sys filename (O_CREATE + O_RDWR) w"

text \<open>
  \<^verbatim>\<open>work\<close> of \<^verbatim>\<open>gah.c\<close>, with \<^verbatim>\<open>filename\<close> an array of 20 characters: a longer directory name, or a character
  behind the three digits that is not NUL, is undefined. \<open>init\<close> is the array before the call.
\<close>

definition gah_digit :: "nat \<Rightarrow> char" where
  "gah_digit d = char_of (of_char CHR ''0'' + d)"

fun work_files :: "'w os \<Rightarrow> nat \<Rightarrow> nat list \<Rightarrow> chars \<Rightarrow> 'w \<Rightarrow> (unit, 'w) prog" where
  "work_files sys len [] filename w = retU () w"
| "work_files sys len (i # is) filename w =
     (let filename = filename(len + 1 := gah_digit (i div 100 mod 10), len + 2 := gah_digit (i div 10 mod 10), len + 3 := gah_digit (i mod 10)) in
      Option.bind (string_at filename 0) (\<lambda>s.
      if 20 \<le> length s then Some (Inl Undefined, w)
      else work_files sys len is filename (snd (gen_and_hold sys s w))))"

definition work :: "'w os \<Rightarrow> string \<Rightarrow> int \<Rightarrow> chars \<Rightarrow> 'w \<Rightarrow> (unit, 'w) prog" where
  "work sys dir gen_cnt init w =
     (if 19 < length dir \<or> 0 < gen_cnt \<and> 16 < length dir then Some (Inl Undefined, w)
      else let filename = memset_u 0 (char_of (20 :: nat)) 1 init;
               filename = strcpy 0 dir filename;
               len = length dir;
               filename = filename(len := CHR ''/'') in
           work_files sys len [0..<nat gen_cnt] filename w)"

text \<open>After its work \<^verbatim>\<open>gah\<close> loops for ever.\<close>

definition gah_main :: "'w os \<Rightarrow> string list \<Rightarrow> chars \<Rightarrow> chars \<Rightarrow> 'w \<Rightarrow> (unit, 'w) prog" where
  "gah_main sys argv buf init w =
     (if length argv \<noteq> 3 then bindU (printf_u sys (line ''gen_and_hold <dir> <num> - generate and hold files'') [] w) (\<lambda>_. exitU 0)
      else let (pid, w) = u_getpid sys w in
        bindU (printf_u sys ''%d'' [VInt (word_of_int pid)] w) (\<lambda>_ w.
        Option.bind (read_until_match sys (Some ''Ok'') buf 512 w) (\<lambda>(_, w).
        bindU (work sys (argv ! 1) (sint (atoi (argv ! 2))) init w) (\<lambda>_ w.
        bindU (printf_u sys ''Ok'' [] w) (\<lambda>_ w. None)))))"

definition quoted :: "string \<Rightarrow> string" where
  "quoted s = CHR 0x27 # s @ [CHR 0x27]"

definition checkstr_main :: "'w os \<Rightarrow> string list \<Rightarrow> chars \<Rightarrow> 'w \<Rightarrow> (unit, 'w) prog" where
  "checkstr_main sys argv buf w =
     (if length argv \<noteq> 3 then bindU (printf_u sys (line ''Usage: %s <filename> <string>'') [VStr (Some (argv ! 0))] w) (\<lambda>_. exitU 0)
      else let (fd, w) = u_open sys (argv ! 1) O_RDONLY w in
        if fd < 0 then
          bindU (printf_u sys (line (''Error: cannot open file '' @ quoted ''%s'')) [VStr (Some (argv ! 1))] w) (\<lambda>_ w.
          bindU (printf_u sys (line ''[MP2] <FAILED> no file %s'') [VStr (Some (argv ! 1))] w) (\<lambda>_. exitU 1))
        else let (n, bs, w) = u_read sys fd 1023 w;
                 buf = store_chars 0 bs buf in
          if n < 0 then
            bindU (printf_u sys (line (''Error: cannot read file '' @ quoted ''%s'')) [VStr (Some (argv ! 1))] w) (\<lambda>_ w.
            let (_, w) = u_close sys fd w in
            bindU (printf_u sys (line ''[MP2] <FAILED> no read'') [] w) (\<lambda>_. exitU 1))
          else let buf = buf(nat n := NUL);
                   (_, w) = u_close sys fd w;
                   buf = (if 0 < n \<and> buf (nat n - 1) = newline then buf(nat n - 1 := NUL) else buf) in
            Option.bind (string_at buf 0) (\<lambda>s.
            if strcmp s (argv ! 2) = 0 then
              bindU (printf_u sys (line (''Contents match: '' @ quoted ''%s'' @ '' equals '' @ quoted ''%s'')) [VStr (Some s), VStr (Some (argv ! 2))] w) (\<lambda>_. exitU 0)
            else
              bindU (printf_u sys (line (''Contents differ: '' @ quoted ''%s'' @ '' != '' @ quoted ''%s'')) [VStr (Some s), VStr (Some (argv ! 2))] w) (\<lambda>_ w.
              bindU (printf_u sys (line ''[MP2] <FAILED> mismatch %s (%s)'') [VStr (Some s), VStr (Some (argv ! 1))] w) (\<lambda>_. exitU 1))))"

definition makedir :: "'w os \<Rightarrow> string \<Rightarrow> 'w \<Rightarrow> (unit, 'w) prog" where
  "makedir sys dirname w =
     (let (r, w) = u_mkdir sys dirname w in
      if r < 0 then bindU (fprintf sys 2 ''mkdir %s failed.'' [VStr (Some dirname)] w) (\<lambda>_. exitU 1) else retU () w)"

definition prepare_main :: "'w os \<Rightarrow> 'w \<Rightarrow> (unit, 'w) prog" where
  "prepare_main sys w =
     bindU (makedir sys ''os'' w) (\<lambda>_ w. bindU (makedir sys ''os2025'' w) (\<lambda>_ w. bindU (makedir sys ''meow'' w) (\<lambda>_ w.
     bindU (makedir sys ''test'' w) (\<lambda>_ w. bindU (makedir sys ''dir'' w) (\<lambda>_ w.
     bindU (printf_u sys ''Ok'' [] w) (\<lambda>_. exitU 0))))))"

section \<open>Counting\<close>

definition blank :: "char \<Rightarrow> bool" where
  "blank c \<longleftrightarrow> c \<in> {CHR '' '', CHR 0x0D, CHR 0x09, CHR 0x0A, CHR 0x0B}"

text \<open>The positions at which a word starts: a character that is no blank, at the beginning or after a blank.\<close>

definition word_starts :: "string \<Rightarrow> nat list" where
  "word_starts s = filter (\<lambda>i. \<not> blank (s ! i) \<and> (i = 0 \<or> blank (s ! (i - 1)))) [0..<length s]"

lemma word_starts_snoc:
  "length (word_starts (s @ [c])) = length (word_starts s) + (if \<not> blank c \<and> (s = [] \<or> blank (last s)) then 1 else 0)"
proof -
  have "filter (\<lambda>i. \<not> blank ((s @ [c]) ! i) \<and> (i = 0 \<or> blank ((s @ [c]) ! (i - 1)))) [0..<length s] = word_starts s"
    unfolding word_starts_def by (rule filter_cong) (auto simp: nth_append)
  moreover have "s \<noteq> [] \<Longrightarrow> (s @ [c]) ! (length s - 1) = last s" by (simp add: nth_append last_conv_nth)
  ultimately show ?thesis by (cases "s = []") (auto simp: word_starts_def [of "s @ [c]"] word_starts_def [of "[c]"])
qed

lemma wc_char_blank: "strchr [CHR '' '', CHR 0x0D, CHR 0x09, CHR 0x0A, CHR 0x0B] c \<noteq> None \<longleftrightarrow> blank c"
  by (auto simp: blank_def)

lemma wc_chars:
  "fold wc_char s (0, 0, 0, False) =
     (word_of_nat (length (filter (\<lambda>c. c = newline) s)), word_of_nat (length (word_starts s)), word_of_nat (length s),
      s \<noteq> [] \<and> \<not> blank (last s))"
proof (induction s rule: rev_induct)
  case Nil
  then show ?case by (simp add: word_starts_def)
next
  case (snoc c s)
  have b: "blank newline" by (simp add: blank_def)
  show ?case
    by (simp only: fold_append snoc.IH comp_def fold.simps id_apply wc_char.simps Let_def wc_char_blank word_starts_snoc)
      (auto simp: b algebra_simps)
qed

section \<open>The report of \<^verbatim>\<open>wc\<close>\<close>

lemma wc_report:
  assumes "writes sys 1 inp out"
  shows "\<exists>w'. printf_u sys (line ''%d %d %d %s'') [VInt l, VInt wd, VInt c, VStr (Some name)] w = Some (Inr (), w') \<and>
    out w' = out w @ decimal l @ '' '' @ decimal wd @ '' '' @ decimal c @ '' '' @ name @ [newline]"
  using puts_u_out [OF assms] by (simp add: printf_u_def vprintf_steps vprintf.simps(1) retU_def)

lemma wc_from_spec:
  assumes "reads sys fd inp out" "writes sys 1 inp out"
  shows "\<exists>w'. wc_from sys fd name t w = Some (Inr (), w') \<and>
    (\<exists>l wd c b. fold wc_char (inp w) t = (l, wd, c, b) \<and>
       out w' = out w @ decimal l @ '' '' @ decimal wd @ '' '' @ decimal c @ '' '' @ name @ [newline])"
proof (induction "length (inp w)" arbitrary: t w rule: less_induct)
  case less
  obtain k w1 where k: "u_read sys fd 512 w = (int k, take k (inp w), w1)" "k \<le> length (inp w)"
    "inp w \<noteq> [] \<longrightarrow> 0 < k" "inp w1 = drop k (inp w)" "out w1 = out w"
    using assms(1) unfolding reads_def by (metis zero_less_numeral)
  show ?case
  proof (cases "k = 0")
    case True
    obtain l wd c b where t: "t = (l, wd, c, b)" by (cases t)
    from True k have "inp w = []" by simp
    with True k wc_report [OF assms(2), of l wd c name w1] show ?thesis
      by (subst wc_from.simps) (simp add: t)
  next
    case False
    have e: "wc_from sys fd name t w = wc_from sys fd name (fold wc_char (take k (inp w)) t) w1"
      using False k by (subst wc_from.simps) simp
    have "length (inp w1) < length (inp w)" using False k by simp
    from less.hyps [OF this, of "fold wc_char (take k (inp w)) t"] show ?thesis
      unfolding e k(4,5) by (metis append_take_drop_id comp_apply fold_append)
  qed
qed

text \<open>
  C30. \<^verbatim>\<open>wc\<close> returns and prints, in decimal, the number of newlines, of words and of characters of its input
  and then the name, however \<^verbatim>\<open>read\<close> cuts the input into pieces, words across pieces included. A word
  is a maximal run of characters other than blanks; the counts are 32-bit numbers.
\<close>

theorem wc_counts:
  assumes "reads sys fd inp out" "writes sys 1 inp out"
  shows "\<exists>w'. wc sys fd name w = Some (Inr (), w') \<and>
    out w' = out w @ decimal (word_of_nat (length (filter (\<lambda>c. c = newline) (inp w)))) @ '' '' @
      decimal (word_of_nat (length (word_starts (inp w)))) @ '' '' @ decimal (word_of_nat (length (inp w))) @ '' '' @ name @ [newline]"
  using wc_from_spec [OF assms, of name "(0, 0, 0, False)" w] unfolding wc_def wc_chars by auto

theorem wc_counts_witness:
  "\<exists>w'. wc demo_os 0 ''f'' (''ab c'' @ [newline], []) = Some (Inr (), w') \<and> snd w' = ''1 2 5 f'' @ [newline]"
proof -
  have "decimal (word_of_nat (length (filter (\<lambda>c. c = newline) (''ab c'' @ [newline])))) = ''1''"
    "decimal (word_of_nat (length (word_starts (''ab c'' @ [newline])))) = ''2''"
    "decimal (word_of_nat (length (''ab c'' @ [newline]))) = ''5''"
    by code_simp+
  with wc_counts [OF demo_os_reads demo_os_writes, where fd = 0 and w = "(''ab c'' @ [newline], [])" and name = "''f''"]
  show ?thesis by simp
qed

section \<open>Reading numbers\<close>

lemma digit_char_value:
  assumes "d < 10"
  shows "isdigit (digit_chars_u ! d)" "(of_char (digit_chars_u ! d) :: uint32) = of_char CHR ''0'' + word_of_nat d"
proof -
  have "d \<in> set [0..<10]" using assms by simp
  moreover have "list_all (\<lambda>d. isdigit (digit_chars_u ! d) \<and> (of_char (digit_chars_u ! d) :: uint32) = of_char CHR ''0'' + word_of_nat d) [0..<10]"
    by code_simp
  ultimately show "isdigit (digit_chars_u ! d)" "(of_char (digit_chars_u ! d) :: uint32) = of_char CHR ''0'' + word_of_nat d"
    by (auto simp only: list_all_iff)
qed

lemma atoi_digits:
  assumes "\<forall>d \<in> set ds. d < 10"
  shows "atoi_from n (rev (map (\<lambda>d. digit_chars_u ! d) ds) @ s) = atoi_from (n * 10 ^ length ds + word_of_nat (digits_value 10 ds)) s"
  using assms
proof (induction ds arbitrary: s)
  case (Cons d ds)
  have "d < 10" using Cons.prems by simp
  note d = digit_char_value [OF this]
  show ?case using Cons.IH [of "digit_chars_u ! d # s"] Cons.prems d by (simp add: digits_value_def algebra_simps)
qed (simp add: digits_value_def)

text \<open>
  C31. \<^verbatim>\<open>atoi\<close> reads back what \<^verbatim>\<open>printf\<close> prints for a nonnegative int with the conversion d, also when other
  characters that are not digits follow, up to the largest int.
\<close>

theorem atoi_printf_roundtrip:
  assumes "0 \<le> sint x" "s = [] \<or> \<not> isdigit (hd s)"
  shows "atoi (decimal x @ s) = x"
proof -
  have "decimal x = rev (map (\<lambda>d. digit_chars_u ! d) (digits_rev 10 (unat x)))"
    using assms(1) by (simp add: decimal_def printint_u_chars_def Let_def)
  then have "atoi (decimal x @ s) = atoi_from (word_of_nat (digits_value 10 (digits_rev 10 (unat x)))) s"
    using digits_rev_less [of 10] by (simp add: atoi_def atoi_digits)
  also have "\<dots> = atoi_from x s" by (simp add: digits_rev_value)
  also have "\<dots> = x" using assms(2) by (cases s) auto
  finally show ?thesis .
qed

theorem atoi_printf_roundtrip_witness: "atoi (decimal 2147483647 @ ''Ok'') = 2147483647"
proof -
  have "0 \<le> sint (2147483647 :: uint32)" by simp
  then show ?thesis using atoi_printf_roundtrip [of 2147483647 "''Ok''"] by (simp add: isdigit_def)
qed

text \<open>
  \<^verbatim>\<open>read_until_match\<close> restarts after a mismatch without looking at the characters it has seen, so it can miss
  an occurrence of a string that overlaps itself.
\<close>

lemma read_until_match_misses: "fst (snd (match_chars ''aab'' 512 ''aaab'' (0, 0, a))) = 0"
  by (simp add: match_char_def char_at_def)

end
