(* ===== verification/Sh.thy ===== *)
theory Sh imports Ulib "HOL-Library.Sublist" begin

text \<open>
  The shell \<^verbatim>\<open>user/sh.c\<close>. A pointer into the command line is the rest of the line from there on, so the
  parser is a recursive descent over strings and a counted string is a pair of such pointers. Memory
  for the nodes of a command is assumed to be available. The recursion of the parser carries a
  depth, which is shown to be large enough for every line.
\<close>

section \<open>Commands\<close>

text \<open>The type of words is a parameter: counted strings in the parser, strings when a command is run.\<close>

datatype 'a cmd =
    EXEC "'a list"
  | REDIR "'a cmd" 'a nat int
  | PIPE "'a cmd" "'a cmd"
  | LIST "'a cmd" "'a cmd"
  | BACK "'a cmd"

type_synonym counted = "string \<times> string"

definition MAXARGS :: nat where "MAXARGS = 10"

text \<open>The array \<^verbatim>\<open>argv\<close> of an \<^verbatim>\<open>execcmd\<close> is filled while redirections may already be wrapped around it.\<close>

fun add_arg :: "'a \<Rightarrow> 'a cmd \<Rightarrow> 'a cmd" where
  "add_arg a (EXEC as) = EXEC (as @ [a])"
| "add_arg a (REDIR c f mode fd) = REDIR (add_arg a c) f mode fd"
| "add_arg a c = c"

section \<open>Tokens\<close>

definition whitespace :: string where
  "whitespace = [CHR '' '', CHR 0x09, CHR 0x0D, CHR 0x0A, CHR 0x0B]"

definition symbols :: string where
  "symbols = ''<|>&;()''"

definition in_chars :: "char \<Rightarrow> string \<Rightarrow> bool" where
  "in_chars c cs \<longleftrightarrow> strchr cs c \<noteq> None"

definition skip :: "string \<Rightarrow> string" where
  "skip s = dropWhile (\<lambda>c. in_chars c whitespace) s"

text \<open>The kind of the token, where it begins and ends, and where the next one begins.\<close>

definition gettoken :: "string \<Rightarrow> char \<times> string \<times> string \<times> string" where
  "gettoken s =
     (let s = skip s;
          q = s;
          c = char_at s 0;
          (ret, s) =
            (if c = NUL then (c, s)
             else if c \<in> {CHR ''|'', CHR ''('', CHR '')'', CHR '';'', CHR ''&'', CHR ''<''} then (c, drop 1 s)
             else if c = CHR ''>'' then
               let s = drop 1 s in if char_at s 0 = CHR ''>'' then (CHR ''+'', drop 1 s) else (c, s)
             else (CHR ''a'', dropWhile (\<lambda>c. \<not> in_chars c whitespace \<and> \<not> in_chars c symbols) s)) in
      (ret, q, s, skip s))"

definition peek_u :: "string \<Rightarrow> string \<Rightarrow> bool \<times> string" where
  "peek_u s toks = (let s = skip s in (char_at s 0 \<noteq> NUL \<and> in_chars (char_at s 0) toks, s))"

section \<open>The parser\<close>

text \<open>\<open>Inl\<close> is the argument of \<^verbatim>\<open>panic\<close>.\<close>

type_synonym 'a parse = "string + 'a \<times> string"

lemma in_chars_iff: "in_chars c cs \<longleftrightarrow> c \<in> set cs"
  by (auto simp: in_chars_def strchr_None)

lemma skip_length: "length (skip s) \<le> length s"
  by (simp add: skip_def length_dropWhile_le)

lemma skip_skip [simp]: "skip (skip s) = skip s"
  by (simp add: skip_def dropWhile_eq_self_iff)

lemma peek_u_True: "peek_u s toks = (True, s') \<longleftrightarrow> s' = skip s \<and> s' \<noteq> [] \<and> hd s' \<noteq> NUL \<and> hd s' \<in> set toks"
  by (cases "skip s") (auto simp: peek_u_def char_at_def in_chars_iff Let_def)

lemma peek_u_snd: "peek_u s toks = (b, s') \<Longrightarrow> s' = skip s"
  by (auto simp: peek_u_def Let_def)

lemma gettoken_le: "gettoken s = (r, q, eq, s') \<Longrightarrow> length s' \<le> length s"
proof -
  assume g: "gettoken s = (r, q, eq, s')"
  have "length eq \<le> length (skip s)"
    using g by (auto simp: gettoken_def Let_def length_dropWhile_le le_diff_conv split: if_splits)
  moreover have "s' = skip eq" using g by (auto simp: gettoken_def Let_def split: if_splits)
  ultimately show ?thesis using skip_length [of eq] skip_length [of s] by simp
qed

lemma gettoken_less:
  assumes "gettoken s = (r, q, eq, s')" "skip s \<noteq> []" "hd (skip s) \<noteq> NUL"
  shows "length s' < length s"
proof -
  obtain c t where c: "skip s = c # t" using assms(2) by (cases "skip s") auto
  have n: "\<not> in_chars c whitespace" using c by (simp add: skip_def dropWhile_eq_Cons_conv)
  have e: "length eq < length (skip s)"
    using assms(1,3) c n by (auto simp: gettoken_def Let_def char_at_def in_chars_iff symbols_def less_Suc_eq_le length_dropWhile_le split: if_splits)
  moreover have "s' = skip eq" using assms(1) by (auto simp: gettoken_def Let_def split: if_splits)
  ultimately show ?thesis using skip_length [of eq] skip_length [of s] by simp
qed

lemma token_after_peek:
  assumes "peek_u s toks = (True, s1)" "gettoken s1 = (r, q, eq, s2)"
  shows "length s2 < length s"
  using assms gettoken_less [OF assms(2)] skip_length [of s] by (auto simp: peek_u_True)

function parseredirs :: "counted cmd \<Rightarrow> string \<Rightarrow> counted cmd parse" where
  "parseredirs cmd s =
     (let (more, s) = peek_u s ''<>'' in
      if more then
        let (tok, _, _, s) = gettoken s;
            (ret, q, eq, s) = gettoken s in
        if ret \<noteq> CHR ''a'' then Inl ''missing file for redirection''
        else parseredirs
          (if tok = CHR ''<'' then REDIR cmd (q, eq) O_RDONLY 0
           else if tok = CHR ''>'' then REDIR cmd (q, eq) (O_WRONLY + O_CREATE + O_TRUNC) 1
           else REDIR cmd (q, eq) (O_WRONLY + O_CREATE) 1) s
      else Inr (cmd, s))"
  by pat_completeness auto

termination
proof (relation "measure (\<lambda>(_, s). length s)")
  fix cmd s p more s1 g1 tok x1 q1 y1 eq1 s2 g2 ret x2 q y2 eq s3
  assume "p = peek_u s ''<>''" "(more, s1) = p" more "g1 = gettoken s1" "(tok, x1) = g1" "(q1, y1) = x1" "(eq1, s2) = y1"
    "g2 = gettoken s2" "(ret, x2) = g2" "(q, y2) = x2" "(eq, s3) = y2"
  then have "length s2 < length s" "length s3 \<le> length s2"
    using token_after_peek [OF sym sym] gettoken_le [OF sym] by auto
  then show "((if tok = CHR ''<'' then REDIR cmd (q, eq) O_RDONLY 0
       else if tok = CHR ''>'' then REDIR cmd (q, eq) (O_WRONLY + O_CREATE + O_TRUNC) 1
       else REDIR cmd (q, eq) (O_WRONLY + O_CREATE) 1, s3), cmd, s) \<in> measure (\<lambda>(_, s). length s)" by simp
qed simp

declare parseredirs.simps [simp del]

fun parseargs :: "nat \<Rightarrow> counted cmd \<Rightarrow> string \<Rightarrow> counted cmd parse" where
  "parseargs 0 ret s = Inl ''too many args''"
| "parseargs (Suc k) ret s =
     (let (stop, s) = peek_u s ''|)&;'' in
      if stop then Inr (ret, s)
      else let (tok, q, eq, s) = gettoken s in
        if tok = NUL then Inr (ret, s)
        else if tok \<noteq> CHR ''a'' then Inl ''syntax''
        else if k = 0 then Inl ''too many args''
        else bindE (parseredirs (add_arg (q, eq) ret) s) (\<lambda>(ret, s). parseargs k ret s))"

function parseback :: "counted cmd \<Rightarrow> string \<Rightarrow> counted cmd \<times> string" where
  "parseback cmd s =
     (let (more, s) = peek_u s ''&'' in
      if more then let (_, _, _, s) = gettoken s in parseback (BACK cmd) s else (cmd, s))"
  by pat_completeness auto

termination
  by (relation "measure (\<lambda>(_, s). length s)") (auto dest: token_after_peek [OF sym sym])

declare parseback.simps [simp del]

fun parseline :: "nat \<Rightarrow> string \<Rightarrow> counted cmd parse option"
  and parsepipe :: "nat \<Rightarrow> string \<Rightarrow> counted cmd parse option"
  and parseexec :: "nat \<Rightarrow> string \<Rightarrow> counted cmd parse option"
  and parseblock :: "nat \<Rightarrow> string \<Rightarrow> counted cmd parse option" where
  "parseline 0 s = None"
| "parseline (Suc n) s =
     Option.bind (parsepipe n s) (\<lambda>r. case r of Inl e \<Rightarrow> Some (Inl e) | Inr (cmd, s) \<Rightarrow>
     let (cmd, s) = parseback cmd s;
         (more, s) = peek_u s '';'' in
     if more then
       let (_, _, _, s) = gettoken s in
       Option.bind (parseline n s) (\<lambda>r. Some (bindE r (\<lambda>(right, s). Inr (LIST cmd right, s))))
     else Some (Inr (cmd, s)))"
| "parsepipe 0 s = None"
| "parsepipe (Suc n) s =
     Option.bind (parseexec n s) (\<lambda>r. case r of Inl e \<Rightarrow> Some (Inl e) | Inr (cmd, s) \<Rightarrow>
     let (more, s) = peek_u s ''|'' in
     if more then
       let (_, _, _, s) = gettoken s in
       Option.bind (parsepipe n s) (\<lambda>r. Some (bindE r (\<lambda>(right, s). Inr (PIPE cmd right, s))))
     else Some (Inr (cmd, s)))"
| "parseexec 0 s = None"
| "parseexec (Suc n) s =
     (let (block, s) = peek_u s ''('' in
      if block then parseblock n s
      else Some (bindE (parseredirs (EXEC []) s) (\<lambda>(ret, s). parseargs MAXARGS ret s)))"
| "parseblock 0 s = None"
| "parseblock (Suc n) s =
     (let (open, s) = peek_u s ''('' in
      if \<not> open then Some (Inl ''parseblock'')
      else let (_, _, _, s) = gettoken s in
        Option.bind (parseline n s) (\<lambda>r. case r of Inl e \<Rightarrow> Some (Inl e) | Inr (cmd, s) \<Rightarrow>
        let (close, s) = peek_u s '')'' in
        if \<not> close then Some (Inl ''syntax - missing )'')
        else let (_, _, _, s) = gettoken s in Some (parseredirs cmd s)))"

declare parseline.simps [simp del] parsepipe.simps [simp del] parseexec.simps [simp del] parseblock.simps [simp del]

definition parse_depth :: "string \<Rightarrow> nat" where
  "parse_depth s = 4 * length s + 4"

definition panic_u :: "'w os \<Rightarrow> string \<Rightarrow> 'w \<Rightarrow> ('a, 'w) prog" where
  "panic_u sys s w = bindU (fprintf sys 2 (''%s'' @ [newline]) [VStr (Some s)] w) (\<lambda>_. exitU 1)"

text \<open>The characters of the line end up NUL-terminated in place; \<open>len\<close> is the length of the line.\<close>

fun nulterminate :: "nat \<Rightarrow> counted cmd \<Rightarrow> chars \<Rightarrow> chars" where
  "nulterminate len (EXEC as) buf = fold (\<lambda>(q, eq) buf. buf(len - length eq := NUL)) as buf"
| "nulterminate len (REDIR c f mode fd) buf = (nulterminate len c buf)(len - length (snd f) := NUL)"
| "nulterminate len (PIPE l r) buf = nulterminate len r (nulterminate len l buf)"
| "nulterminate len (LIST l r) buf = nulterminate len r (nulterminate len l buf)"
| "nulterminate len (BACK c) buf = nulterminate len c buf"

definition parsecmd :: "'w os \<Rightarrow> string \<Rightarrow> chars \<Rightarrow> 'w \<Rightarrow> (counted cmd \<times> chars, 'w) prog" where
  "parsecmd sys s buf w =
     (case parseline (parse_depth s) s of
        None \<Rightarrow> None
      | Some (Inl e) \<Rightarrow> panic_u sys e w
      | Some (Inr (cmd, rest)) \<Rightarrow>
          let (_, rest) = peek_u rest [] in
          if rest \<noteq> [] then
            bindU (fprintf sys 2 (''leftovers: %s'' @ [newline]) [VStr (Some rest)] w) (\<lambda>_. panic_u sys ''syntax'')
          else retU (cmd, nulterminate (length s) cmd buf) w)"

section \<open>Running a command\<close>

text \<open>The strings that the pointers of a command denote.\<close>

definition pointer_string :: "nat \<Rightarrow> chars \<Rightarrow> counted \<Rightarrow> string option" where
  "pointer_string len buf p = string_at buf (len - length (fst p))"

fun pointer_strings :: "nat \<Rightarrow> chars \<Rightarrow> counted list \<Rightarrow> string list option" where
  "pointer_strings len buf [] = Some []"
| "pointer_strings len buf (p # ps) =
     Option.bind (pointer_string len buf p) (\<lambda>s. Option.bind (pointer_strings len buf ps) (\<lambda>ss. Some (s # ss)))"

fun cmd_strings :: "nat \<Rightarrow> chars \<Rightarrow> counted cmd \<Rightarrow> string cmd option" where
  "cmd_strings len buf (EXEC as) = Option.bind (pointer_strings len buf as) (\<lambda>ss. Some (EXEC ss))"
| "cmd_strings len buf (REDIR c f mode fd) =
     Option.bind (cmd_strings len buf c) (\<lambda>c. Option.bind (pointer_string len buf f) (\<lambda>s. Some (REDIR c s mode fd)))"
| "cmd_strings len buf (PIPE l r) =
     Option.bind (cmd_strings len buf l) (\<lambda>l. Option.bind (cmd_strings len buf r) (\<lambda>r. Some (PIPE l r)))"
| "cmd_strings len buf (LIST l r) =
     Option.bind (cmd_strings len buf l) (\<lambda>l. Option.bind (cmd_strings len buf r) (\<lambda>r. Some (LIST l r)))"
| "cmd_strings len buf (BACK c) = Option.bind (cmd_strings len buf c) (\<lambda>c. Some (BACK c))"

definition fork1 :: "'w os \<Rightarrow> 'w \<Rightarrow> (int, 'w) prog" where
  "fork1 sys w = (let (pid, w) = u_fork sys w in if pid = -1 then panic_u sys ''fork'' w else retU pid w)"

fun runcmd :: "'w os \<Rightarrow> string cmd \<Rightarrow> 'w \<Rightarrow> (unit, 'w) prog" where
  "runcmd sys (EXEC argv) w =
     (case argv of
        [] \<Rightarrow> exitU 1 w
      | path # _ \<Rightarrow>
          let (r, w) = u_exec sys path argv w in
          case r of
            None \<Rightarrow> Some (Inl (Exec path argv), w)
          | Some _ \<Rightarrow> bindU (fprintf sys 2 (''exec %s failed'' @ [newline]) [VStr (Some path)] w) (\<lambda>_. exitU 0))"
| "runcmd sys (REDIR c f mode fd) w =
     (let (_, w) = u_close sys fd w;
          (r, w) = u_open sys f mode w in
      if r < 0 then bindU (fprintf sys 2 (''open %s failed'' @ [newline]) [VStr (Some f)] w) (\<lambda>_. exitU 1)
      else runcmd sys c w)"
| "runcmd sys (LIST l r) w =
     bindU (fork1 sys w) (\<lambda>pid w.
     if pid = 0 then runcmd sys l w
     else let (_, w) = u_wait sys w in runcmd sys r w)"
| "runcmd sys (PIPE l r) w =
     (let (ok, (p0, p1), w) = u_pipe sys w in
      if ok < 0 then panic_u sys ''pipe'' w
      else bindU (fork1 sys w) (\<lambda>pid w.
        if pid = 0 then
          let (_, w) = u_close sys 1 w;
              (_, w) = u_dup sys p1 w;
              (_, w) = u_close sys p0 w;
              (_, w) = u_close sys p1 w in
          runcmd sys l w
        else bindU (fork1 sys w) (\<lambda>pid w.
          if pid = 0 then
            let (_, w) = u_close sys 0 w;
                (_, w) = u_dup sys p0 w;
                (_, w) = u_close sys p0 w;
                (_, w) = u_close sys p1 w in
            runcmd sys r w
          else
            let (_, w) = u_close sys p0 w;
                (_, w) = u_close sys p1 w;
                (_, w) = u_wait sys w;
                (_, w) = u_wait sys w in
            exitU 0 w)))"
| "runcmd sys (BACK c) w =
     bindU (fork1 sys w) (\<lambda>pid w. if pid = 0 then runcmd sys c w else exitU 0 w)"

definition getcmd :: "'w os \<Rightarrow> nat \<Rightarrow> chars \<Rightarrow> 'w \<Rightarrow> int \<times> chars \<times> 'w" where
  "getcmd sys nbuf buf w =
     (let (_, w) = u_write sys 2 ''$ '' w;
          buf = memset_u 0 NUL nbuf buf;
          (buf, w) = gets sys nbuf buf w in
      if buf 0 = NUL then (-1, buf, w) else (0, buf, w))"

definition NBUF_SH :: nat where "NBUF_SH = 2000"

partial_function (option) sh_loop :: "'w os \<Rightarrow> chars \<Rightarrow> 'w \<Rightarrow> (unit, 'w) prog" where
  "sh_loop sys buf w =
     (let (r, buf, w) = getcmd sys NBUF_SH buf w in
      if r \<ge> 0 then
        if buf 0 = CHR ''c'' \<and> buf 1 = CHR ''d'' \<and> buf 2 = CHR '' '' then
          Option.bind (string_at buf 0) (\<lambda>s.
          let buf = buf(length s - 1 := NUL) in
          Option.bind (string_at buf 3) (\<lambda>dir.
          let (k, w) = u_chdir sys dir w in
          bindU (if k < 0 then fprintf sys 2 (''cannot cd %s'' @ [newline]) [VStr (Some dir)] w else retU () w) (\<lambda>_ w.
          sh_loop sys buf w)))
        else bindU (fork1 sys w) (\<lambda>pid w.
          if pid = 0 then
            Option.bind (string_at buf 0) (\<lambda>s.
            bindU (parsecmd sys s buf w) (\<lambda>(cmd, buf) w.
            Option.bind (cmd_strings (length s) buf cmd) (\<lambda>cmd. runcmd sys cmd w)))
          else let (_, w) = u_wait sys w in sh_loop sys buf w)
      else exitU 0 w)"

text \<open>The loop that makes sure that three file descriptors are open.\<close>

partial_function (option) open_console :: "'w os \<Rightarrow> 'w \<Rightarrow> (unit, 'w) prog" where
  "open_console sys w =
     (let (fd, w) = u_open sys ''console'' O_RDWR w in
      if fd \<ge> 0 then
        if fd \<ge> 3 then retU () (snd (u_close sys fd w)) else open_console sys w
      else retU () w)"

definition sh_main :: "'w os \<Rightarrow> chars \<Rightarrow> 'w \<Rightarrow> (unit, 'w) prog" where
  "sh_main sys buf w = bindU (open_console sys w) (\<lambda>_. sh_loop sys buf)"

section \<open>Words\<close>

definition wordchar :: "char \<Rightarrow> bool" where
  "wordchar c \<longleftrightarrow> \<not> in_chars c whitespace \<and> \<not> in_chars c symbols"

text \<open>A counted string of the line: word characters, followed by another character or the end.\<close>

definition counted_ok :: "string \<Rightarrow> counted \<Rightarrow> bool" where
  "counted_ok line p \<longleftrightarrow> suffix (fst p) line \<and>
     (\<exists>w. w \<noteq> [] \<and> fst p = w @ snd p \<and> (\<forall>c \<in> set w. wordchar c) \<and> (snd p = [] \<or> \<not> wordchar (hd (snd p))))"

lemma skip_suffix: "suffix (skip s) s"
  by (simp add: skip_def suffix_dropWhile)

lemma gettoken_suffix:
  assumes "gettoken s = (r, q, eq, s')" shows "suffix s' s"
proof -
  have "suffix eq (skip s)"
    using assms by (auto simp: gettoken_def Let_def suffix_dropWhile suffix_drop split: if_splits)
  moreover have "s' = skip eq" using assms by (auto simp: gettoken_def Let_def split: if_splits)
  ultimately show ?thesis using skip_suffix suffix_order.trans by metis
qed

lemma gettoken_word:
  assumes "gettoken s = (CHR ''a'', q, eq, s')" "suffix s line" shows "counted_ok line (q, eq)"
proof -
  have q: "q = skip s" "eq = dropWhile wordchar (skip s)"
    using assms(1) by (auto simp: gettoken_def Let_def wordchar_def [abs_def] split: if_splits)
  have "suffix q line" unfolding q using skip_suffix assms(2) suffix_order.trans by metis
  moreover have "q = takeWhile wordchar q @ eq" "\<forall>c \<in> set (takeWhile wordchar q). wordchar c" "eq = [] \<or> \<not> wordchar (hd eq)"
    unfolding q using hd_dropWhile [of wordchar "skip s"] by (auto dest: set_takeWhileD)
  moreover have "takeWhile wordchar q \<noteq> []"
  proof (cases "skip s")
    case Nil
    then show ?thesis using assms(1) by (simp add: gettoken_def char_at_def)
  next
    case (Cons c r)
    have "\<not> in_chars c whitespace" using Cons by (simp add: skip_def dropWhile_eq_Cons_conv)
    moreover have "\<not> in_chars c symbols"
      using assms(1) Cons by (auto simp: gettoken_def char_at_def in_chars_iff symbols_def Let_def split: if_splits)
    ultimately show ?thesis using Cons by (simp add: q wordchar_def)
  qed
  ultimately show ?thesis unfolding counted_ok_def fst_conv snd_conv by blast
qed

text \<open>What a parsing function promises of its result.\<close>

definition parsed_ok :: "string \<Rightarrow> string \<Rightarrow> counted cmd \<Rightarrow> string \<Rightarrow> bool" where
  "parsed_ok line s c s' \<longleftrightarrow> suffix s' s \<and> (\<forall>p \<in> set_cmd c. counted_ok line p)"

lemma set_add_arg: "set_cmd (add_arg a c) \<subseteq> insert a (set_cmd c)"
  by (induction a c rule: add_arg.induct) auto

lemma parseredirs_ok:
  "parseredirs cmd s = Inr (c, s') \<Longrightarrow> suffix s line \<Longrightarrow> \<forall>p \<in> set_cmd cmd. counted_ok line p \<Longrightarrow> parsed_ok line s c s'"
proof (induction cmd s rule: parseredirs.induct)
  case (1 cmd s)
  show ?case
  proof (cases "fst (peek_u s ''<>'')")
    case False
    then show ?thesis using 1(2,4) skip_suffix [of s] by (subst (asm) parseredirs.simps) (auto simp: peek_u_def Let_def parsed_ok_def)
  next
    case True
    then obtain s1 where p: "peek_u s ''<>'' = (True, s1)" by (cases "peek_u s ''<>''") auto
    obtain tok q1 eq1 s2 where g1: "gettoken s1 = (tok, q1, eq1, s2)" by (cases "gettoken s1") auto
    obtain ret q eq s3 where g2: "gettoken s2 = (ret, q, eq, s3)" by (cases "gettoken s2") auto
    have s1: "suffix s1 s" using p skip_suffix by (auto simp: peek_u_True)
    have s2: "suffix s2 s" using gettoken_suffix [OF g1] s1 suffix_order.trans by blast
    have s3: "suffix s3 s" using gettoken_suffix [OF g2] s2 suffix_order.trans by blast
    have ret: "ret = CHR ''a''" using 1(2) p g1 g2 by (subst (asm) parseredirs.simps) (auto split: if_splits)
    have ok: "counted_ok line (q, eq)" using gettoken_word [OF g2 [unfolded ret]] s2 1(3) suffix_order.trans by blast
    have "parsed_ok line s3 c s'"
      using 1(1) [OF p [symmetric] refl _ g1 [symmetric] refl refl refl g2 [symmetric] refl refl refl] 1(2-4) p g1 g2 ok s3
      by (subst (asm) parseredirs.simps) (auto split: if_splits intro: suffix_order.trans)
    then show ?thesis using s3 suffix_order.trans unfolding parsed_ok_def by blast
  qed
qed

lemma parseargs_ok:
  "parseargs k cmd s = Inr (c, s') \<Longrightarrow> suffix s line \<Longrightarrow> \<forall>p \<in> set_cmd cmd. counted_ok line p \<Longrightarrow> parsed_ok line s c s'"
proof (induction k arbitrary: cmd s)
  case (Suc k)
  obtain stop s1 where p: "peek_u s ''|)&;'' = (stop, s1)" by (cases "peek_u s ''|)&;''") auto
  obtain tok q eq s2 where g: "gettoken s1 = (tok, q, eq, s2)" by (cases "gettoken s1") auto
  have s1: "suffix s1 s" using peek_u_snd [OF p] skip_suffix by simp
  have s2: "suffix s2 s" using gettoken_suffix [OF g] s1 suffix_order.trans by blast
  show ?case
  proof (cases "stop \<or> tok = NUL")
    case True
    then show ?thesis using Suc.prems p g s1 s2 by (auto simp: parsed_ok_def split: if_splits)
  next
    case False
    then obtain c1 s3 where r: "parseredirs (add_arg (q, eq) cmd) s2 = Inr (c1, s3)" "parseargs k c1 s3 = Inr (c, s')" "tok = CHR ''a''"
      using Suc.prems(1) p g by (auto simp: res_iff split: if_splits)
    have l: "suffix s1 line" "suffix s2 line" using s1 s2 Suc.prems(2) suffix_order.trans by blast+
    have "\<forall>p \<in> set_cmd (add_arg (q, eq) cmd). counted_ok line p"
      using gettoken_word [OF g [unfolded r(3)] l(1)] Suc.prems(3) set_add_arg [of "(q, eq)" cmd] by blast
    from parseredirs_ok [OF r(1) l(2) this] have 1: "parsed_ok line s2 c1 s3" .
    then have "suffix s3 line" using l(2) suffix_order.trans unfolding parsed_ok_def by blast
    with Suc.IH [OF r(2)] 1 s2 show ?thesis unfolding parsed_ok_def using suffix_order.trans by blast
  qed
qed simp

lemma parseback_ok:
  "parseback cmd s = (c, s') \<Longrightarrow> \<forall>p \<in> set_cmd cmd. counted_ok line p \<Longrightarrow> parsed_ok line s c s'"
proof (induction cmd s rule: parseback.induct)
  case (1 cmd s)
  obtain more s1 where p: "peek_u s ''&'' = (more, s1)" by (cases "peek_u s ''&''") auto
  obtain tok q eq s2 where g: "gettoken s1 = (tok, q, eq, s2)" by (cases "gettoken s1") auto
  have s1: "suffix s1 s" using peek_u_snd [OF p] skip_suffix by simp
  have s2: "suffix s2 s" using gettoken_suffix [OF g] s1 suffix_order.trans by blast
  show ?case
  proof (cases more)
    case True
    then have "parsed_ok line s2 c s'"
      using 1(1) [OF p [symmetric] refl True g [symmetric] refl refl refl] 1(2,3) p g by (subst (asm) parseback.simps) auto
    then show ?thesis using s2 suffix_order.trans unfolding parsed_ok_def by blast
  next
    case False
    then show ?thesis using 1(2,3) p s1 by (subst (asm) parseback.simps) (auto simp: parsed_ok_def)
  qed
qed

lemma parsed_ok_trans: "parsed_ok line s c s1 \<Longrightarrow> suffix s s0 \<Longrightarrow> parsed_ok line s0 c s1"
  unfolding parsed_ok_def using suffix_order.trans by blast

lemma after_token:
  assumes "peek_u s toks = (b, s1)" "gettoken s1 = (r, q, eq, s2)" shows "suffix s1 s" "suffix s2 s"
  using peek_u_snd [OF assms(1)] skip_suffix [of s] gettoken_suffix [OF assms(2)] suffix_order.trans by auto

lemma parse_ok:
  "(parseline n s = Some (Inr (c, s')) \<longrightarrow> suffix s line \<longrightarrow> parsed_ok line s c s') \<and>
   (parsepipe n s = Some (Inr (c, s')) \<longrightarrow> suffix s line \<longrightarrow> parsed_ok line s c s') \<and>
   (parseexec n s = Some (Inr (c, s')) \<longrightarrow> suffix s line \<longrightarrow> parsed_ok line s c s') \<and>
   (parseblock n s = Some (Inr (c, s')) \<longrightarrow> suffix s line \<longrightarrow> parsed_ok line s c s')"
proof (induction n arbitrary: s c s')
  case 0
  then show ?case by (simp add: parseline.simps parsepipe.simps parseexec.simps parseblock.simps)
next
  case (Suc n)
  note line = Suc [THEN conjunct1, rule_format] and pipe = Suc [THEN conjunct2, THEN conjunct1, rule_format]
    and exec = Suc [THEN conjunct2, THEN conjunct2, THEN conjunct1, rule_format]
    and block = Suc [THEN conjunct2, THEN conjunct2, THEN conjunct2, rule_format]
  have "parsed_ok line s c s'" if a: "parseline (Suc n) s = Some (Inr (c, s'))" and l: "suffix s line"
  proof -
    obtain c1 s1 where 1: "parsepipe n s = Some (Inr (c1, s1))"
      using a by (cases "parsepipe n s"; cases "the (parsepipe n s)") (auto simp: parseline.simps)
    obtain c2 s2 where 2: "parseback c1 s1 = (c2, s2)" by (cases "parseback c1 s1")
    obtain m s3 where p: "peek_u s2 '';'' = (m, s3)" by (cases "peek_u s2 '';''")
    obtain r q eq s4 where g: "gettoken s3 = (r, q, eq, s4)" by (cases "gettoken s3")
    have o1: "parsed_ok line s c1 s1" using pipe [OF 1 l] .
    then have o2: "parsed_ok line s c2 s2" using parseback_ok [OF 2, of line] parsed_ok_trans unfolding parsed_ok_def by blast
    have s4: "suffix s3 s" "suffix s4 s" using after_token [OF p g] o2 suffix_order.trans unfolding parsed_ok_def by blast+
    show ?thesis
    proof (cases m)
      case True
      then obtain c3 where 3: "parseline n s4 = Some (Inr (c3, s'))" "c = LIST c2 c3"
        using a 1 2 p g by (auto simp: parseline.simps bind_eq_Some_conv res_iff)
      have "suffix s4 line" using s4 l suffix_order.trans by blast
      from line [OF 3(1) this] o2 s4 show ?thesis unfolding 3(2) parsed_ok_def using suffix_order.trans by auto
    next
      case False
      then show ?thesis using a 1 2 p g o2 s4 by (auto simp: parseline.simps parsed_ok_def)
    qed
  qed
  moreover have "parsed_ok line s c s'" if a: "parsepipe (Suc n) s = Some (Inr (c, s'))" and l: "suffix s line"
  proof -
    obtain c1 s1 where 1: "parseexec n s = Some (Inr (c1, s1))"
      using a by (cases "parseexec n s"; cases "the (parseexec n s)") (auto simp: parsepipe.simps)
    obtain m s3 where p: "peek_u s1 ''|'' = (m, s3)" by (cases "peek_u s1 ''|''")
    obtain r q eq s4 where g: "gettoken s3 = (r, q, eq, s4)" by (cases "gettoken s3")
    have o1: "parsed_ok line s c1 s1" using exec [OF 1 l] .
    have s4: "suffix s3 s" "suffix s4 s" using after_token [OF p g] o1 suffix_order.trans unfolding parsed_ok_def by blast+
    show ?thesis
    proof (cases m)
      case True
      then obtain c3 where 3: "parsepipe n s4 = Some (Inr (c3, s'))" "c = PIPE c1 c3"
        using a 1 p g by (auto simp: parsepipe.simps bind_eq_Some_conv res_iff)
      have "suffix s4 line" using s4 l suffix_order.trans by blast
      from pipe [OF 3(1) this] o1 s4 show ?thesis unfolding 3(2) parsed_ok_def using suffix_order.trans by auto
    next
      case False
      then show ?thesis using a 1 p g o1 s4 by (auto simp: parsepipe.simps parsed_ok_def)
    qed
  qed
  moreover have "parsed_ok line s c s'" if a: "parseexec (Suc n) s = Some (Inr (c, s'))" and l: "suffix s line"
  proof -
    obtain b s1 where p: "peek_u s ''('' = (b, s1)" by (cases "peek_u s ''(''")
    have s1: "suffix s1 s" "suffix s1 line" using peek_u_snd [OF p] skip_suffix [of s] l suffix_order.trans by auto
    show ?thesis
    proof (cases b)
      case True
      then have "parseblock n s1 = Some (Inr (c, s'))" using a p by (simp add: parseexec.simps)
      from parsed_ok_trans [OF block [OF this s1(2)] s1(1)] show ?thesis .
    next
      case False
      then obtain c1 s2 where r: "parseredirs (EXEC []) s1 = Inr (c1, s2)" "parseargs MAXARGS c1 s2 = Inr (c, s')"
        using a p by (auto simp: parseexec.simps res_iff)
      have o: "parsed_ok line s1 c1 s2" using parseredirs_ok [OF r(1) s1(2)] by simp
      then have "parsed_ok line s2 c s'" using parseargs_ok [OF r(2), of line] s1 suffix_order.trans unfolding parsed_ok_def by blast
      then show ?thesis using o s1 suffix_order.trans unfolding parsed_ok_def by blast
    qed
  qed
  moreover have "parsed_ok line s c s'" if a: "parseblock (Suc n) s = Some (Inr (c, s'))" and l: "suffix s line"
  proof -
    obtain s1 where p: "peek_u s ''('' = (True, s1)" using a by (cases "peek_u s ''(''") (auto simp: parseblock.simps split: if_splits)
    obtain r q eq s2 where g: "gettoken s1 = (r, q, eq, s2)" by (cases "gettoken s1")
    obtain c1 s3 where 1: "parseline n s2 = Some (Inr (c1, s3))"
      using a p g by (cases "parseline n s2"; cases "the (parseline n s2)") (auto simp: parseblock.simps)
    obtain s4 where p2: "peek_u s3 '')'' = (True, s4)"
      using a p g 1 by (cases "peek_u s3 '')''") (auto simp: parseblock.simps split: if_splits)
    obtain r' q' eq' s5 where g2: "gettoken s4 = (r', q', eq', s5)" by (cases "gettoken s4")
    have 2: "parseredirs c1 s5 = Inr (c, s')" using a p g 1 p2 g2 by (simp add: parseblock.simps)
    have s2: "suffix s2 s" "suffix s2 line" using after_token [OF p g] l suffix_order.trans by blast+
    have o: "parsed_ok line s2 c1 s3" using line [OF 1 s2(2)] .
    then have s5: "suffix s5 s" "suffix s5 line" using after_token [OF p2 g2] s2 suffix_order.trans unfolding parsed_ok_def by blast+
    show ?thesis using parsed_ok_trans [OF parseredirs_ok [OF 2 s5(2)] s5(1)] o unfolding parsed_ok_def by blast
  qed
  ultimately show ?case by blast
qed

section \<open>The parser returns\<close>

lemma parse_returns:
  "(4 * length s + 4 \<le> n \<longrightarrow> parseline n s \<noteq> None) \<and> (4 * length s + 3 \<le> n \<longrightarrow> parsepipe n s \<noteq> None) \<and>
   (4 * length s + 2 \<le> n \<longrightarrow> parseexec n s \<noteq> None) \<and> (4 * length s + 1 \<le> n \<longrightarrow> parseblock n s \<noteq> None)"
proof (induction n arbitrary: s)
  case (Suc n)
  note line = Suc [THEN conjunct1, rule_format] and pipe = Suc [THEN conjunct2, THEN conjunct1, rule_format]
    and exec = Suc [THEN conjunct2, THEN conjunct2, THEN conjunct1, rule_format]
    and block = Suc [THEN conjunct2, THEN conjunct2, THEN conjunct2, rule_format]
  have "parseline (Suc n) s \<noteq> None" if n: "4 * length s + 4 \<le> Suc n"
  proof -
    obtain r where r: "parsepipe n s = Some r" using pipe n by fastforce
    show ?thesis
    proof (cases r)
      case (Inr x)
      obtain c1 s1 where x: "x = (c1, s1)" by (cases x)
      obtain c2 s2 where 2: "parseback c1 s1 = (c2, s2)" by (cases "parseback c1 s1")
      obtain m s3 where p: "peek_u s2 '';'' = (m, s3)" by (cases "peek_u s2 '';''")
      obtain t q eq s4 where g: "gettoken s3 = (t, q, eq, s4)" by (cases "gettoken s3")
      have 1: "parsed_ok s s c1 s1" using parse_ok [of n s c1 s1 s] r Inr x by simp
      then have "length s2 \<le> length s"
        using parseback_ok [OF 2, of s] suffix_length_le [of s1 s] suffix_length_le [of s2 s1] unfolding parsed_ok_def by simp
      then have "m \<Longrightarrow> parseline n s4 \<noteq> None" using token_after_peek [of s2 "'';''" s3 t q eq s4] p g n by (intro line) auto
      then show ?thesis using r Inr x 2 p g by (auto simp: parseline.simps)
    qed (use r in \<open>simp add: parseline.simps\<close>)
  qed
  moreover have "parsepipe (Suc n) s \<noteq> None" if n: "4 * length s + 3 \<le> Suc n"
  proof -
    obtain r where r: "parseexec n s = Some r" using exec n by fastforce
    show ?thesis
    proof (cases r)
      case (Inr x)
      obtain c1 s1 where x: "x = (c1, s1)" by (cases x)
      obtain m s3 where p: "peek_u s1 ''|'' = (m, s3)" by (cases "peek_u s1 ''|''")
      obtain t q eq s4 where g: "gettoken s3 = (t, q, eq, s4)" by (cases "gettoken s3")
      have "length s1 \<le> length s" using parse_ok [of n s c1 s1 s] r Inr x suffix_length_le [of s1 s] unfolding parsed_ok_def by simp
      then have "m \<Longrightarrow> parsepipe n s4 \<noteq> None" using token_after_peek [of s1 "''|''" s3 t q eq s4] p g n by (intro pipe) auto
      then show ?thesis using r Inr x p g by (auto simp: parsepipe.simps)
    qed (use r in \<open>simp add: parsepipe.simps\<close>)
  qed
  moreover have "parseexec (Suc n) s \<noteq> None" if n: "4 * length s + 2 \<le> Suc n"
  proof -
    obtain b s1 where p: "peek_u s ''('' = (b, s1)" by (cases "peek_u s ''(''")
    have "parseblock n s1 \<noteq> None" using peek_u_snd [OF p] skip_length [of s] n by (intro block) simp
    then show ?thesis using p by (simp add: parseexec.simps)
  qed
  moreover have "parseblock (Suc n) s \<noteq> None" if n: "4 * length s + 1 \<le> Suc n"
  proof -
    obtain b s1 where p: "peek_u s ''('' = (b, s1)" by (cases "peek_u s ''(''")
    obtain t q eq s2 where g: "gettoken s1 = (t, q, eq, s2)" by (cases "gettoken s1")
    show ?thesis
    proof (cases b)
      case True
      then obtain r where r: "parseline n s2 = Some r" using line [of s2] token_after_peek [of s "''(''" s1 t q eq s2] p g n by fastforce
      show ?thesis
      proof (cases r)
        case (Inr x)
        obtain c1 s3 where x: "x = (c1, s3)" by (cases x)
        then show ?thesis using p g r Inr True by (auto simp: parseblock.simps case_prod_beta Let_def)
      qed (use p g r True in \<open>simp add: parseblock.simps\<close>)
    qed (use p in \<open>simp add: parseblock.simps\<close>)
  qed
  ultimately show ?case by blast
qed simp

section \<open>Words end with a NUL\<close>

definition counted_string :: "counted \<Rightarrow> string" where
  "counted_string p = take (length (fst p) - length (snd p)) (fst p)"

lemma nulterminate_apply:
  "nulterminate len c buf i = (if \<exists>p \<in> set_cmd c. i = len - length (snd p) then NUL else buf i)"
proof (induction c arbitrary: buf)
  case (EXEC as)
  have "fold (\<lambda>(q, eq) buf. buf(len - length eq := NUL)) as buf i = (if \<exists>p \<in> set as. i = len - length (snd p) then NUL else buf i)" for buf
    by (induction as arbitrary: buf) auto
  then show ?case by simp
qed auto

lemma pointer_string_nulterminate:
  assumes "NUL \<notin> set line" "\<forall>i<length line. buf i = line ! i" "\<forall>p \<in> set_cmd c. counted_ok line p" "p \<in> set_cmd c"
  shows "pointer_string (length line) (nulterminate (length line) c buf) p = Some (counted_string p)"
proof -
  obtain w x where w: "fst p = w @ snd p" "\<forall>c \<in> set w. wordchar c" "line = x @ fst p"
    using assms(3,4) by (auto simp: counted_ok_def suffix_def)
  have l: "length line - length (fst p) = length x" "length line = length x + length w + length (snd p)" using w by auto
  have at: "line ! (length x + i) = w ! i" if "i < length w" for i using w that by (simp add: nth_append)
  have keep: "length x + i \<noteq> length line - length (snd r)" if i: "i < length w" and r: "r \<in> set_cmd c" for i r
  proof
    assume e: "length x + i = length line - length (snd r)"
    obtain w' x' where w': "fst r = w' @ snd r" "snd r = [] \<or> \<not> wordchar (hd (snd r))" "line = x' @ fst r"
      using assms(3) r by (auto simp: counted_ok_def suffix_def)
    then have "length x + i = length (x' @ w')" using e by auto
    moreover have "snd r \<noteq> []" using e i l by auto
    ultimately have "line ! (length x + i) = hd (snd r)" using w' by (metis append.assoc hd_conv_nth nth_append_length_plus plus_nat.add_0 add.right_neutral)
    then show False using at [OF i] w(2) w'(2) \<open>snd r \<noteq> []\<close> i nth_mem [OF i] by auto
  qed
  have "string_at (nulterminate (length line) c buf) (length x) = Some w"
  proof (rule string_at_eq)
    show "\<forall>i<length w. nulterminate (length line) c buf (length x + i) = w ! i"
      using keep at assms(2) l by (auto simp: nulterminate_apply)
    show "nulterminate (length line) c buf (length x + length w) = NUL"
      using assms(4) l by (auto simp: nulterminate_apply)
    show "NUL \<notin> set w" using assms(1) w by auto
  qed
  then show ?thesis using w l by (simp add: pointer_string_def counted_string_def)
qed

lemma cmd_strings_eq:
  "\<forall>p \<in> set_cmd c. pointer_string len buf p = Some (f p) \<Longrightarrow> cmd_strings len buf c = Some (map_cmd f c)"
proof (induction c)
  case (EXEC as)
  then have "pointer_strings len buf as = Some (map f as)" by (induction as) auto
  then show ?case by simp
qed auto

text \<open>
  C32. Parsing a command line always returns: a command, or the end of the process with a message. The
  words of the command it returns consist of one or more characters other than blanks and operators, and after
  \<^verbatim>\<open>nulterminate\<close> has overwritten the character behind each of them the pointers of the command denote
  exactly these words; no word is damaged by the end of another.
\<close>

theorem sh_parse_words:
  assumes "NUL \<notin> set s" "\<forall>i<length s. buf i = s ! i"
  shows "\<exists>r w'. parsecmd sys s buf w = Some (r, w') \<and>
    (\<forall>cmd buf'. r = Inr (cmd, buf') \<longrightarrow>
       cmd_strings (length s) buf' cmd = Some (map_cmd counted_string cmd) \<and>
       (\<forall>x \<in> set_cmd (map_cmd counted_string cmd). x \<noteq> [] \<and> (\<forall>c \<in> set x. c \<notin> set whitespace \<union> set symbols)))"
proof -
  have panic: "\<exists>w'. panic_u sys e w = Some (Inl (Exit 1), w')" for e w
    by (simp add: panic_u_def fprintf_def vprintf_steps vprintf.simps(1) exitU_def)
  obtain r where r: "parseline (parse_depth s) s = Some r" using parse_returns [of s "parse_depth s"] by (auto simp: parse_depth_def)
  show ?thesis
  proof (cases r)
    case (Inl e)
    then show ?thesis using r panic [of e w] by (auto simp: parsecmd_def)
  next
    case (Inr x)
    obtain cmd rest where x: "x = (cmd, rest)" by (cases x)
    have ok: "\<forall>p \<in> set_cmd cmd. counted_ok s p"
      using parse_ok [of "parse_depth s" s cmd rest s] r Inr x by (simp add: parsed_ok_def)
    show ?thesis
    proof (cases "snd (peek_u rest []) = []")
      case True
      have "cmd_strings (length s) (nulterminate (length s) cmd buf) cmd = Some (map_cmd counted_string cmd)"
        by (rule cmd_strings_eq) (use pointer_string_nulterminate [OF assms ok] in blast)
      moreover have "counted_string p \<noteq> [] \<and> (\<forall>c \<in> set (counted_string p). c \<notin> set whitespace \<union> set symbols)" if "p \<in> set_cmd cmd" for p
        using ok that by (auto simp: counted_ok_def counted_string_def wordchar_def in_chars_iff)
      ultimately show ?thesis using r Inr x True by (auto simp: parsecmd_def retU_def cmd.set_map case_prod_beta)
    next
      case False
      obtain w1 where "fprintf sys 2 (''leftovers: %s'' @ [newline]) [VStr (Some (snd (peek_u rest [])))] w = Some (Inr (), w1)"
        by (simp add: fprintf_def vprintf_steps vprintf.simps(1) retU_def)
      moreover obtain w2 where "(panic_u sys ''syntax'' w1 :: (counted cmd \<times> chars, _) prog) = Some (Inl (Exit 1), w2)" using panic by blast
      ultimately show ?thesis using r Inr x False by (simp add: parsecmd_def case_prod_beta Let_def)
    qed
  qed
qed

theorem sh_parse_words_witness:
  "\<exists>r w'. parsecmd demo_os ''ls|wc'' (\<lambda>i. char_at ''ls|wc'' i) ([], []) = Some (r, w')"
  using sh_parse_words [of "''ls|wc''" "\<lambda>i. char_at ''ls|wc'' i" demo_os "([], [])"] by (auto simp: char_at_def)

end
