(* ===== verification/Umalloc.thy ===== *)
theory Umalloc imports Ulib begin

text \<open>
  The user-level allocator \<^verbatim>\<open>user/umalloc.c\<close>: blocks of 16-byte units, each with a header, the free ones on a
  circular list in order of address. The header at an address is a map entry; \<^verbatim>\<open>sbrk\<close> is a parameter.
\<close>

section \<open>Headers\<close>

record header =
  h_ptr :: uint64
  h_size :: uint32

definition sizeof_Header :: uint64 where "sizeof_Header = 16"

text \<open>\<open>base\<close> is the address of the static header, \<open>sbrk\<close> the system call on the rest of the world.\<close>

record 'w uheap =
  hdr :: "uint64 \<Rightarrow> header"
  freep :: uint64
  base :: uint64
  sbrk :: "int \<Rightarrow> 'w \<Rightarrow> uint64 \<times> 'w"
  world :: 'w

definition set_ptr :: "uint64 \<Rightarrow> uint64 \<Rightarrow> 'w uheap \<Rightarrow> 'w uheap" where
  "set_ptr a p u = u\<lparr>hdr := (hdr u)(a := (hdr u a)\<lparr>h_ptr := p\<rparr>)\<rparr>"

definition set_size :: "uint64 \<Rightarrow> uint32 \<Rightarrow> 'w uheap \<Rightarrow> 'w uheap" where
  "set_size a n u = u\<lparr>hdr := (hdr u)(a := (hdr u a)\<lparr>h_size := n\<rparr>)\<rparr>"

abbreviation nextp :: "uint64 \<Rightarrow> 'w uheap \<Rightarrow> uint64" where
  "nextp p u \<equiv> h_ptr (hdr u p)"

definition units :: "uint32 \<Rightarrow> uint64" where
  "units n = ucast n * sizeof_Header"

section \<open>free\<close>

text \<open>The search for the place of a block; on a list without such a place it does not end.\<close>

partial_function (option) free_place :: "'w uheap \<Rightarrow> uint64 \<Rightarrow> uint64 \<Rightarrow> uint64 option" where
  "free_place u bp p =
     (if bp > p \<and> bp < nextp p u then Some p
      else if p \<ge> nextp p u \<and> (bp > p \<or> bp < nextp p u) then Some p
      else free_place u bp (nextp p u))"

definition free_at :: "uint64 \<Rightarrow> uint64 \<Rightarrow> 'w uheap \<Rightarrow> 'w uheap" where
  "free_at bp p u =
     (let u = (if bp + units (h_size (hdr u bp)) = nextp p u
               then let u = set_size bp (h_size (hdr u bp) + h_size (hdr u (nextp p u))) u in
                    set_ptr bp (nextp (nextp p u) u) u
               else set_ptr bp (nextp p u) u);
          u = (if p + units (h_size (hdr u p)) = bp
               then let u = set_size p (h_size (hdr u p) + h_size (hdr u bp)) u in
                    set_ptr p (nextp bp u) u
               else set_ptr p bp u) in
      u\<lparr>freep := p\<rparr>)"

definition free_u :: "uint64 \<Rightarrow> 'w uheap \<Rightarrow> 'w uheap option" where
  "free_u ap u =
     (let bp = ap - sizeof_Header in
      Option.bind (free_place u bp (freep u)) (\<lambda>p. Some (free_at bp p u)))"

section \<open>malloc\<close>

text \<open>\<^verbatim>\<open>sbrk\<close> takes an int, so the number of bytes is cut to 32 bits.\<close>

definition morecore :: "uint32 \<Rightarrow> 'w uheap \<Rightarrow> (uint64 \<times> 'w uheap) option" where
  "morecore nu u =
     (let nu = (if nu < 4096 then 4096 else nu);
          (p, w) = sbrk u (sint (ucast (units nu) :: uint32)) (world u);
          u = u\<lparr>world := w\<rparr> in
      if p = - 1 then Some (0, u)
      else let hp = p;
               u = set_size hp nu u in
           Option.bind (free_u (hp + sizeof_Header) u) (\<lambda>u. Some (freep u, u)))"

definition nunits_of :: "uint32 \<Rightarrow> uint32" where
  "nunits_of nbytes = ucast ((ucast nbytes + sizeof_Header - 1) div sizeof_Header + 1)"

definition take_block :: "uint32 \<Rightarrow> uint64 \<Rightarrow> uint64 \<Rightarrow> 'w uheap \<Rightarrow> uint64 \<times> 'w uheap" where
  "take_block nunits prevp p u =
     (let (p, u) = (if h_size (hdr u p) = nunits then (p, set_ptr prevp (nextp p u) u)
                    else let u = set_size p (h_size (hdr u p) - nunits) u;
                             p = p + units (h_size (hdr u p)) in
                         (p, set_size p nunits u)) in
      (p + sizeof_Header, u\<lparr>freep := prevp\<rparr>))"

partial_function (option) malloc_from :: "uint32 \<Rightarrow> uint64 \<Rightarrow> uint64 \<Rightarrow> 'w uheap \<Rightarrow> (uint64 \<times> 'w uheap) option" where
  "malloc_from nunits prevp p u =
     (if h_size (hdr u p) \<ge> nunits then Some (take_block nunits prevp p u)
      else if p = freep u then
        Option.bind (morecore nunits u) (\<lambda>(p, u).
        if p = 0 then Some (0, u) else malloc_from nunits p (nextp p u) u)
      else malloc_from nunits p (nextp p u) u)"

definition malloc :: "uint32 \<Rightarrow> 'w uheap \<Rightarrow> (uint64 \<times> 'w uheap) option" where
  "malloc nbytes u =
     (let nunits = nunits_of nbytes;
          prevp = freep u;
          (prevp, u) = (if prevp = 0
                        then (base u, set_size (base u) 0 ((set_ptr (base u) (base u) u)\<lparr>freep := base u\<rparr>))
                        else (prevp, u)) in
      malloc_from nunits prevp (nextp prevp u) u)"

end
