(* ===== verification/Boot.thy ===== *)
theory Boot imports Console begin

text \<open>
  The machine-mode part of booting, \<^verbatim>\<open>kernel/entry.S\<close> and \<^verbatim>\<open>kernel/start.c\<close>, over the control registers
  of one hart with their accessors of \<^verbatim>\<open>kernel/riscv.h\<close>; and the slab allocator \<^verbatim>\<open>kernel/slab.c\<close>, whose
  functions are placeholders that print a message.
\<close>

unbundle bit_operations_syntax

section \<open>Control registers\<close>

datatype mode = Machine_mode | Supervisor_mode | User_mode

datatype reg =
    R_mhartid | R_mstatus | R_mepc | R_mip | R_mie | R_sepc | R_medeleg
  | R_mideleg | R_stvec | R_stimecmp | R_menvcfg | R_pmpcfg0 | R_pmpaddr0 | R_satp | R_scause
  | R_stval | R_mcounteren | R_time | R_sp | R_tp | R_ra

text \<open>
  A control register need not keep every value written to it: \<open>legal\<close> is the value the hart keeps. The
  supervisor's registers \<^verbatim>\<open>sstatus\<close>, \<^verbatim>\<open>sie\<close> and \<^verbatim>\<open>sip\<close> are restricted views of \<^verbatim>\<open>mstatus\<close>, \<^verbatim>\<open>mie\<close> and \<^verbatim>\<open>mip\<close>.
\<close>

record csrs =
  reg :: "reg \<Rightarrow> uint64"
  priv :: mode
  pc :: uint64
  legal :: "reg \<Rightarrow> uint64 \<Rightarrow> uint64"

definition w_reg :: "reg \<Rightarrow> uint64 \<Rightarrow> csrs \<Rightarrow> csrs" where
  "w_reg r x h = h\<lparr>reg := (reg h)(r := x)\<rparr>"

definition w_csr :: "reg \<Rightarrow> uint64 \<Rightarrow> csrs \<Rightarrow> csrs" where
  "w_csr r x h = w_reg r (legal h r x) h"

text \<open>A write through a view changes the bits of the view only.\<close>

definition w_view :: "reg \<Rightarrow> uint64 \<Rightarrow> uint64 \<Rightarrow> csrs \<Rightarrow> csrs" where
  "w_view r view x h = w_csr r ((reg h r AND NOT view) OR (x AND view)) h"

definition sstatus_view :: uint64 where "sstatus_view = 0x80000003000de762"
definition sip_view :: uint64 where "sip_view = push_bit 1 1"

definition MSTATUS_MPP_MASK :: uint64 where "MSTATUS_MPP_MASK = push_bit 11 3"
definition MSTATUS_MPP_M :: uint64 where "MSTATUS_MPP_M = push_bit 11 3"
definition MSTATUS_MPP_S :: uint64 where "MSTATUS_MPP_S = push_bit 11 1"
definition MSTATUS_MPP_U :: uint64 where "MSTATUS_MPP_U = push_bit 11 0"
definition MSTATUS_MIE :: uint64 where "MSTATUS_MIE = push_bit 3 1"
definition SSTATUS_SPP :: uint64 where "SSTATUS_SPP = push_bit 8 1"
definition SSTATUS_SPIE :: uint64 where "SSTATUS_SPIE = push_bit 5 1"
definition SSTATUS_UPIE :: uint64 where "SSTATUS_UPIE = push_bit 4 1"
definition SSTATUS_SIE :: uint64 where "SSTATUS_SIE = push_bit 1 1"
definition SSTATUS_UIE :: uint64 where "SSTATUS_UIE = push_bit 0 1"
definition SIE_SEIE :: uint64 where "SIE_SEIE = push_bit 9 1"
definition SIE_STIE :: uint64 where "SIE_STIE = push_bit 5 1"
definition SIE_SSIE :: uint64 where "SIE_SSIE = push_bit 1 1"
definition MIE_STIE :: uint64 where "MIE_STIE = push_bit 5 1"

definition r_mhartid :: "csrs \<Rightarrow> uint64" where "r_mhartid h = reg h R_mhartid"
definition r_mstatus :: "csrs \<Rightarrow> uint64" where "r_mstatus h = reg h R_mstatus"
definition w_mstatus :: "uint64 \<Rightarrow> csrs \<Rightarrow> csrs" where "w_mstatus x h = w_csr R_mstatus x h"
definition w_mepc :: "uint64 \<Rightarrow> csrs \<Rightarrow> csrs" where "w_mepc x h = w_csr R_mepc x h"
definition r_sstatus :: "csrs \<Rightarrow> uint64" where "r_sstatus h = reg h R_mstatus AND sstatus_view"
definition w_sstatus :: "uint64 \<Rightarrow> csrs \<Rightarrow> csrs" where "w_sstatus x h = w_view R_mstatus sstatus_view x h"
definition r_sip :: "csrs \<Rightarrow> uint64" where "r_sip h = reg h R_mip AND reg h R_mideleg"
definition w_sip :: "uint64 \<Rightarrow> csrs \<Rightarrow> csrs" where "w_sip x h = w_view R_mip (sip_view AND reg h R_mideleg) x h"
definition r_sie :: "csrs \<Rightarrow> uint64" where "r_sie h = reg h R_mie AND reg h R_mideleg"
definition w_sie :: "uint64 \<Rightarrow> csrs \<Rightarrow> csrs" where "w_sie x h = w_view R_mie (reg h R_mideleg) x h"
definition r_mie :: "csrs \<Rightarrow> uint64" where "r_mie h = reg h R_mie"
definition w_mie :: "uint64 \<Rightarrow> csrs \<Rightarrow> csrs" where "w_mie x h = w_csr R_mie x h"
definition w_sepc :: "uint64 \<Rightarrow> csrs \<Rightarrow> csrs" where "w_sepc x h = w_csr R_sepc x h"
definition r_sepc :: "csrs \<Rightarrow> uint64" where "r_sepc h = reg h R_sepc"
definition r_medeleg :: "csrs \<Rightarrow> uint64" where "r_medeleg h = reg h R_medeleg"
definition w_medeleg :: "uint64 \<Rightarrow> csrs \<Rightarrow> csrs" where "w_medeleg x h = w_csr R_medeleg x h"
definition r_mideleg :: "csrs \<Rightarrow> uint64" where "r_mideleg h = reg h R_mideleg"
definition w_mideleg :: "uint64 \<Rightarrow> csrs \<Rightarrow> csrs" where "w_mideleg x h = w_csr R_mideleg x h"
definition w_stvec :: "uint64 \<Rightarrow> csrs \<Rightarrow> csrs" where "w_stvec x h = w_csr R_stvec x h"
definition r_stvec :: "csrs \<Rightarrow> uint64" where "r_stvec h = reg h R_stvec"
definition r_stimecmp :: "csrs \<Rightarrow> uint64" where "r_stimecmp h = reg h R_stimecmp"
definition w_stimecmp :: "uint64 \<Rightarrow> csrs \<Rightarrow> csrs" where "w_stimecmp x h = w_csr R_stimecmp x h"
definition r_menvcfg :: "csrs \<Rightarrow> uint64" where "r_menvcfg h = reg h R_menvcfg"
definition w_menvcfg :: "uint64 \<Rightarrow> csrs \<Rightarrow> csrs" where "w_menvcfg x h = w_csr R_menvcfg x h"
definition w_pmpcfg0 :: "uint64 \<Rightarrow> csrs \<Rightarrow> csrs" where "w_pmpcfg0 x h = w_csr R_pmpcfg0 x h"
definition w_pmpaddr0 :: "uint64 \<Rightarrow> csrs \<Rightarrow> csrs" where "w_pmpaddr0 x h = w_csr R_pmpaddr0 x h"
definition w_satp :: "uint64 \<Rightarrow> csrs \<Rightarrow> csrs" where "w_satp x h = w_csr R_satp x h"
definition r_satp :: "csrs \<Rightarrow> uint64" where "r_satp h = reg h R_satp"
definition r_scause :: "csrs \<Rightarrow> uint64" where "r_scause h = reg h R_scause"
definition r_stval :: "csrs \<Rightarrow> uint64" where "r_stval h = reg h R_stval"
definition w_mcounteren :: "uint64 \<Rightarrow> csrs \<Rightarrow> csrs" where "w_mcounteren x h = w_csr R_mcounteren x h"
definition r_mcounteren :: "csrs \<Rightarrow> uint64" where "r_mcounteren h = reg h R_mcounteren"
definition r_time :: "csrs \<Rightarrow> uint64" where "r_time h = reg h R_time"
definition r_sp :: "csrs \<Rightarrow> uint64" where "r_sp h = reg h R_sp"
definition r_tp :: "csrs \<Rightarrow> uint64" where "r_tp h = reg h R_tp"
definition w_tp :: "uint64 \<Rightarrow> csrs \<Rightarrow> csrs" where "w_tp x h = w_reg R_tp x h"
definition r_ra :: "csrs \<Rightarrow> uint64" where "r_ra h = reg h R_ra"

lemmas csr_defs = r_mhartid_def r_mstatus_def w_mstatus_def w_mepc_def r_sie_def w_sie_def r_mie_def w_mie_def w_medeleg_def w_mideleg_def
  r_menvcfg_def w_menvcfg_def w_pmpcfg0_def w_pmpaddr0_def w_satp_def w_mcounteren_def r_mcounteren_def r_time_def w_stimecmp_def w_tp_def
  w_view_def

text \<open>
  The instruction \<^verbatim>\<open>mret\<close>: it continues at \<^verbatim>\<open>mepc\<close> in the mode that \<^verbatim>\<open>MPP\<close> names, gives \<^verbatim>\<open>MIE\<close> the value of \<^verbatim>\<open>MPIE\<close>, sets
  \<^verbatim>\<open>MPIE\<close>, makes user mode the previous mode and, unless it stays in machine mode, clears \<^verbatim>\<open>MPRV\<close>.
\<close>

definition MSTATUS_MPIE :: uint64 where "MSTATUS_MPIE = push_bit 7 1"
definition MSTATUS_MPRV :: uint64 where "MSTATUS_MPRV = push_bit 17 1"

definition mret_status :: "uint64 \<Rightarrow> uint64" where
  "mret_status x =
     (let y = (x AND NOT (MSTATUS_MIE OR MSTATUS_MPP_MASK)) OR (if x AND MSTATUS_MPIE = 0 then 0 else MSTATUS_MIE) OR MSTATUS_MPIE in
      if x AND MSTATUS_MPP_MASK = MSTATUS_MPP_M then y else y AND NOT MSTATUS_MPRV)"

definition mret :: "csrs \<Rightarrow> csrs" where
  "mret h = (w_reg R_mstatus (mret_status (reg h R_mstatus)) h)\<lparr>pc := reg h R_mepc,
     priv := (if reg h R_mstatus AND MSTATUS_MPP_MASK = MSTATUS_MPP_S then Supervisor_mode
              else if reg h R_mstatus AND MSTATUS_MPP_MASK = MSTATUS_MPP_U then User_mode else Machine_mode)\<rparr>"

section \<open>Entry and start\<close>

text \<open>\<open>stack0\<close> is the address of the array of stacks, \<open>start_addr\<close> and \<open>main_addr\<close> those of the functions.\<close>

definition boot_entry :: "uint64 \<Rightarrow> uint64 \<Rightarrow> csrs \<Rightarrow> csrs" where
  "boot_entry stack0 start_addr h =
     (let sp = stack0;
          a0 = 1024 * 4;
          a1 = r_mhartid h;
          a1 = a1 + 1;
          a0 = a0 * a1;
          sp = sp + a0 in
      (w_reg R_sp sp h)\<lparr>pc := start_addr\<rparr>)"

definition timerinit :: "csrs \<Rightarrow> csrs" where
  "timerinit h =
     (let h = w_mie (r_mie h OR MIE_STIE) h;
          h = w_menvcfg (r_menvcfg h OR push_bit 63 1) h;
          h = w_mcounteren (r_mcounteren h OR 2) h in
      w_stimecmp (r_time h + 1000000) h)"

definition start :: "uint64 \<Rightarrow> csrs \<Rightarrow> csrs" where
  "start main_addr h =
     (let x = r_mstatus h;
          x = x AND NOT MSTATUS_MPP_MASK;
          x = x OR MSTATUS_MPP_S;
          h = w_mstatus x h;
          h = w_mepc main_addr h;
          h = w_satp 0 h;
          h = w_medeleg 0xffff h;
          h = w_mideleg 0xffff h;
          h = w_sie (r_sie h OR SIE_SEIE OR SIE_STIE OR SIE_SSIE) h;
          h = w_pmpaddr0 0x3fffffffffffff h;
          h = w_pmpcfg0 0xf h;
          h = timerinit h;
          id = r_mhartid h;
          h = w_tp (scast (ucast id :: uint32)) h in
      mret h)"

lemma mpp_bits:
  "bit MSTATUS_MPP_MASK n \<longleftrightarrow> n = 11 \<or> n = 12" "bit MSTATUS_MPP_S n \<longleftrightarrow> n = 11" "bit MSTATUS_MIE n \<longleftrightarrow> n = 3"
  "bit MSTATUS_MPIE n \<longleftrightarrow> n = 7" "bit MSTATUS_MPRV n \<longleftrightarrow> n = 17" "MSTATUS_MPP_S \<noteq> MSTATUS_MPP_M"
proof -
  have 3: "(3 :: uint64) = mask 2" by (simp add: mask_eq_exp_minus_1)
  show "bit MSTATUS_MPP_MASK n \<longleftrightarrow> n = 11 \<or> n = 12" unfolding MSTATUS_MPP_MASK_def 3 bit_push_bit_iff bit_mask_iff by auto
  show "bit MSTATUS_MPP_S n \<longleftrightarrow> n = 11" "bit MSTATUS_MIE n \<longleftrightarrow> n = 3" "bit MSTATUS_MPIE n \<longleftrightarrow> n = 7" "bit MSTATUS_MPRV n \<longleftrightarrow> n = 17"
    unfolding MSTATUS_MPP_S_def MSTATUS_MIE_def MSTATUS_MPIE_def MSTATUS_MPRV_def bit_push_bit_iff bit_1_iff by auto
  show "MSTATUS_MPP_S \<noteq> MSTATUS_MPP_M" by (simp add: MSTATUS_MPP_S_def MSTATUS_MPP_M_def)
qed

text \<open>The status register after a return to supervisor mode.\<close>

lemma mret_status_bits:
  assumes "x AND MSTATUS_MPP_MASK = MSTATUS_MPP_S"
  shows "bit (mret_status x) n = (if n = 3 then bit x 7 else if n = 7 then True else if n \<in> {11, 12, 17} then False else bit x n)"
proof -
  have "x AND push_bit k 1 = 0 \<longleftrightarrow> \<not> bit x k" for k
    by (simp add: push_bit_eq_mult and_exp_eq_0_iff_not_bit)
  then have 7: "x AND MSTATUS_MPIE = 0 \<longleftrightarrow> \<not> bit x 7" unfolding MSTATUS_MPIE_def .
  show ?thesis
    using assms mpp_bits(6) bit_imp_le_length [of x n] unfolding mret_status_def 7
    by (auto simp: bit_and_iff bit_or_iff bit_not_iff mpp_bits(1-5) Let_def)
qed

text \<open>The registers before the \<^verbatim>\<open>mret\<close>.\<close>

lemma w_csr_fields [simp]:
  "reg (w_csr r x h) r' = (if r' = r then legal h r x else reg h r')" "legal (w_csr r x h) = legal h"
  "reg (w_reg r x h) r' = (if r' = r then x else reg h r')" "legal (w_reg r x h) = legal h"
  by (simp_all add: w_csr_def w_reg_def)

lemma timerinit_regs:
  "reg (timerinit h) r = (case r of R_mie \<Rightarrow> legal h R_mie (reg h R_mie OR MIE_STIE)
     | R_menvcfg \<Rightarrow> legal h R_menvcfg (reg h R_menvcfg OR push_bit 63 1)
     | R_mcounteren \<Rightarrow> legal h R_mcounteren (reg h R_mcounteren OR 2)
     | R_stimecmp \<Rightarrow> legal h R_stimecmp (reg h R_time + 1000000) | _ \<Rightarrow> reg h r)"
  "legal (timerinit h) = legal h"
  by (cases r; simp add: timerinit_def csr_defs Let_def) (simp add: timerinit_def csr_defs Let_def)

lemma start_fields:
  defines "x h \<equiv> legal h R_mstatus ((reg h R_mstatus AND NOT MSTATUS_MPP_MASK) OR MSTATUS_MPP_S)"
    and "e h \<equiv> (reg h R_mie AND NOT (legal h R_mideleg 0xffff)) OR
      ((reg h R_mie AND legal h R_mideleg 0xffff OR SIE_SEIE OR SIE_STIE OR SIE_SSIE) AND legal h R_mideleg 0xffff)"
  shows "pc (start main_addr h) = legal h R_mepc main_addr"
    "x h AND MSTATUS_MPP_MASK = MSTATUS_MPP_S \<Longrightarrow> priv (start main_addr h) = Supervisor_mode"
    "reg (start main_addr h) R_mstatus = mret_status (x h)"
    "reg (start main_addr h) R_satp = legal h R_satp 0"
    "reg (start main_addr h) R_medeleg = legal h R_medeleg 0xffff"
    "reg (start main_addr h) R_mideleg = legal h R_mideleg 0xffff"
    "reg (start main_addr h) R_pmpaddr0 = legal h R_pmpaddr0 0x3fffffffffffff"
    "reg (start main_addr h) R_pmpcfg0 = legal h R_pmpcfg0 0xf"
    "reg (start main_addr h) R_stimecmp = legal h R_stimecmp (reg h R_time + 1000000)"
    "reg (start main_addr h) R_tp = scast (ucast (reg h R_mhartid) :: uint32)"
    "reg (start main_addr h) R_sp = reg h R_sp"
    "reg (start main_addr h) R_mie = legal h R_mie (legal h R_mie (e h) OR MIE_STIE)"
proof -
  define h1 where "h1 = w_mideleg 0xffff (w_medeleg 0xffff (w_satp 0 (w_mepc main_addr (w_mstatus ((r_mstatus h AND NOT MSTATUS_MPP_MASK) OR MSTATUS_MPP_S) h))))"
  have 1: "legal h1 = legal h" "reg h1 r = (case r of R_mstatus \<Rightarrow> x h | R_mepc \<Rightarrow> legal h R_mepc main_addr | R_satp \<Rightarrow> legal h R_satp 0 | R_medeleg \<Rightarrow> legal h R_medeleg 0xffff
      | R_mideleg \<Rightarrow> legal h R_mideleg 0xffff | _ \<Rightarrow> reg h r)" for r
    by (simp add: h1_def csr_defs) (cases r; simp add: h1_def csr_defs x_def)
  define h2 where "h2 = w_pmpcfg0 0xf (w_pmpaddr0 0x3fffffffffffff (w_sie (r_sie h1 OR SIE_SEIE OR SIE_STIE OR SIE_SSIE) h1))"
  have 2: "legal h2 = legal h" "reg h2 r = (case r of R_pmpaddr0 \<Rightarrow> legal h R_pmpaddr0 0x3fffffffffffff | R_pmpcfg0 \<Rightarrow> legal h R_pmpcfg0 0xf
      | R_mie \<Rightarrow> legal h R_mie (e h) | _ \<Rightarrow> reg h1 r)" for r
    by (simp add: h2_def csr_defs 1) (cases r; simp add: h2_def csr_defs 1 e_def)
  define t where "t = w_tp (scast (ucast (r_mhartid (timerinit h2)) :: uint32)) (timerinit h2)"
  have s: "start main_addr h = mret t" by (simp add: start_def t_def h1_def h2_def Let_def)
  have t: "reg t r = (if r = R_tp then scast (ucast (reg h R_mhartid) :: uint32) else reg (timerinit h2) r)" for r
    by (simp add: t_def csr_defs timerinit_regs 1 2)
  note f = t timerinit_regs 1 2
  show "priv (start main_addr h) = Supervisor_mode" if "x h AND MSTATUS_MPP_MASK = MSTATUS_MPP_S" using that by (simp add: s mret_def f)
  show "pc (start main_addr h) = legal h R_mepc main_addr"
    "reg (start main_addr h) R_mstatus = mret_status (x h)"
    "reg (start main_addr h) R_satp = legal h R_satp 0"
    "reg (start main_addr h) R_medeleg = legal h R_medeleg 0xffff"
    "reg (start main_addr h) R_mideleg = legal h R_mideleg 0xffff"
    "reg (start main_addr h) R_pmpaddr0 = legal h R_pmpaddr0 0x3fffffffffffff"
    "reg (start main_addr h) R_pmpcfg0 = legal h R_pmpcfg0 0xf"
    "reg (start main_addr h) R_stimecmp = legal h R_stimecmp (reg h R_time + 1000000)"
    "reg (start main_addr h) R_tp = scast (ucast (reg h R_mhartid) :: uint32)"
    "reg (start main_addr h) R_sp = reg h R_sp"
    "reg (start main_addr h) R_mie = legal h R_mie (legal h R_mie (e h) OR MIE_STIE)"
    by (simp_all add: s mret_def f)
qed

text \<open>Facts about the few hart numbers, by enumeration.\<close>

lemma hart_numbers:
  assumes "unat a < NCPU" "unat b < NCPU"
  shows "scast (ucast a :: uint32) = (a :: uint64)" "a \<noteq> b \<Longrightarrow> 4096 * (a + 1) \<noteq> 4096 * (b + 1 :: uint64)"
proof -
  have "list_all (\<lambda>i. scast (ucast (word_of_nat i :: uint64) :: uint32) = (word_of_nat i :: uint64) \<and>
      list_all (\<lambda>j. i \<noteq> j \<longrightarrow> 4096 * (word_of_nat i + 1) \<noteq> (4096 * (word_of_nat j + 1) :: uint64)) [0..<NCPU]) [0..<NCPU]"
    by code_simp
  then have "\<forall>i \<in> set [0..<NCPU]. scast (ucast (word_of_nat i :: uint64) :: uint32) = (word_of_nat i :: uint64) \<and>
      (\<forall>j \<in> set [0..<NCPU]. i \<noteq> j \<longrightarrow> 4096 * (word_of_nat i + 1) \<noteq> (4096 * (word_of_nat j + 1) :: uint64))"
    by (simp only: list_all_iff)
  from bspec [OF this, of "unat a"] bspec [OF this [THEN bspec, of "unat a", THEN conjunct2], of "unat b"]
  show "scast (ucast a :: uint32) = a" "a \<noteq> b \<Longrightarrow> 4096 * (a + 1) \<noteq> 4096 * (b + 1)"
    using assms by (auto simp: word_unat_eq_iff [of a b])
qed

text \<open>
  What a hart with supervisor and user mode keeps of the values written to it: its own status with another
  previous mode, code addresses, address translation switched off, and the
  delegation and enable bits of the supervisor's software, timer and external interrupts.
\<close>

definition keeps_legal :: "csrs \<Rightarrow> bool" where
  "keeps_legal h \<longleftrightarrow>
     legal h R_mstatus ((reg h R_mstatus AND NOT MSTATUS_MPP_MASK) OR MSTATUS_MPP_S) = (reg h R_mstatus AND NOT MSTATUS_MPP_MASK) OR MSTATUS_MPP_S \<and>
     (\<forall>x. x AND 3 = 0 \<and> x < MAXVA \<longrightarrow> legal h R_mepc x = x) \<and> legal h R_satp 0 = 0 \<and>
     (\<forall>n \<in> {1, 5, 9}. \<forall>x. bit (legal h R_mideleg x) n = bit x n \<and> bit (legal h R_mie x) n = bit x n)"

text \<open>
  C33. From reset to \<^verbatim>\<open>main\<close>: on a hart that keeps the documented legal values, the boot code reaches \<^verbatim>\<open>main\<close>
  in supervisor mode with paging off. Every exception and interrupt the hart can delegate is
  delegated; the supervisor's software, timer and external interrupts are enabled
  in \<^verbatim>\<open>mie\<close>; physical memory protection has the one entry that \<^verbatim>\<open>start\<close> writes; the first timer interrupt is due
  1000000 ticks after the time read. The hart's number is in \<^verbatim>\<open>tp\<close>. Machine interrupts get the
  enable bit saved at reset, and the status bits that \<^verbatim>\<open>mret\<close> does not define are as they were at reset. The
  stack pointer is at the end of the hart's own slot of the array of stacks, \<^verbatim>\<open>stack0 + (hartid + 1) * 4096\<close>, so that
  the stacks of different harts are apart.
\<close>

theorem boot_reaches_main:
  assumes "unat (reg h R_mhartid) < NCPU" and "keeps_legal h" and "main_addr AND 3 = 0" "main_addr < MAXVA"
  shows "let t = start main_addr (boot_entry stack0 start_addr h) in
    pc t = main_addr \<and> priv t = Supervisor_mode \<and> reg t R_satp = 0 \<and>
    reg t R_medeleg = legal h R_medeleg 0xffff \<and> reg t R_mideleg = legal h R_mideleg 0xffff \<and>
    (\<forall>n \<in> {1, 5, 9}. bit (reg t R_mideleg) n \<and> bit (reg t R_mie) n) \<and>
    reg t R_pmpaddr0 = legal h R_pmpaddr0 0x3fffffffffffff \<and> reg t R_pmpcfg0 = legal h R_pmpcfg0 0xf \<and>
    reg t R_stimecmp = legal h R_stimecmp (reg h R_time + 1000000) \<and>
    reg t R_tp = reg h R_mhartid \<and> reg t R_sp = stack0 + 4096 * (reg h R_mhartid + 1) \<and>
    (\<forall>n. bit (reg t R_mstatus) n = (if n = 3 then bit (reg h R_mstatus) 7 else if n = 7 then True
       else if n \<in> {11, 12, 17} then False else bit (reg h R_mstatus) n)) \<and>
    (\<forall>h'. unat (reg h' R_mhartid) < NCPU \<and> reg h' R_mhartid \<noteq> reg h R_mhartid \<longrightarrow>
       reg (start main_addr (boot_entry stack0 start_addr h')) R_sp \<noteq> reg t R_sp)"
proof -
  let ?t = "\<lambda>h. start main_addr (boot_entry stack0 start_addr h)"
  let ?m = "(reg h R_mstatus AND NOT MSTATUS_MPP_MASK) OR MSTATUS_MPP_S"
  have e: "reg (boot_entry stack0 start_addr h) r = (if r = R_sp then stack0 + 4096 * (reg h R_mhartid + 1) else reg h r)"
    "legal (boot_entry stack0 start_addr h) = legal h" for h r
    by (simp_all add: boot_entry_def csr_defs Let_def)
  have sp: "reg (?t h) R_sp = stack0 + 4096 * (reg h R_mhartid + 1)" for h by (simp add: start_fields e)
  have l: "legal h R_mstatus ?m = ?m" "legal h R_mepc main_addr = main_addr" "legal h R_satp 0 = 0"
    and i: "\<And>n x. n \<in> {1, 5, 9} \<Longrightarrow> bit (legal h R_mideleg x) n = bit x n \<and> bit (legal h R_mie x) n = bit x n"
    using assms(2-4) unfolding keeps_legal_def by blast+
  have m: "?m AND MSTATUS_MPP_MASK = MSTATUS_MPP_S"
    by (rule bit_word_eqI) (auto simp: bit_and_iff bit_or_iff bit_not_iff mpp_bits)
  have b: "bit ?m n = bit (reg h R_mstatus) n" if "n \<notin> {11, 12}" for n
    using that bit_imp_le_length [of "reg h R_mstatus" n] by (auto simp: bit_and_iff bit_or_iff bit_not_iff mpp_bits)
  have tp: "scast (ucast (reg h R_mhartid) :: uint32) = reg h R_mhartid" using hart_numbers(1) [OF assms(1) assms(1)] .
  have ne: "stack0 + 4096 * (a + 1) \<noteq> stack0 + 4096 * (b + 1)" if "unat a < NCPU" "unat b < NCPU" "a \<noteq> b" for a b :: uint64
    using hart_numbers(2) [OF that(1,2)] that(3) by simp
  have f: "pc (?t h) = main_addr" "priv (?t h) = Supervisor_mode" "reg (?t h) R_satp = 0" "reg (?t h) R_medeleg = legal h R_medeleg 0xffff"
    "reg (?t h) R_mideleg = legal h R_mideleg 0xffff" "reg (?t h) R_tp = reg h R_mhartid" "reg (?t h) R_mstatus = mret_status ?m"
    "reg (?t h) R_pmpaddr0 = legal h R_pmpaddr0 0x3fffffffffffff" "reg (?t h) R_pmpcfg0 = legal h R_pmpcfg0 0xf"
    "reg (?t h) R_stimecmp = legal h R_stimecmp (reg h R_time + 1000000)"
    using m by (simp_all add: start_fields e l tp)
  have d: "bit (legal h R_mideleg 0xffff) n" if "n \<in> {1, 5, 9}" for n using that i [of n "0xffff"] by auto
  have "bit (reg (?t h) R_mie) n" if n: "n \<in> {1, 5, 9}" for n
  proof -
    have "bit (SIE_SEIE OR SIE_STIE OR SIE_SSIE) n"
      using n by (auto simp: SIE_SEIE_def SIE_STIE_def SIE_SSIE_def bit_or_iff)
    then show ?thesis using i [OF n] d [OF n] by (auto simp: start_fields e bit_or_iff bit_and_iff)
  qed
  moreover have "bit (reg (?t h) R_mstatus) n = (if n = 3 then bit (reg h R_mstatus) 7 else if n = 7 then True
       else if n \<in> {11, 12, 17} then False else bit (reg h R_mstatus) n)" for n
    unfolding f(7) mret_status_bits [OF m] using b by simp
  ultimately show ?thesis using f(1-6,8-) d sp ne assms(1) unfolding Let_def by simp
qed

definition reset_hart :: csrs where
  "reset_hart = \<lparr>reg = (\<lambda>_. 0)(R_mhartid := 3, R_mstatus := 0xa00000080), priv = Machine_mode, pc = 0x80000000,
     legal = (\<lambda>r x. if r = R_medeleg then x AND 0xb3ff else x)\<rparr>"

theorem boot_reaches_main_witness:
  "priv (start 0x80001000 (boot_entry 0x80009000 0x80000100 reset_hart)) = Supervisor_mode \<and>
   reg (start 0x80001000 (boot_entry 0x80009000 0x80000100 reset_hart)) R_medeleg = 0xb3ff \<and>
   reg (start 0x80001000 (boot_entry 0x80009000 0x80000100 reset_hart)) R_sp = 0x8000d000"
proof -
  have "unat (reg reset_hart R_mhartid) < NCPU" "keeps_legal reset_hart" "(0x80001000 :: uint64) AND 3 = 0" "(0x80001000 :: uint64) < MAXVA"
    by (simp_all add: reset_hart_def NCPU_def keeps_legal_def MAXVA_def)
  from boot_reaches_main [OF this, of "0x80009000" "0x80000100"] show ?thesis by (simp add: reset_hart_def Let_def)
qed

section \<open>The slab allocator\<close>

text \<open>
  \<open>slab_obj_printer\<close> and the cache arguments are not used by the placeholders; a cache pointer is an
  address, 0 the null pointer.
\<close>

definition print_kmem_cache :: "uint64 \<Rightarrow> 'a kio_scheme \<Rightarrow> 'a kio_scheme res" where
  "print_kmem_cache cache s = printf (''[SLAB] TODO: print_kmem_cache is not yet implemented '' @ nl) [] s"

definition kmem_cache_create :: "string \<Rightarrow> uint32 \<Rightarrow> 'a kio_scheme \<Rightarrow> (uint64 \<times> 'a kio_scheme) res" where
  "kmem_cache_create name object_size s =
     bindE (printf (''[SLAB] TODO: kmem_cache_create is not yet implemented '' @ nl) [] s) (\<lambda>s. Inr (0, s))"

definition kmem_cache_destroy :: "uint64 \<Rightarrow> 'a kio_scheme \<Rightarrow> 'a kio_scheme res" where
  "kmem_cache_destroy cache s = printf (''[SLAB] TODO: kmem_cache_destroy is not yet implemented '' @ nl) [] s"

definition kmem_cache_alloc :: "uint64 \<Rightarrow> 'a kio_scheme \<Rightarrow> (uint64 \<times> 'a kio_scheme) res" where
  "kmem_cache_alloc cache s =
     bindE (printf (''[SLAB] TODO: kmem_cache_alloc is not yet implemented '' @ nl) [] s) (\<lambda>s. Inr (0, s))"

definition kmem_cache_free :: "uint64 \<Rightarrow> uint64 \<Rightarrow> 'a kio_scheme \<Rightarrow> 'a kio_scheme res" where
  "kmem_cache_free cache obj s = printf (''[SLAB] TODO: kmem_cache_free is not yet implemented '' @ nl) [] s"

end
