(* ===== verification/Mkfs.thy ===== *)
theory Mkfs imports Fs begin

text \<open>
  \<^verbatim>\<open>mkfs/mkfs.c\<close>, the program of the build host that makes the initial file system image. The image is
  a file of blocks, indexed by the byte offset that \<^verbatim>\<open>lseek\<close> goes to, with its length; structures in a block
  are read and written as the kernel does it. The functions \<^verbatim>\<open>xshort\<close> and \<^verbatim>\<open>xint\<close> are for a little-endian host. Exits by
  \<^verbatim>\<open>die\<close> and failed assertions are \<open>None\<close>. Which host files can be opened, and their contents, are parameters;
  writing to the image is assumed to succeed.
\<close>

unbundle bit_operations_syntax

section \<open>State and layout\<close>

definition NINODES :: nat where "NINODES = 200"

record mkfs =
  img :: "nat \<Rightarrow> block"
  img_len :: nat
  msb :: superblock
  freeinode :: uint32
  freeblock :: uint32

definition nbitmap :: nat where "nbitmap = FSSIZE div BPB + 1"
definition ninodeblocks :: nat where "ninodeblocks = NINODES div IPB + 1"
definition nlog :: nat where "nlog = LOGSIZE"
definition nmeta :: nat where "nmeta = 2 + nlog + ninodeblocks + nbitmap"
definition nblocks :: nat where "nblocks = FSSIZE - nmeta"

text \<open>Conversion to little-endian byte order, read back on a little-endian machine.\<close>

definition xshort :: "uint16 \<Rightarrow> uint16" where
  "xshort x = le_word (\<lambda>i. if i = 0 then ucast x else ucast (drop_bit 8 x)) 2"

definition xint :: "uint32 \<Rightarrow> uint32" where
  "xint x = le_word (\<lambda>i. ucast (drop_bit (8 * i) x)) 4"

section \<open>Sectors and inodes\<close>

definition sect_off :: "uint32 \<Rightarrow> nat" where
  "sect_off sec = unat (sec * word_of_nat BSIZE)"

definition wsect :: "uint32 \<Rightarrow> block \<Rightarrow> mkfs \<Rightarrow> mkfs" where
  "wsect sec buf m = m\<lparr>img := (img m)(sect_off sec := buf), img_len := max (img_len m) (sect_off sec + BSIZE)\<rparr>"

definition rsect :: "uint32 \<Rightarrow> mkfs \<Rightarrow> block option" where
  "rsect sec m = (if sect_off sec + BSIZE \<le> img_len m then Some (img m (sect_off sec)) else None)"

definition winode :: "uint32 \<Rightarrow> dinode \<Rightarrow> mkfs \<Rightarrow> mkfs option" where
  "winode inum ip m =
     (let bn = IBLOCK inum (msb m) in
      Option.bind (rsect bn m) (\<lambda>buf.
      Some (wsect bn (put_dinode (dinode_at inum) ip buf) m)))"

definition rinode :: "uint32 \<Rightarrow> mkfs \<Rightarrow> dinode option" where
  "rinode inum m =
     (let bn = IBLOCK inum (msb m) in
      Option.bind (rsect bn m) (\<lambda>buf. Some (get_dinode buf (dinode_at inum))))"

definition ialloc_m :: "uint16 \<Rightarrow> mkfs \<Rightarrow> (uint32 \<times> mkfs) option" where
  "ialloc_m type m =
     (let inum = freeinode m;
          m = m\<lparr>freeinode := inum + 1\<rparr>;
          din = \<lparr>di_type = xshort type, di_major = 0, di_minor = 0, di_nlink = xshort 1, di_size = xint 0, di_addrs = (\<lambda>_. 0)\<rparr> in
      Option.bind (winode inum din m) (\<lambda>m. Some (inum, m)))"

text \<open>The bitmap that marks the first \<open>used\<close> blocks.\<close>

definition balloc_buf :: "nat \<Rightarrow> block" where
  "balloc_buf used = fold (\<lambda>i buf. buf(i div 8 := buf (i div 8) OR push_bit (i mod 8) 1)) [0..<used] (\<lambda>_. 0)"

definition balloc_m :: "int \<Rightarrow> mkfs \<Rightarrow> mkfs option" where
  "balloc_m used m =
     (if used < int BPB then Some (wsect (sb_bmapstart (msb m)) (balloc_buf (nat used)) m) else None)"

section \<open>Appending to a file\<close>

definition bcopy :: "uint8 list \<Rightarrow> nat \<Rightarrow> block \<Rightarrow> block" where
  "bcopy p k buf = (\<lambda>i. if k \<le> i \<and> i < k + length p then p ! (i - k) else buf i)"

text \<open>The block of the file in which offset \<^verbatim>\<open>off\<close> lies, allocated if necessary.\<close>

definition iappend_block :: "nat \<Rightarrow> dinode \<Rightarrow> mkfs \<Rightarrow> (uint32 \<times> dinode \<times> mkfs) option" where
  "iappend_block fbn din m =
     (if fbn < NDIRECT then
        let (din, m) = (if xint (di_addrs din fbn) = 0
                        then (din\<lparr>di_addrs := (di_addrs din)(fbn := xint (freeblock m))\<rparr>, m\<lparr>freeblock := freeblock m + 1\<rparr>)
                        else (din, m)) in
        Some (xint (di_addrs din fbn), din, m)
      else
        let (din, m) = (if xint (di_addrs din NDIRECT) = 0
                        then (din\<lparr>di_addrs := (di_addrs din)(NDIRECT := xint (freeblock m))\<rparr>, m\<lparr>freeblock := freeblock m + 1\<rparr>)
                        else (din, m)) in
        Option.bind (rsect (xint (di_addrs din NDIRECT)) m) (\<lambda>indirect.
        let k = 4 * (fbn - NDIRECT);
            (indirect, m) = (if get32 indirect k = 0
                             then let indirect = put32 k (xint (freeblock m)) indirect in
                                  (indirect, wsect (xint (di_addrs din NDIRECT)) indirect (m\<lparr>freeblock := freeblock m + 1\<rparr>))
                             else (indirect, m)) in
        Some (xint (get32 indirect k), din, m)))"

function iappend_from :: "uint8 list \<Rightarrow> nat \<Rightarrow> dinode \<Rightarrow> mkfs \<Rightarrow> (nat \<times> dinode \<times> mkfs) option" where
  "iappend_from p off din m =
     (if p = [] then Some (off, din, m)
      else
        let fbn = off div BSIZE in
        if \<not> fbn < MAXFILE then None
        else
          Option.bind (iappend_block fbn din m) (\<lambda>(x, din, m).
          let n1 = min (length p) ((fbn + 1) * BSIZE - off) in
          Option.bind (rsect x m) (\<lambda>buf.
          let m = wsect x (bcopy (take n1 p) (off - fbn * BSIZE) buf) m in
          iappend_from (drop n1 p) (off + n1) din m)))"
  by pat_completeness auto

termination
proof (relation "measure (\<lambda>(p, _). length p)")
  fix p :: "uint8 list" and off fbn n1 :: nat
  assume "p \<noteq> []" "fbn = off div BSIZE" "n1 = min (length p) ((fbn + 1) * BSIZE - off)"
  moreover have "off < (off div BSIZE + 1) * BSIZE" by (simp add: BSIZE_def dividend_less_div_times)
  ultimately have "0 < n1" by simp
  then show "((drop n1 p, off', din', m'), (p, off, din, m)) \<in> measure (\<lambda>(p, _). length p)" for off' din' m' din m
    using \<open>p \<noteq> []\<close> by simp
qed simp

declare iappend_from.simps [simp del]

definition iappend :: "uint32 \<Rightarrow> uint8 list \<Rightarrow> mkfs \<Rightarrow> mkfs option" where
  "iappend inum p m =
     Option.bind (rinode inum m) (\<lambda>din.
     let off = unat (xint (di_size din)) in
     Option.bind (iappend_from p off din m) (\<lambda>(off, din, m).
     winode inum (din\<lparr>di_size := xint (word_of_nat off)\<rparr>) m))"

section \<open>The program\<close>

definition dirent_bytes :: "uint16 \<Rightarrow> uint8 list \<Rightarrow> uint8 list" where
  "dirent_bytes inum name =
     map (le_byte (xshort inum)) [0..<2] @ map (\<lambda>i. if i < length name then name ! i else 0) [0..<DIRSIZ]"

function iappend_file :: "uint32 \<Rightarrow> uint8 list \<Rightarrow> mkfs \<Rightarrow> mkfs option" where
  "iappend_file inum contents m =
     (if contents = [] then Some m
      else Option.bind (iappend inum (take BSIZE contents) m) (iappend_file inum (drop BSIZE contents)))"
  by pat_completeness auto

termination
  by (relation "measure (\<lambda>(_, c, _). length c)") (auto simp: BSIZE_def)

declare iappend_file.simps [simp del]

text \<open>The name without \<^verbatim>\<open>user/\<close>, and without a leading underscore.\<close>

definition shortname :: "uint8 list \<Rightarrow> uint8 list" where
  "shortname name = (if take 5 name = map of_char ''user/'' then drop 5 name else name)"

definition skip_underscore :: "uint8 list \<Rightarrow> uint8 list" where
  "skip_underscore s = (if s \<noteq> [] \<and> hd s = 95 then tl s else s)"

text \<open>The files of the command line; \<open>host\<close> gives the contents of those that can be opened.\<close>

fun add_files :: "(uint8 list \<Rightarrow> uint8 list option) \<Rightarrow> uint32 \<Rightarrow> uint8 list list \<Rightarrow> mkfs \<Rightarrow> mkfs option" where
  "add_files host rootino [] m = Some m"
| "add_files host rootino (name # files) m =
     (let s = shortname name in
      if 47 \<in> set s then None
      else Option.bind (host name) (\<lambda>contents.
        let s = skip_underscore s in
        if DIRSIZ < length s then None
        else Option.bind (ialloc_m T_FILE m) (\<lambda>(inum, m).
          Option.bind (iappend rootino (dirent_bytes (ucast inum) s) m) (\<lambda>m.
          Option.bind (iappend_file inum contents m) (add_files host rootino files)))))"

definition layout :: superblock where
  "layout = \<lparr>sb_magic = FSMAGIC, sb_size = xint (word_of_nat FSSIZE), sb_nblocks = xint (word_of_nat nblocks),
     sb_ninodes = xint (word_of_nat NINODES), sb_nlog = xint (word_of_nat nlog), sb_logstart = xint 2,
     sb_inodestart = xint (word_of_nat (2 + nlog)), sb_bmapstart = xint (word_of_nat (2 + nlog + ninodeblocks))\<rparr>"

definition put_superblock :: "superblock \<Rightarrow> block \<Rightarrow> block" where
  "put_superblock x f =
     put32 28 (sb_bmapstart x) (put32 24 (sb_inodestart x) (put32 20 (sb_logstart x) (put32 16 (sb_nlog x)
       (put32 12 (sb_ninodes x) (put32 8 (sb_nblocks x) (put32 4 (sb_size x) (put32 0 (sb_magic x) f)))))))"

text \<open>The image of zeroed blocks with the superblock.\<close>

definition mkfs_empty :: mkfs where
  "mkfs_empty =
     (let m = \<lparr>img = (\<lambda>_ _. 0), img_len = 0, msb = layout, freeinode = 1, freeblock = word_of_nat nmeta\<rparr>;
          m = fold (\<lambda>i. wsect (word_of_nat i) (\<lambda>_. 0)) [0..<FSSIZE] m in
      wsect 1 (put_superblock (msb m) (\<lambda>_. 0)) m)"

definition fix_root_size :: "uint32 \<Rightarrow> mkfs \<Rightarrow> mkfs option" where
  "fix_root_size rootino m =
     Option.bind (rinode rootino m) (\<lambda>din.
     let off = xint (di_size din);
         off = (off div word_of_nat BSIZE + 1) * word_of_nat BSIZE in
     winode rootino (din\<lparr>di_size := xint off\<rparr>) m)"

fun mkfs_main :: "(uint8 list \<Rightarrow> bool) \<Rightarrow> (uint8 list \<Rightarrow> uint8 list option) \<Rightarrow> uint8 list list \<Rightarrow> mkfs option" where
  "mkfs_main creates host (self # fsimg # files) =
     (if \<not> creates fsimg then None
      else Option.bind (ialloc_m T_DIR mkfs_empty) (\<lambda>(rootino, m).
        if rootino \<noteq> ROOTINO then None
        else
          Option.bind (iappend rootino (dirent_bytes (ucast rootino) (map of_char ''.'')) m) (\<lambda>m.
          Option.bind (iappend rootino (dirent_bytes (ucast rootino) (map of_char ''..'')) m) (\<lambda>m.
          Option.bind (add_files host rootino files m) (\<lambda>m.
          Option.bind (fix_root_size rootino m) (\<lambda>m.
          balloc_m (sint (freeblock m)) m))))))"
| "mkfs_main creates host argv = None"

section \<open>Bytes, sectors and layout\<close>

lemma xint_id [simp]: "xint x = x"
  unfolding xint_def by (rule le_word_bytes) (simp_all add: le_byte_def)

lemma xshort_id [simp]: "xshort x = x"
  unfolding xshort_def by (rule le_word_bytes) (auto simp: le_byte_def less_Suc_eq numeral_2_eq_2)

lemmas layout_values = nbitmap_def ninodeblocks_def nlog_def nmeta_def nblocks_def FSSIZE_def BPB_def BSIZE_def NINODES_def IPB_def
  sizeof_dinode_def NDIRECT_def LOGSIZE_def MAXOPBLOCKS_def

lemma nmeta_eq: "nmeta = 46" by (simp add: layout_values)

lemma sect_off_eq: "unat x < 2 ^ 22 \<Longrightarrow> sect_off x = unat x * BSIZE"
  by (simp add: sect_off_def BSIZE_def unat_word_ariths)

lemma sect_off_inject: "unat x < 2 ^ 22 \<Longrightarrow> unat y < 2 ^ 22 \<Longrightarrow> sect_off x = sect_off y \<longleftrightarrow> x = y"
  by (simp add: sect_off_eq BSIZE_def word_unat_eq_iff)

text \<open>The contents of a sector, read at any state.\<close>

definition blk :: "mkfs \<Rightarrow> uint32 \<Rightarrow> block" where
  "blk m x = img m (sect_off x)"

lemma rsect_eq: "img_len m = FSSIZE * BSIZE \<Longrightarrow> unat x < FSSIZE \<Longrightarrow> rsect x m = Some (blk m x)"
  by (simp add: rsect_def blk_def sect_off_eq FSSIZE_def BSIZE_def)

lemma wsect_fields [simp]:
  "msb (wsect x f m) = msb m" "freeinode (wsect x f m) = freeinode m" "freeblock (wsect x f m) = freeblock m"
  by (simp_all add: wsect_def)

lemma img_len_wsect: "img_len m = FSSIZE * BSIZE \<Longrightarrow> unat x < FSSIZE \<Longrightarrow> img_len (wsect x f m) = FSSIZE * BSIZE"
  by (simp add: wsect_def sect_off_eq FSSIZE_def BSIZE_def)

lemma blk_wsect: "unat x < FSSIZE \<Longrightarrow> unat y < FSSIZE \<Longrightarrow> blk (wsect x f m) y = (if x = y then f else blk m y)"
  by (auto simp: blk_def wsect_def sect_off_inject FSSIZE_def)

lemma blk_more [simp]: "blk (m\<lparr>freeblock := b\<rparr>) x = blk m x" "blk (m\<lparr>freeinode := i\<rparr>) x = blk m x"
  by (simp_all add: blk_def)

section \<open>The blocks of the files\<close>

text \<open>
  A file has the slots of its direct blocks, of its indirect block (slot \<open>NDIRECT\<close>) and of the blocks listed there.
  \<open>slot_addr m d k\<close> is the block in slot \<open>k\<close> of inode \<open>d\<close>, and \<open>file_byte\<close> resolves an offset as \<^verbatim>\<open>bmap\<close> and \<^verbatim>\<open>readi\<close> of the kernel do.
\<close>

definition NSLOT :: nat where "NSLOT = MAXFILE + 1"

definition slot :: "nat \<Rightarrow> nat" where
  "slot n = (if n < NDIRECT then n else n + 1)"

definition slot_addr :: "mkfs \<Rightarrow> dinode \<Rightarrow> nat \<Rightarrow> uint32" where
  "slot_addr m d k =
     (if k \<le> NDIRECT then di_addrs d k
      else if di_addrs d NDIRECT = 0 then 0
      else get32 (blk m (di_addrs d NDIRECT)) (4 * (k - (NDIRECT + 1))))"

definition file_byte :: "mkfs \<Rightarrow> dinode \<Rightarrow> nat \<Rightarrow> uint8" where
  "file_byte m d off = blk m (slot_addr m d (slot (off div BSIZE))) (off mod BSIZE)"

text \<open>The slots that a file of a given size occupies.\<close>

definition needed :: "nat \<Rightarrow> nat \<Rightarrow> bool" where
  "needed k sz = ((if k \<le> NDIRECT then k else k - 1) * BSIZE < sz)"

definition blocks_for :: "nat \<Rightarrow> nat" where
  "blocks_for sz = (sz + BSIZE - 1) div BSIZE + (if NDIRECT * BSIZE < sz then 1 else 0)"

definition slots_ok :: "(uint32 \<Rightarrow> nat \<Rightarrow> uint32) \<Rightarrow> nat \<Rightarrow> bool" where
  "slots_ok F fb \<longleftrightarrow>
     (\<forall>i k. unat i < NINODES \<longrightarrow> k < NSLOT \<longrightarrow> F i k \<noteq> 0 \<longrightarrow> nmeta \<le> unat (F i k) \<and> unat (F i k) < fb) \<and>
     (\<forall>i k j l. unat i < NINODES \<longrightarrow> k < NSLOT \<longrightarrow> unat j < NINODES \<longrightarrow> l < NSLOT \<longrightarrow> F i k \<noteq> 0 \<longrightarrow> F i k = F j l \<longrightarrow> i = j \<and> k = l)"

definition blocks_ok :: "mkfs \<Rightarrow> bool" where
  "blocks_ok m \<longleftrightarrow>
     img_len m = FSSIZE * BSIZE \<and> nmeta \<le> unat (freeblock m) \<and> unat (freeblock m) \<le> FSSIZE \<and>
     (\<forall>x b. freeblock m \<le> x \<longrightarrow> unat x < FSSIZE \<longrightarrow> b < BSIZE \<longrightarrow> blk m x b = 0)"

definition files_ok :: "(uint32 \<Rightarrow> dinode) \<Rightarrow> (uint32 \<Rightarrow> nat) \<Rightarrow> mkfs \<Rightarrow> bool" where
  "files_ok D S m \<longleftrightarrow> blocks_ok m \<and> slots_ok (\<lambda>i. slot_addr m (D i)) (unat (freeblock m)) \<and>
     (\<forall>i k. unat i < NINODES \<longrightarrow> k < NSLOT \<longrightarrow> (slot_addr m (D i) k \<noteq> 0 \<longleftrightarrow> needed k (S i)))"

lemma slots_okD:
  assumes "slots_ok F fb" "unat i < NINODES" "k < NSLOT" "F i k \<noteq> 0"
  shows "nmeta \<le> unat (F i k)" "unat (F i k) < fb"
    and "unat j < NINODES \<Longrightarrow> l < NSLOT \<Longrightarrow> F i k = F j l \<Longrightarrow> i = j \<and> k = l"
  using assms unfolding slots_ok_def by blast+

lemma slots_ok_add:
  assumes ok: "slots_ok F (unat fb)" and fb: "nmeta \<le> unat fb" "unat fb < FSSIZE"
    and G: "\<And>j l. unat j < NINODES \<Longrightarrow> l < NSLOT \<Longrightarrow> G j l = (if j = i \<and> l = k then fb else F j l)"
  shows "slots_ok G (unat (fb + 1))"
proof -
  have fb1: "unat (fb + 1) = unat fb + 1" using fb by (simp add: FSSIZE_def unat_word_ariths)
  have new: "F j l \<noteq> fb" if "unat j < NINODES" "l < NSLOT" for j l
    using slots_okD (2) [OF ok that] fb nmeta_eq by force
  show ?thesis
    unfolding slots_ok_def
  proof (intro conjI allI impI)
    fix j l assume jl: "unat j < NINODES" "l < NSLOT" "G j l \<noteq> 0"
    show "nmeta \<le> unat (G j l)" "unat (G j l) < unat (fb + 1)"
      using slots_okD (1,2) [OF ok jl(1,2)] jl fb fb1 G by (fastforce split: if_splits)+
  next
    fix j l j' l' assume *: "unat j < NINODES" "l < NSLOT" "unat j' < NINODES" "l' < NSLOT" "G j l \<noteq> 0" "G j l = G j' l'"
    show "j = j'" "l = l'"
      using * new slots_okD (3) [OF ok *(1,2) _ *(3,4)] by (auto simp: G split: if_splits)
  qed
qed

lemma blocks_ok_alloc: "blocks_ok m \<Longrightarrow> unat (freeblock m) < FSSIZE \<Longrightarrow> blocks_ok (m\<lparr>freeblock := freeblock m + 1\<rparr>)"
  by (auto simp: blocks_ok_def FSSIZE_def unat_word_ariths word_le_nat_alt)

lemma blocks_ok_wsect:
  "blocks_ok m \<Longrightarrow> unat x < unat (freeblock m) \<Longrightarrow> blocks_ok (wsect x f m)"
  by (auto simp: blocks_ok_def img_len_wsect blk_wsect word_le_nat_alt)

lemma blocks_ok_zero: "blocks_ok m \<Longrightarrow> unat (freeblock m) < FSSIZE \<Longrightarrow> k + 4 \<le> BSIZE \<Longrightarrow> get32 (blk m (freeblock m)) k = 0"
  unfolding get32_def by (rule le_word_zero) (simp add: blocks_ok_def)

section \<open>Allocating and writing blocks\<close>

text \<open>What the allocation of slot \<open>k\<close> of inode \<open>i\<close> does.\<close>

definition alloc_step :: "(uint32 \<Rightarrow> dinode) \<Rightarrow> uint32 \<Rightarrow> dinode \<Rightarrow> nat \<Rightarrow> mkfs \<Rightarrow> mkfs \<Rightarrow> bool" where
  "alloc_step D i d k m m' \<longleftrightarrow>
     blocks_ok m' \<and> slots_ok (\<lambda>j. slot_addr m' ((D(i := d)) j)) (unat (freeblock m')) \<and>
     msb m' = msb m \<and> freeinode m' = freeinode m \<and> unat (freeblock m') = unat (freeblock m) + 1 \<and> d\<lparr>di_addrs := di_addrs (D i)\<rparr> = D i \<and>
     (\<forall>x. unat x < nmeta \<longrightarrow> blk m' x = blk m x) \<and>
     (\<forall>j l. unat j < NINODES \<longrightarrow> l < NSLOT \<longrightarrow>
       slot_addr m' ((D(i := d)) j) l = (if j = i \<and> l = k then freeblock m else slot_addr m (D j) l) \<and>
       (slot_addr m (D j) l \<noteq> 0 \<longrightarrow> l \<noteq> NDIRECT \<longrightarrow> blk m' (slot_addr m (D j) l) = blk m (slot_addr m (D j) l)))"

lemma freeblock_Suc: "unat (freeblock m) < FSSIZE \<Longrightarrow> unat (freeblock m + 1) = unat (freeblock m) + 1"
  by (simp add: FSSIZE_def unat_word_ariths)

lemma slot_addr_more [simp]: "slot_addr (m\<lparr>freeblock := b\<rparr>) d k = slot_addr m d k" "slot_addr (m\<lparr>freeinode := c\<rparr>) d k = slot_addr m d k"
  by (simp_all add: slot_addr_def)

lemma slot_bound: "l < NSLOT \<Longrightarrow> 4 * (l - (NDIRECT + 1)) + 4 \<le> BSIZE"
  by (simp add: NSLOT_def MAXFILE_def NINDIRECT_def NDIRECT_def BSIZE_def)

lemma alloc_direct:
  assumes ok: "blocks_ok m" "slots_ok (\<lambda>j. slot_addr m (D j)) (unat (freeblock m))" and fb: "unat (freeblock m) < FSSIZE"
    and k: "k \<le> NDIRECT" "di_addrs (D i) k = 0"
  shows "alloc_step D i ((D i)\<lparr>di_addrs := (di_addrs (D i))(k := freeblock m)\<rparr>) k m (m\<lparr>freeblock := freeblock m + 1\<rparr>)" (is "alloc_step D i ?d k m ?m")
proof -
  have slots: "slot_addr ?m ((D(i := ?d)) j) l = (if j = i \<and> l = k then freeblock m else slot_addr m (D j) l)" if "l < NSLOT" for j l
    using k blocks_ok_zero [OF ok(1) fb slot_bound [OF that]] by (auto simp: slot_addr_def)
  have "slots_ok (\<lambda>j. slot_addr ?m ((D(i := ?d)) j)) (unat (freeblock m + 1))"
    using ok fb slots by (intro slots_ok_add [OF ok(2)]) (auto simp: blocks_ok_def)
  then show ?thesis
    using slots blocks_ok_alloc [OF ok(1) fb] fb by (simp add: alloc_step_def freeblock_Suc)
qed

lemma get32_put32_other: "k \<noteq> l \<Longrightarrow> get32 (put32 (4 * k) v f) (4 * l) = get32 f (4 * l)"
  by (rule get32_cong) (auto simp: put32_def)

lemma alloc_indirect:
  assumes ok: "blocks_ok m" "slots_ok (\<lambda>j. slot_addr m (D j)) (unat (freeblock m))" and fb: "unat (freeblock m) < FSSIZE"
    and i: "unat i < NINODES" and k: "NDIRECT < k" "k < NSLOT" and y: "di_addrs (D i) NDIRECT = y" "y \<noteq> 0"
  shows "alloc_step D i (D i) k m (wsect y (put32 (4 * (k - (NDIRECT + 1))) (freeblock m) (blk m y)) (m\<lparr>freeblock := freeblock m + 1\<rparr>))"
    (is "alloc_step D i _ k m (wsect y ?f ?m)")
proof -
  have nd: "NDIRECT < NSLOT" using k by simp
  have yd: "slot_addr m (D i) NDIRECT = y" using y by (simp add: slot_addr_def)
  note yok = slots_okD [OF ok(2) i nd, unfolded yd, OF y(2)]
  have ylt: "unat y < FSSIZE" "unat y < unat (freeblock m + 1)" using yok(2) fb by (simp_all add: freeblock_Suc)
  have other: "blk (wsect y ?f ?m) (slot_addr m (D j) l) = blk m (slot_addr m (D j) l)"
    if "unat j < NINODES" "l < NSLOT" "slot_addr m (D j) l \<noteq> 0" "\<not> (j = i \<and> l = NDIRECT)" for j l
    using that yok(3) [of j l] slots_okD(2) [OF ok(2) that(1-3)] fb ylt by (auto simp: blk_wsect)
  have slots: "slot_addr (wsect y ?f ?m) (D j) l = (if j = i \<and> l = k then freeblock m else slot_addr m (D j) l)"
    if jl: "unat j < NINODES" "l < NSLOT" for j l
  proof (cases "j = i")
    case True
    then show ?thesis using y ylt k get32_put32_other [of "k - (NDIRECT + 1)" "l - (NDIRECT + 1)"]
      by (auto simp: slot_addr_def blk_wsect get32_put32)
  next
    case False
    have nd': "slot_addr m (D j) NDIRECT = di_addrs (D j) NDIRECT" by (simp add: slot_addr_def)
    show ?thesis using other [OF jl(1) nd] False unfolding nd' by (auto simp: slot_addr_def)
  qed
  have "slots_ok (\<lambda>j. slot_addr (wsect y ?f ?m) (D j)) (unat (freeblock m + 1))"
    using ok fb slots by (intro slots_ok_add [OF ok(2)]) (auto simp: blocks_ok_def)
  moreover have "blocks_ok (wsect y ?f ?m)"
    using blocks_ok_wsect [OF blocks_ok_alloc [OF ok(1) fb]] ylt by simp
  moreover have "blk (wsect y ?f ?m) x = blk m x" if "unat x < nmeta" for x
    using that yok(1) ylt by (auto simp: blk_wsect nmeta_eq FSSIZE_def)
  ultimately show ?thesis
    using slots other fb by (auto simp: alloc_step_def freeblock_Suc)
qed

lemma slots_after_write:
  assumes ok: "files_ok D S m" and i: "unat i < NINODES" "k < NSLOT" "k \<noteq> NDIRECT" and x: "slot_addr m (D i) k = x" "x \<noteq> 0"
    and j: "unat j < NINODES" "l < NSLOT"
  shows "slot_addr (wsect x f m) (D j) l = slot_addr m (D j) l"
    and "slot_addr m (D j) l \<noteq> 0 \<Longrightarrow> blk (wsect x f m) (slot_addr m (D j) l) = (if j = i \<and> l = k then f else blk m (slot_addr m (D j) l))"
proof -
  have s: "slots_ok (\<lambda>j. slot_addr m (D j)) (unat (freeblock m))" and fb: "unat (freeblock m) \<le> FSSIZE"
    using ok by (auto simp: files_ok_def blocks_ok_def)
  note xok = slots_okD [OF s i(1,2), unfolded x(1), OF x(2)]
  have b: "blk (wsect x f m) (slot_addr m (D j) l) = (if j = i \<and> l = k then f else blk m (slot_addr m (D j) l))"
    if "slot_addr m (D j) l \<noteq> 0" "l < NSLOT" for l
  proof -
    have "unat x < FSSIZE" "unat (slot_addr m (D j) l) < FSSIZE" using xok(2) slots_okD (2) [OF s j(1) that(2,1)] fb by simp_all
    moreover have "x = slot_addr m (D j) l \<longleftrightarrow> j = i \<and> l = k" using xok(3) [OF j(1) that(2)] x(1) by blast
    ultimately show ?thesis by (simp add: blk_wsect)
  qed
  then show "slot_addr m (D j) l \<noteq> 0 \<Longrightarrow> blk (wsect x f m) (slot_addr m (D j) l) = (if j = i \<and> l = k then f else blk m (slot_addr m (D j) l))"
    using j by blast
  have nd': "slot_addr m (D j) NDIRECT = di_addrs (D j) NDIRECT" by (simp add: slot_addr_def)
  have "di_addrs (D j) NDIRECT \<noteq> 0 \<Longrightarrow> blk (wsect x f m) (di_addrs (D j) NDIRECT) = blk m (di_addrs (D j) NDIRECT)"
    using b [of NDIRECT, unfolded nd'] i(3) by (auto simp: NSLOT_def MAXFILE_def)
  then show "slot_addr (wsect x f m) (D j) l = slot_addr m (D j) l" by (simp add: slot_addr_def)
qed

lemma files_ok_write:
  assumes ok: "files_ok D S m" and i: "unat i < NINODES" "k < NSLOT" "k \<noteq> NDIRECT" and x: "slot_addr m (D i) k = x" "x \<noteq> 0"
  shows "files_ok D S (wsect x f m)"
proof -
  have s: "slots_ok (\<lambda>j. slot_addr m (D j)) (unat (freeblock m))" and b: "blocks_ok m" using ok by (auto simp: files_ok_def)
  note same = slots_after_write(1) [OF assms]
  have "slots_ok (\<lambda>j. slot_addr (wsect x f m) (D j)) (unat (freeblock m))"
    using s unfolding slots_ok_def by (simp add: same cong: conj_cong imp_cong)
  moreover have "blocks_ok (wsect x f m)" using slots_okD(2) [OF s i(1,2)] x by (intro blocks_ok_wsect [OF b]) auto
  ultimately show ?thesis using ok same by (simp add: files_ok_def)
qed

section \<open>Appending\<close>

lemma block_cases:
  assumes "off < s" "s \<le> (off div BSIZE + 1) * BSIZE"
  shows "a * BSIZE < s \<longleftrightarrow> a * BSIZE < off \<or> a = off div BSIZE"
    and "(s + BSIZE - 1) div BSIZE = off div BSIZE + 1"
    and "(off + BSIZE - 1) div BSIZE = (if off mod BSIZE = 0 then off div BSIZE else off div BSIZE + 1)"
    and "a * BSIZE < off \<longleftrightarrow> a < off div BSIZE \<or> a = off div BSIZE \<and> off mod BSIZE \<noteq> 0"
proof -
  define n r where "n = off div BSIZE" and "r = off mod BSIZE"
  have off: "off = n * BSIZE + r" "r < BSIZE" by (simp_all add: n_def r_def BSIZE_def)
  have "(a + 1) * BSIZE \<le> n * BSIZE" if "a < n" using that by (intro mult_le_mono1) simp
  moreover have "(n + 1) * BSIZE \<le> a * BSIZE" if "n < a" using that by (intro mult_le_mono1) simp
  ultimately have a: "a * BSIZE < off \<longleftrightarrow> a < n \<or> a = n \<and> r \<noteq> 0" "a * BSIZE < s \<longleftrightarrow> a \<le> n"
    using off assms by (cases a n rule: linorder_cases; simp add: n_def [symmetric])+
  then show "a * BSIZE < s \<longleftrightarrow> a * BSIZE < off \<or> a = off div BSIZE" unfolding n_def [symmetric] by auto
  show "a * BSIZE < off \<longleftrightarrow> a < off div BSIZE \<or> a = off div BSIZE \<and> off mod BSIZE \<noteq> 0"
    using a unfolding n_def [symmetric] r_def [symmetric] by simp
  show "(s + BSIZE - 1) div BSIZE = off div BSIZE + 1"
    using assms off unfolding n_def [symmetric] by (intro div_nat_eqI) (simp_all add: BSIZE_def)
  show "(off + BSIZE - 1) div BSIZE = (if off mod BSIZE = 0 then off div BSIZE else off div BSIZE + 1)"
    unfolding n_def [symmetric] r_def [symmetric] using off by (cases "r = 0") (auto intro!: div_nat_eqI simp: BSIZE_def)
qed

lemma needed_grow:
  assumes "off < s" "s \<le> (off div BSIZE + 1) * BSIZE"
  shows "needed k s \<longleftrightarrow> needed k off \<or> (if k \<le> NDIRECT then k else k - 1) = off div BSIZE"
  unfolding needed_def by (rule block_cases [OF assms])

lemma blocks_for_grow:
  assumes "off < s" "s \<le> (off div BSIZE + 1) * BSIZE"
  shows "blocks_for s = blocks_for off + (if off mod BSIZE = 0 then if off div BSIZE = NDIRECT then 2 else 1 else 0)"
  unfolding blocks_for_def block_cases(1-3) [OF assms] block_cases(4) [OF assms] by auto

lemma needed_slot: "needed (slot n) off \<longleftrightarrow> n * BSIZE < off"
  by (simp add: needed_def slot_def)

lemma slot_less: "n < MAXFILE \<Longrightarrow> slot n < NSLOT" and slot_neq: "slot n \<noteq> NDIRECT"
  by (simp_all add: slot_def NSLOT_def)

text \<open>One file grows: the other files and the bytes it had stay as they are, and the new blocks are taken in order.\<close>

definition extends :: "(uint32 \<Rightarrow> dinode) \<Rightarrow> (uint32 \<Rightarrow> nat) \<Rightarrow> uint32 \<Rightarrow> dinode \<Rightarrow> nat \<Rightarrow> mkfs \<Rightarrow> mkfs \<Rightarrow> bool" where
  "extends D S i d s m m' \<longleftrightarrow>
     files_ok (D(i := d)) (S(i := s)) m' \<and> S i \<le> s \<and>
     msb m' = msb m \<and> freeinode m' = freeinode m \<and> (\<forall>x. unat x < nmeta \<longrightarrow> blk m' x = blk m x) \<and> d\<lparr>di_addrs := di_addrs (D i)\<rparr> = D i \<and>
     unat (freeblock m') + blocks_for (S i) = unat (freeblock m) + blocks_for s \<and>
     (\<forall>j off. unat j < NINODES \<longrightarrow> off < S j \<longrightarrow> S j \<le> MAXFILE * BSIZE \<longrightarrow> file_byte m' ((D(i := d)) j) off = file_byte m (D j) off)"

lemma extends_refl: "files_ok D S m \<Longrightarrow> extends D S i (D i) (S i) m m"
  by (simp add: extends_def)

lemma same_dinode: "d\<lparr>di_addrs := di_addrs x\<rparr> = x \<Longrightarrow> d'\<lparr>di_addrs := di_addrs d\<rparr> = d \<Longrightarrow> d'\<lparr>di_addrs := di_addrs x\<rparr> = x"
  by (cases x; cases d; cases d') simp

lemma extendsD:
  assumes "extends D S i d s m m'"
  shows "files_ok (D(i := d)) (S(i := s)) m'" "S i \<le> s" "msb m' = msb m" "freeinode m' = freeinode m"
    and "unat x < nmeta \<Longrightarrow> blk m' x = blk m x" "d\<lparr>di_addrs := di_addrs (D i)\<rparr> = D i"
    and "unat (freeblock m') + blocks_for (S i) = unat (freeblock m) + blocks_for s"
    and "unat j < NINODES \<Longrightarrow> off < S j \<Longrightarrow> S j \<le> MAXFILE * BSIZE \<Longrightarrow> file_byte m' ((D(i := d)) j) off = file_byte m (D j) off"
  using assms unfolding extends_def by blast+

lemma extends_trans:
  assumes e: "extends D S i d s m m'" "extends (D(i := d)) (S(i := s)) i d' s' m' m''" and s: "s \<le> MAXFILE * BSIZE"
  shows "extends D S i d' s' m m''"
  unfolding extends_def
proof (intro conjI allI impI)
  note a = extendsD [OF e(1)] and b = extendsD [OF e(2), unfolded fun_upd_upd fun_upd_same]
  show "files_ok (D(i := d')) (S(i := s')) m''" by (rule b)
  show "S i \<le> s'" "msb m'' = msb m" "freeinode m'' = freeinode m" using a b by simp_all
  show "d'\<lparr>di_addrs := di_addrs (D i)\<rparr> = D i" using same_dinode [OF a(6) b(6)] .
  show "unat (freeblock m'') + blocks_for (S i) = unat (freeblock m) + blocks_for s'" using a(7) b(7) by simp
  show "blk m'' x = blk m x" if "unat x < nmeta" for x using a(5) b(5) that by simp
  fix j off assume j: "unat j < NINODES" "off < S j" "S j \<le> MAXFILE * BSIZE"
  have "off < (S(i := s)) j" "(S(i := s)) j \<le> MAXFILE * BSIZE" using j s a(2) by auto
  from b(8) [OF j(1) this] show "file_byte m'' ((D(i := d')) j) off = file_byte m (D j) off"
    unfolding a(8) [OF j] .
qed

lemma file_byte_kept:
  assumes "\<And>j l. unat j < NINODES \<Longrightarrow> l < NSLOT \<Longrightarrow> slot_addr m (D j) l \<noteq> 0 \<Longrightarrow>
      slot_addr m' (D' j) l = slot_addr m (D j) l \<and> (l \<noteq> NDIRECT \<longrightarrow> blk m' (slot_addr m (D j) l) = blk m (slot_addr m (D j) l))"
    and "files_ok D S m" "unat j < NINODES" "off < S j" "S j \<le> MAXFILE * BSIZE"
  shows "file_byte m' (D' j) off = file_byte m (D j) off"
proof -
  have n: "off div BSIZE < MAXFILE" "off div BSIZE * BSIZE < S j"
    using assms(4,5) div_times_less_eq_dividend [of off BSIZE] by (auto simp: less_mult_imp_div_less simp del: div_times_less_eq_dividend times_div_less_eq_dividend intro: le_less_trans)
  then have "slot_addr m (D j) (slot (off div BSIZE)) \<noteq> 0"
    using assms(2,3) slot_less [OF n(1)] by (auto simp: files_ok_def needed_slot)
  then show ?thesis using assms(1) [OF assms(3) slot_less [OF n(1)]] slot_neq by (simp add: file_byte_def)
qed

lemma alloc_stepD:
  assumes "alloc_step D i d k m m'"
  shows "blocks_ok m'" "slots_ok (\<lambda>j. slot_addr m' ((D(i := d)) j)) (unat (freeblock m'))" "msb m' = msb m" "freeinode m' = freeinode m"
    and "unat (freeblock m') = unat (freeblock m) + 1" "d\<lparr>di_addrs := di_addrs (D i)\<rparr> = D i"
    and "unat x < nmeta \<Longrightarrow> blk m' x = blk m x"
    and "unat j < NINODES \<Longrightarrow> l < NSLOT \<Longrightarrow> slot_addr m' ((D(i := d)) j) l = (if j = i \<and> l = k then freeblock m else slot_addr m (D j) l)"
    and "unat j < NINODES \<Longrightarrow> l < NSLOT \<Longrightarrow> slot_addr m (D j) l \<noteq> 0 \<Longrightarrow> l \<noteq> NDIRECT \<Longrightarrow> blk m' (slot_addr m (D j) l) = blk m (slot_addr m (D j) l)"
  using assms unfolding alloc_step_def by blast+

text \<open>The allocation of a set of slots, and how it makes the file grow.\<close>

definition alloc_slots :: "(uint32 \<Rightarrow> dinode) \<Rightarrow> uint32 \<Rightarrow> dinode \<Rightarrow> nat set \<Rightarrow> mkfs \<Rightarrow> mkfs \<Rightarrow> bool" where
  "alloc_slots D i d K m m' \<longleftrightarrow>
     blocks_ok m' \<and> slots_ok (\<lambda>j. slot_addr m' ((D(i := d)) j)) (unat (freeblock m')) \<and>
     msb m' = msb m \<and> freeinode m' = freeinode m \<and> unat (freeblock m') = unat (freeblock m) + card K \<and> d\<lparr>di_addrs := di_addrs (D i)\<rparr> = D i \<and>
     (\<forall>x. unat x < nmeta \<longrightarrow> blk m' x = blk m x) \<and>
     (\<forall>l\<in>K. slot_addr m' d l \<noteq> 0) \<and>
     (\<forall>j l. unat j < NINODES \<longrightarrow> l < NSLOT \<longrightarrow> \<not> (j = i \<and> l \<in> K) \<longrightarrow>
       slot_addr m' ((D(i := d)) j) l = slot_addr m (D j) l \<and>
       (slot_addr m (D j) l \<noteq> 0 \<longrightarrow> l \<noteq> NDIRECT \<longrightarrow> blk m' (slot_addr m (D j) l) = blk m (slot_addr m (D j) l)))"

lemma alloc_one:
  assumes "alloc_step D i d k m m'" "blocks_ok m" "unat i < NINODES" "k < NSLOT"
  shows "alloc_slots D i d {k} m m'"
proof -
  have "freeblock m \<noteq> 0" using assms(2) by (auto simp: blocks_ok_def nmeta_eq)
  then have "slot_addr m' d k \<noteq> 0" using alloc_stepD (8) [OF assms(1,3,4)] by simp
  moreover have "slot_addr m' ((D(i := d)) j) l = slot_addr m (D j) l" if "unat j < NINODES" "l < NSLOT" "\<not> (j = i \<and> l = k)" for j l
    using alloc_stepD (8) [OF assms(1) that(1,2)] that(3) by simp
  ultimately show ?thesis unfolding alloc_slots_def
    using alloc_stepD (1-7,9) [OF assms(1)] by simp
qed

lemma alloc_two:
  assumes a: "alloc_step D i d k m m'" "alloc_step (D(i := d)) i d' k' m' m''" and m: "blocks_ok m" "unat i < NINODES" "k < NSLOT" "k' < NSLOT" "k \<noteq> k'"
  shows "alloc_slots D i d' {k, k'} m m''"
proof -
  note a1 = alloc_stepD [OF a(1)] and a2 = alloc_stepD [OF a(2), unfolded fun_upd_upd fun_upd_same]
  have fb: "freeblock m \<noteq> 0" "freeblock m' \<noteq> 0" using m(1) a1(1) by (auto simp: blocks_ok_def nmeta_eq)
  have "slot_addr m'' d' k' \<noteq> 0" "slot_addr m'' d' k \<noteq> 0"
    using a2(8) [OF m(2) m(4)] a2(8) [OF m(2,3)] a1(8) [OF m(2,3)] fb m(5) by simp_all
  moreover have "slot_addr m'' ((D(i := d')) j) l = slot_addr m (D j) l \<and>
       (slot_addr m (D j) l \<noteq> 0 \<longrightarrow> l \<noteq> NDIRECT \<longrightarrow> blk m'' (slot_addr m (D j) l) = blk m (slot_addr m (D j) l))"
    if jl: "unat j < NINODES" "l < NSLOT" and n: "\<not> (j = i \<and> l \<in> {k, k'})" for j l
  proof -
    have n: "\<not> (j = i \<and> l = k)" "\<not> (j = i \<and> l = k')" using n by auto
    have s1: "slot_addr m' ((D(i := d)) j) l = slot_addr m (D j) l" unfolding a1(8) [OF jl] if_not_P [OF n(1)] ..
    have s2: "slot_addr m'' ((D(i := d')) j) l = slot_addr m (D j) l" unfolding a2(8) [OF jl] if_not_P [OF n(2)] s1 ..
    show ?thesis using a1(9) [OF jl] a2(9) [OF jl, unfolded s1] s2 by simp
  qed
  moreover have "blk m'' x = blk m x" if "unat x < nmeta" for x using a1(7) a2(7) that by simp
  ultimately show ?thesis unfolding alloc_slots_def
    using a2(1,2) a1(3-5) a2(3-5) same_dinode [OF a1(6) a2(6)] m(5) by simp
qed

lemma alloc_extends:
  assumes ok: "files_ok D S m" and a: "alloc_slots D i d K m m'" and i: "unat i < NINODES"
    and K: "\<And>l. l < NSLOT \<Longrightarrow> needed l s \<longleftrightarrow> needed l (S i) \<or> l \<in> K" "\<And>l. l \<in> K \<Longrightarrow> l < NSLOT \<and> \<not> needed l (S i)"
    and s: "S i \<le> s" "blocks_for s = blocks_for (S i) + card K"
  shows "extends D S i d s m m'"
proof -
  note a = a [unfolded alloc_slots_def]
  have 0: "slot_addr m (D i) k = 0" if "k \<in> K" for k using ok i K(2) [OF that] by (auto simp: files_ok_def)
  have kept: "slot_addr m' ((D(i := d)) j) l = slot_addr m (D j) l \<and> (l \<noteq> NDIRECT \<longrightarrow> blk m' (slot_addr m (D j) l) = blk m (slot_addr m (D j) l))"
    if "unat j < NINODES" "l < NSLOT" "slot_addr m (D j) l \<noteq> 0" for j l
  proof -
    have "\<not> (j = i \<and> l \<in> K)" using 0 that by auto
    then show ?thesis using a that by blast
  qed
  have "slot_addr m' ((D(i := d)) j) l \<noteq> 0 \<longleftrightarrow> needed l ((S(i := s)) j)" if jl: "unat j < NINODES" "l < NSLOT" for j l
  proof (cases "j = i \<and> l \<in> K")
    case True
    then show ?thesis using a K(1) [OF jl(2)] by auto
  next
    case False
    then have "slot_addr m' ((D(i := d)) j) l = slot_addr m (D j) l" using a jl by blast
    then show ?thesis using False K(1) [OF jl(2)] ok jl by (auto simp: files_ok_def)
  qed
  then have "files_ok (D(i := d)) (S(i := s)) m'" unfolding files_ok_def using a by blast
  then show ?thesis
    unfolding extends_def using a s file_byte_kept [of m D m' "D(i := d)", OF kept ok] by simp
qed

lemma slot_addr_slot: "slot_addr m d (slot n) = (if n < NDIRECT then di_addrs d n else if di_addrs d NDIRECT = 0 then 0 else get32 (blk m (di_addrs d NDIRECT)) (4 * (n - NDIRECT)))"
  by (simp add: slot_addr_def slot_def)

lemma files_okD:
  assumes "files_ok D S m"
  shows "blocks_ok m" "slots_ok (\<lambda>j. slot_addr m (D j)) (unat (freeblock m))" "img_len m = FSSIZE * BSIZE" "unat (freeblock m) \<le> FSSIZE"
    and "unat i < NINODES \<Longrightarrow> k < NSLOT \<Longrightarrow> slot_addr m (D i) k \<noteq> 0 \<longleftrightarrow> needed k (S i)"
    and "unat i < NINODES \<Longrightarrow> k < NSLOT \<Longrightarrow> slot_addr m (D i) k \<noteq> 0 \<Longrightarrow> rsect (slot_addr m (D i) k) m = Some (blk m (slot_addr m (D i) k))"
proof -
  show "blocks_ok m" and s: "slots_ok (\<lambda>j. slot_addr m (D j)) (unat (freeblock m))" and l: "img_len m = FSSIZE * BSIZE" and f: "unat (freeblock m) \<le> FSSIZE"
    and "unat i < NINODES \<Longrightarrow> k < NSLOT \<Longrightarrow> slot_addr m (D i) k \<noteq> 0 \<longleftrightarrow> needed k (S i)"
    using assms unfolding files_ok_def blocks_ok_def by blast+
  show "rsect (slot_addr m (D i) k) m = Some (blk m (slot_addr m (D i) k))"
    if "unat i < NINODES" "k < NSLOT" "slot_addr m (D i) k \<noteq> 0"
    using slots_okD (2) [OF s that] f by (intro rsect_eq [OF l]) simp
qed

text \<open>The cases of \<^verbatim>\<open>iappend\<close>'s choice of a block.\<close>

lemma iappend_block_old:
  assumes ok: "files_ok D S m" "unat i < NINODES" "n < MAXFILE" and x: "slot_addr m (D i) (slot n) \<noteq> 0"
  shows "iappend_block n (D i) m = Some (slot_addr m (D i) (slot n), D i, m)"
proof (cases "n < NDIRECT")
  case False
  have nd: "slot_addr m (D i) NDIRECT = di_addrs (D i) NDIRECT" by (simp add: slot_addr_def)
  then show ?thesis
    using False x files_okD (6) [OF ok(1,2), of NDIRECT] unfolding slot_addr_slot
    by (simp add: iappend_block_def NSLOT_def MAXFILE_def split: if_splits)
qed (use x in \<open>simp add: iappend_block_def slot_addr_slot\<close>)

lemma iappend_block_direct:
  assumes "n < NDIRECT" "slot_addr m d (slot n) = 0"
  shows "iappend_block n d m = Some (freeblock m, d\<lparr>di_addrs := (di_addrs d)(n := freeblock m)\<rparr>, m\<lparr>freeblock := freeblock m + 1\<rparr>)"
  using assms by (simp add: iappend_block_def slot_addr_slot)

lemma iappend_block_entry:
  assumes ok: "files_ok D S m" "unat i < NINODES" and n: "\<not> n < NDIRECT" "slot_addr m (D i) (slot n) = 0"
    and y: "di_addrs (D i) NDIRECT = y" "y \<noteq> 0"
  shows "iappend_block n (D i) m = Some (freeblock m, D i,
     wsect y (put32 (4 * (slot n - (NDIRECT + 1))) (freeblock m) (blk m y)) (m\<lparr>freeblock := freeblock m + 1\<rparr>))"
proof -
  have nd: "slot_addr m (D i) NDIRECT = y" using y by (simp add: slot_addr_def)
  have "rsect y m = Some (blk m y)" using files_okD (6) [OF ok, of NDIRECT] nd y by (simp add: NSLOT_def MAXFILE_def)
  then show ?thesis using n y by (simp add: iappend_block_def slot_addr_slot get32_put32 Let_def) (simp add: slot_def)
qed

lemma iappend_block_indirect:
  assumes ok: "files_ok D S m" and n: "n = NDIRECT" "di_addrs (D i) NDIRECT = 0" and fb: "unat (freeblock m) < FSSIZE"
    and m': "m' = m\<lparr>freeblock := freeblock m + 1\<rparr>" "y = freeblock m"
  shows "iappend_block n (D i) m = Some (freeblock m', (D i)\<lparr>di_addrs := (di_addrs (D i))(NDIRECT := y)\<rparr>,
     wsect y (put32 (4 * (slot n - (NDIRECT + 1))) (freeblock m') (blk m' y)) (m'\<lparr>freeblock := freeblock m' + 1\<rparr>))"
proof -
  have "rsect y m' = Some (blk m' y)" using files_okD (3) [OF ok] fb by (intro rsect_eq) (simp_all add: m')
  moreover have "get32 (blk m' y) 0 = 0" using blocks_ok_zero [OF files_okD(1) [OF ok] fb, of 0] by (simp add: m' BSIZE_def)
  ultimately show ?thesis using n by (simp add: iappend_block_def get32_put32 Let_def m' slot_def)
qed

lemma alloc_none: "files_ok D S m \<Longrightarrow> alloc_slots D i (D i) {} m m"
  using files_okD (1,2) by (auto simp: alloc_slots_def)

lemma slot_addr_new: "alloc_step D i d k m m' \<Longrightarrow> unat i < NINODES \<Longrightarrow> k < NSLOT \<Longrightarrow> slot_addr m' d k = freeblock m"
  using alloc_stepD (8) [of D i d k m m' i k] by simp

lemma iappend_block_spec:
  assumes ok: "files_ok D S m" and i: "unat i < NINODES" and n: "n = S i div BSIZE" "n < MAXFILE"
    and room: "unat (freeblock m) + blocks_for (S i + 1) \<le> FSSIZE + blocks_for (S i)"
  shows "\<exists>d m'. iappend_block n (D i) m = Some (slot_addr m' d (slot n), d, m') \<and> extends D S i d (S i + 1) m m'"
proof -
  have le: "S i < S i + 1" "S i + 1 \<le> (S i div BSIZE + 1) * BSIZE"
    by (simp_all add: BSIZE_def)
  note grow = needed_grow [OF le, folded n(1)] and cost = blocks_for_grow [OF le, folded n(1)]
  note slot = slot_less [OF n(2)]
  have nd: "slot_addr m (D i) NDIRECT = di_addrs (D i) NDIRECT" "NDIRECT < NSLOT" by (simp_all add: slot_addr_def NSLOT_def MAXFILE_def)
  have full: "needed k (S i) \<longleftrightarrow> (if k \<le> NDIRECT then k else k - 1) < n \<or> (if k \<le> NDIRECT then k else k - 1) = n \<and> S i mod BSIZE \<noteq> 0" for k
    unfolding needed_def block_cases(4) [OF le] n(1) ..
  note used = files_okD(5) [OF ok i] and base = files_okD(1,2) [OF ok]
  show ?thesis
  proof (cases "S i mod BSIZE = 0")
    case False
    then have x: "slot_addr m (D i) (slot n) \<noteq> 0" using used [OF slot] full by (auto simp: slot_def)
    have "extends D S i (D i) (S i + 1) m m"
      using False grow full cost by (intro alloc_extends [OF ok alloc_none [OF ok] i]) auto
    then show ?thesis using iappend_block_old [OF ok i n(2) x] by blast
  next
    case True
    then have x: "slot_addr m (D i) (slot n) = 0" using used [OF slot] full by (auto simp: slot_def)
    have fb: "unat (freeblock m) < FSSIZE" using room cost True by (auto split: if_splits)
    consider "n < NDIRECT" | "n = NDIRECT" | "NDIRECT < n" by linarith
    then show ?thesis
    proof cases
      case 1
      let ?d = "(D i)\<lparr>di_addrs := (di_addrs (D i))(n := freeblock m)\<rparr>" and ?m = "m\<lparr>freeblock := freeblock m + 1\<rparr>"
      have a: "alloc_step D i ?d (slot n) m ?m"
        using alloc_direct [OF base fb, of n i] 1 x by (simp add: slot_def slot_addr_def)
      have "extends D S i ?d (S i + 1) m ?m"
        using 1 True grow full cost slot by (intro alloc_extends [OF ok alloc_one [OF a base(1) i slot] i]) (auto simp: slot_def)
      then show ?thesis using iappend_block_direct [OF 1 x] slot_addr_new [OF a i slot] by metis
    next
      case 3
      let ?y = "di_addrs (D i) NDIRECT"
      have y: "?y \<noteq> 0" using used [OF nd(2)] full 3 nd by auto
      let ?m = "wsect ?y (put32 (4 * (slot n - (NDIRECT + 1))) (freeblock m) (blk m ?y)) (m\<lparr>freeblock := freeblock m + 1\<rparr>)"
      have a: "alloc_step D i (D i) (slot n) m ?m" using 3 slot y by (intro alloc_indirect [OF base fb i]) (auto simp: slot_def)
      have "extends D S i (D i) (S i + 1) m ?m"
        using 3 True grow full cost slot by (intro alloc_extends [OF ok alloc_one [OF a base(1) i slot] i]) (auto simp: slot_def)
      then show ?thesis using iappend_block_entry [OF ok i _ x refl y] 3 slot_addr_new [OF a i slot] by (metis less_imp_not_less)
    next
      case 2
      have y0: "di_addrs (D i) NDIRECT = 0" using used [OF nd(2)] full 2 True nd by auto
      define m1 d1 where "m1 = m\<lparr>freeblock := freeblock m + 1\<rparr>" and "d1 = (D i)\<lparr>di_addrs := (di_addrs (D i))(NDIRECT := freeblock m)\<rparr>"
      let ?m = "wsect (freeblock m) (put32 (4 * (slot n - (NDIRECT + 1))) (freeblock m1) (blk m1 (freeblock m))) (m1\<lparr>freeblock := freeblock m1 + 1\<rparr>)"
      have a: "alloc_step D i d1 NDIRECT m m1" unfolding m1_def d1_def using y0 by (intro alloc_direct [OF base fb]) simp_all
      have fb1: "unat (freeblock m1) < FSSIZE" using room cost True 2 alloc_stepD (5) [OF a] by simp
      have y1: "freeblock m \<noteq> 0" using base(1) by (auto simp: blocks_ok_def nmeta_eq)
      have b: "alloc_step (D(i := d1)) i d1 (slot n) m1 ?m"
        by (rule alloc_indirect [where D = "D(i := d1)" and i = i, unfolded fun_upd_same, OF alloc_stepD(1,2) [OF a] fb1 i _ slot _ y1])
          (simp_all add: slot_def 2 d1_def)
      have "extends D S i d1 (S i + 1) m ?m"
        using 2 True grow full cost slot nd by (intro alloc_extends [OF ok alloc_two [OF a b base(1) i nd(2) slot] i]) (auto simp: slot_def)
      then show ?thesis
        using iappend_block_indirect [OF ok 2 y0 fb m1_def refl] slot_addr_new [OF b i slot] unfolding d1_def [symmetric] by metis
    qed
  qed
qed

lemma slot_inject: "slot a = slot b \<longleftrightarrow> a = b"
  by (auto simp: slot_def)

lemma file_byte_write:
  assumes ok: "files_ok D S m" "unat i < NINODES" "n < MAXFILE" and x: "slot_addr m (D i) (slot n) = x" "x \<noteq> 0"
    and j: "unat j < NINODES" "off < S j" "S j \<le> MAXFILE * BSIZE"
  shows "file_byte (wsect x f m) (D j) off = (if j = i \<and> off div BSIZE = n then f (off mod BSIZE) else file_byte m (D j) off)"
proof -
  have n: "off div BSIZE < MAXFILE" "off div BSIZE * BSIZE < S j"
    using j(2,3) div_times_less_eq_dividend [of off BSIZE] by (auto simp: less_mult_imp_div_less simp del: div_times_less_eq_dividend times_div_less_eq_dividend intro: le_less_trans)
  have "slot_addr m (D j) (slot (off div BSIZE)) \<noteq> 0"
    using files_okD (5) [OF ok(1) j(1) slot_less [OF n(1)]] n(2) by (simp add: needed_slot)
  then show ?thesis
    using slots_after_write [OF ok(1,2) slot_less [OF ok(3)] slot_neq x j(1) slot_less [OF n(1)]] slot_inject by (simp add: file_byte_def)
qed

lemma blocks_for_mono: "a \<le> b \<Longrightarrow> blocks_for a \<le> blocks_for b"
  unfolding blocks_for_def by (intro add_mono div_le_mono) auto

lemma files_ok_cong:
  assumes "\<And>i k. unat i < NINODES \<Longrightarrow> k < NSLOT \<Longrightarrow> slot_addr m (D i) k = slot_addr m (E i) k \<and> needed k (S i) = needed k (T i)"
  shows "files_ok D S m = files_ok E T m"
proof -
  have "slots_ok (\<lambda>i. slot_addr m (D i)) b = slots_ok (\<lambda>i. slot_addr m (E i)) b" for b
    unfolding slots_ok_def using assms by (simp cong: conj_cong imp_cong)
  then show ?thesis unfolding files_ok_def using assms by (simp cong: conj_cong imp_cong)
qed

lemma append_step:
  assumes ok: "files_ok D S m" and i: "unat i < NINODES" and n: "n = S i div BSIZE" "n < MAXFILE"
    and c: "c \<noteq> []" "S i + length c \<le> (n + 1) * BSIZE" and lim: "S i + length c \<le> MAXFILE * BSIZE"
    and room: "unat (freeblock m) + blocks_for (S i + length c) \<le> FSSIZE + blocks_for (S i)"
  shows "\<exists>x d m' f. iappend_block n (D i) m = Some (x, d, m') \<and> rsect x m' = Some f \<and>
    extends D S i d (S i + length c) m (wsect x (bcopy c (S i - n * BSIZE) f) m') \<and>
    (\<forall>j < length c. file_byte (wsect x (bcopy c (S i - n * BSIZE) f) m') d (S i + j) = c ! j)"
proof -
  have le: "S i < S i + 1" "S i + 1 \<le> (S i div BSIZE + 1) * BSIZE" "S i < S i + length c" "S i + length c \<le> (S i div BSIZE + 1) * BSIZE"
    using c n by (auto simp: BSIZE_def Suc_le_eq)
  have same: "needed k (S i + length c) = needed k (S i + 1)" "blocks_for (S i + length c) = blocks_for (S i + 1)" for k
    unfolding needed_grow [OF le(1,2)] needed_grow [OF le(3,4)] blocks_for_grow [OF le(1,2)] blocks_for_grow [OF le(3,4)] by simp_all
  obtain d m' where b: "iappend_block n (D i) m = Some (slot_addr m' d (slot n), d, m')" and e: "extends D S i d (S i + 1) m m'"
    using iappend_block_spec [OF ok i n] room same by auto
  define x f where "x = slot_addr m' d (slot n)" and "f = bcopy c (S i - n * BSIZE) (blk m' x)"
  let ?D = "D(i := d)" and ?S = "S(i := S i + length c)" and ?m = "wsect x f m'"
  note e = extendsD [OF e]
  have ok': "files_ok ?D ?S m'" using e(1) files_ok_cong [of m' ?D ?D ?S "S(i := S i + 1)"] same by simp
  have x: "slot_addr m' (?D i) (slot n) = x" "x \<noteq> 0"
  proof -
    have "n * BSIZE < S i + length c" using le(3) div_times_less_eq_dividend [of "S i" BSIZE] unfolding n(1) by linarith
    then show "x \<noteq> 0" using files_okD (5) [OF ok' i slot_less [OF n(2)]] by (simp add: x_def needed_slot)
  qed (simp add: x_def)
  note w = file_byte_write [OF ok' i n(2) x, where f = f]
  have r: "rsect x m' = Some (blk m' x)" using files_okD (6) [OF ok' i slot_less [OF n(2)]] x by simp
  have xb: "nmeta \<le> unat x" "unat x < FSSIZE"
    using slots_okD (1,2) [OF files_okD(2) [OF ok'] i slot_less [OF n(2)]] x files_okD (4) [OF ok'] by auto
  have off: "S i - n * BSIZE = S i mod BSIZE" using n(1) by (simp add: minus_div_mult_eq_mod)
  have bytes: "file_byte ?m d (S i + j) = c ! j" if "j < length c" for j
  proof -
    have "(S i + j) div BSIZE = n" using that le(4) n(1) by (intro div_nat_eqI) (auto simp: mult.commute intro: le_trans [OF times_div_less_eq_dividend])
    moreover from this have "(S i + j) mod BSIZE = S i mod BSIZE + j" using n(1) by (metis add_diff_cancel_left' div_mult_mod_eq group_cancel.add1)
    ultimately show ?thesis using w [OF i, of "S i + j"] that lim by (simp add: f_def off bcopy_def)
  qed
  have old: "file_byte ?m (?D j) o' = file_byte m (D j) o'" if "unat j < NINODES" "o' < S j" "S j \<le> MAXFILE * BSIZE" for j o'
  proof -
    have "o' mod BSIZE < S i mod BSIZE" if "j = i" "o' div BSIZE = n"
      using \<open>o' < S j\<close> that n(1) by (metis div_mult_mod_eq nat_add_left_cancel_less)
    then have "file_byte ?m (?D j) o' = file_byte m' (?D j) o'"
      using w [OF that(1), of o'] that lim by (auto simp: f_def off bcopy_def file_byte_def x_def)
    then show ?thesis using e(8) [OF that] by simp
  qed
  have low: "blk ?m y = blk m y" if "unat y < nmeta" for y
    using that e(5) [OF that] xb by (auto simp: blk_wsect)
  have fok: "files_ok ?D ?S ?m" by (rule files_ok_write [OF ok' i slot_less [OF n(2)] slot_neq x])
  have "extends D S i d (S i + length c) m ?m"
    unfolding extends_def using fok e(3,4,6,7) old low same by simp
  then show ?thesis using b r bytes unfolding x_def [symmetric] f_def by blast
qed

lemma iappend_from_spec:
  assumes "files_ok D S m" "unat i < NINODES" "S i + length p \<le> MAXFILE * BSIZE"
    and "unat (freeblock m) + blocks_for (S i + length p) \<le> FSSIZE + blocks_for (S i)"
  shows "\<exists>d m'. iappend_from p (S i) (D i) m = Some (S i + length p, d, m') \<and> extends D S i d (S i + length p) m m' \<and>
    (\<forall>j < length p. file_byte m' d (S i + j) = p ! j)"
  using assms
proof (induction "length p" arbitrary: p D S m rule: less_induct)
  case less
  show ?case
  proof (cases "p = []")
    case True
    then show ?thesis using extends_refl [OF less.prems(1)] by (auto simp: iappend_from.simps)
  next
    case False
    define n n1 c where "n = S i div BSIZE" and "n1 = min (length p) ((n + 1) * BSIZE - S i)" and "c = take n1 p"
    have n: "n < MAXFILE" "S i < (n + 1) * BSIZE"
      using less.prems(3) False by (auto simp: n_def BSIZE_def dividend_less_div_times less_mult_imp_div_less simp flip: length_greater_0_conv)
    then have n1: "0 < n1" "n1 \<le> length p" "S i + n1 \<le> (n + 1) * BSIZE" using False by (auto simp: n1_def)
    then have c: "length c = n1" "c \<noteq> []" by (auto simp: c_def)
    have room: "unat (freeblock m) + blocks_for (S i + length c) \<le> FSSIZE + blocks_for (S i)"
      using less.prems(4) blocks_for_mono [of "S i + n1" "S i + length p"] n1 c by simp
    obtain x d m1 f where b: "iappend_block n (D i) m = Some (x, d, m1)" "rsect x m1 = Some f"
      and e: "extends D S i d (S i + n1) m (wsect x (bcopy c (S i - n * BSIZE) f) m1)"
      and bytes: "\<And>j. j < n1 \<Longrightarrow> file_byte (wsect x (bcopy c (S i - n * BSIZE) f) m1) d (S i + j) = c ! j"
      using append_step [OF less.prems(1,2) n_def n(1) c(2) _ _ room] n1 less.prems(3) c(1) by auto
    define m2 where "m2 = wsect x (bcopy c (S i - n * BSIZE) f) m1"
    note e = e [folded m2_def] and bytes = bytes [folded m2_def]
    let ?D = "D(i := d)" and ?S = "S(i := S i + n1)"
    have sum: "S i + n1 + length (drop n1 p) = S i + length p" using n1 by simp
    obtain d' m' where r: "iappend_from (drop n1 p) (S i + n1) d m2 = Some (S i + length p, d', m')"
      and e': "extends ?D ?S i d' (S i + length p) m2 m'" and bytes': "\<And>j. j < length p - n1 \<Longrightarrow> file_byte m' d' (S i + n1 + j) = p ! (n1 + j)"
      using less.hyps [of "drop n1 p" ?D ?S m2] extendsD(1,7) [OF e] less.prems(2-4) n1 sum False by auto
    have lim: "S i + n1 \<le> MAXFILE * BSIZE" using n1 less.prems(3) by simp
    have "file_byte m' d' (S i + j) = p ! j" if "j < length p" for j
    proof (cases "j < n1")
      case True
      then show ?thesis using extendsD (8) [OF e' less.prems(2), of "S i + j"] lim bytes [OF True] by (simp add: c_def)
    next
      case False
      then show ?thesis using bytes' [of "j - n1"] that by simp
    qed
    moreover have "iappend_from p (S i) (D i) m = Some (S i + length p, d', m')"
      using False n b r [unfolded m2_def c_def n1_def] by (subst iappend_from.simps) (simp add: n_def [symmetric] Let_def)
    ultimately show ?thesis using extends_trans [OF e e' lim] by blast
  qed
qed

section \<open>Inodes on the image\<close>

definition cut_addrs :: "dinode \<Rightarrow> dinode" where
  "cut_addrs d = d\<lparr>di_addrs := (\<lambda>k. if k \<le> NDIRECT then di_addrs d k else 0)\<rparr>"

definition dino :: "mkfs \<Rightarrow> uint32 \<Rightarrow> dinode" where
  "dino m i = cut_addrs (get_dinode (blk m (IBLOCK i layout)) (dinode_at i))"

lemma slot_addr_cut [simp]: "slot_addr m (cut_addrs d) k = slot_addr m d k"
  by (simp add: slot_addr_def cut_addrs_def)

lemma cut_fields [simp]:
  "di_type (cut_addrs d) = di_type d" "di_major (cut_addrs d) = di_major d" "di_minor (cut_addrs d) = di_minor d"
  "di_nlink (cut_addrs d) = di_nlink d" "di_size (cut_addrs d) = di_size d"
  by (simp_all add: cut_addrs_def)

lemma slot_addr_size [simp]: "slot_addr m (d\<lparr>di_size := s\<rparr>) k = slot_addr m d k"
  by (simp add: slot_addr_def)

lemma file_byte_cut [simp]: "file_byte m (cut_addrs d) off = file_byte m d off" "file_byte m (d\<lparr>di_size := s\<rparr>) off = file_byte m d off"
  by (simp_all add: file_byte_def)

lemma iblock_range: "unat i < NINODES \<Longrightarrow> unat (IBLOCK i layout) = 32 + unat i div 16"
  by (simp add: IBLOCK_def layout_def layout_values unat_word_ariths unat_div)

lemma inode_apart:
  assumes "unat i < NINODES" "unat j < NINODES" "i \<noteq> j" "IBLOCK i layout = IBLOCK j layout"
  shows "dinode_at i \<noteq> dinode_at j"
proof -
  have "unat i div 16 = unat j div 16" using assms iblock_range by (metis add_left_cancel)
  moreover have "unat i \<noteq> unat j" using assms(3) by (simp add: word_unat_eq_iff)
  ultimately have "unat i mod 16 \<noteq> unat j mod 16" by (metis div_mult_mod_eq)
  then show ?thesis by (simp add: dinode_at_def layout_values)
qed

lemma cut_get_put: "cut_addrs (get_dinode (put_dinode k d f) k) = cut_addrs d"
  by (rule dinode.equality) (auto simp: cut_addrs_def get_put_dinode NDIRECT_def fun_eq_iff)

lemma cut_get_cong:
  assumes "\<And>i. k \<le> i \<Longrightarrow> i < k + sizeof_dinode \<Longrightarrow> f i = g i"
  shows "cut_addrs (get_dinode f k) = cut_addrs (get_dinode g k)"
proof -
  have "get16 f (k + j) = get16 g (k + j)" if "j + 2 \<le> sizeof_dinode" for j
    using that assms by (intro get16_cong) simp
  moreover have "get32 f (k + j) = get32 g (k + j)" if "j + 4 \<le> sizeof_dinode" for j
    using that assms by (intro get32_cong) simp
  ultimately show ?thesis
    by (intro dinode.equality) (auto simp: cut_addrs_def get_dinode_def sizeof_dinode_def NDIRECT_def fun_eq_iff add.assoc simp del: add_2_eq_Suc' dest: meta_spec [where x = 0])
qed

lemma winode_spec:
  assumes m: "img_len m = FSSIZE * BSIZE" "msb m = layout" and i: "unat i < NINODES"
  shows "\<exists>m'. winode i d m = Some m' \<and> img_len m' = FSSIZE * BSIZE \<and> msb m' = layout \<and> freeinode m' = freeinode m \<and> freeblock m' = freeblock m \<and>
    (\<forall>x. unat x < FSSIZE \<longrightarrow> unat x < 32 \<or> nmeta \<le> unat x \<longrightarrow> blk m' x = blk m x) \<and>
    (\<forall>j. unat j < NINODES \<longrightarrow> dino m' j = (if j = i then cut_addrs d else dino m j))"
proof -
  let ?b = "IBLOCK i layout"
  let ?m = "wsect ?b (put_dinode (dinode_at i) d (blk m ?b)) m"
  have b: "unat ?b < FSSIZE" "32 \<le> unat ?b" "unat ?b < nmeta"
    using iblock_range [OF i] i by (simp_all add: layout_values)
  have "dino ?m j = (if j = i then cut_addrs d else dino m j)" if "unat j < NINODES" for j
  proof -
    have "unat (IBLOCK j layout) < FSSIZE" using iblock_range [OF that] that by (simp add: layout_values)
    then have "blk ?m (IBLOCK j layout) = (if ?b = IBLOCK j layout then put_dinode (dinode_at i) d (blk m ?b) else blk m (IBLOCK j layout))"
      using b by (simp add: blk_wsect)
    note blk' = this
    show ?thesis
    proof (cases "?b = IBLOCK j layout \<and> j \<noteq> i")
      case True
      then have "dinode_at i + sizeof_dinode \<le> dinode_at j \<or> dinode_at j + sizeof_dinode \<le> dinode_at i"
        using inode_apart [OF i that] dinode_slots_apart [of i j] by blast
      then have "cut_addrs (get_dinode (put_dinode (dinode_at i) d (blk m ?b)) (dinode_at j)) = cut_addrs (get_dinode (blk m ?b) (dinode_at j))"
        by (intro cut_get_cong put_dinode_outside) auto
      then show ?thesis using True blk' by (simp add: dino_def)
    qed (use blk' in \<open>auto simp: dino_def cut_get_put\<close>)
  qed
  moreover have "blk ?m x = blk m x" if "unat x < FSSIZE" "unat x < 32 \<or> nmeta \<le> unat x" for x
    using that b by (auto simp: blk_wsect)
  moreover have "winode i d m = Some ?m" using m b by (simp add: winode_def rsect_eq Let_def)
  ultimately show ?thesis
    using img_len_wsect [OF m(1) b(1)] m by (intro exI [of _ ?m]) simp
qed

lemma rinode_spec:
  assumes "img_len m = FSSIZE * BSIZE" "msb m = layout" "unat i < NINODES"
  shows "\<exists>d. rinode i m = Some d \<and> cut_addrs d = dino m i"
  using assms iblock_range [of i] by (simp add: rinode_def dino_def rsect_eq layout_values)

definition isize :: "mkfs \<Rightarrow> uint32 \<Rightarrow> nat" where
  "isize m i = unat (di_size (dino m i))"

definition contents :: "mkfs \<Rightarrow> uint32 \<Rightarrow> uint8 list" where
  "contents m i = map (file_byte m (dino m i)) [0..<isize m i]"

definition image_ok :: "mkfs \<Rightarrow> bool" where
  "image_ok m \<longleftrightarrow> files_ok (dino m) (isize m) m \<and> msb m = layout \<and> (\<forall>i. unat i < NINODES \<longrightarrow> isize m i \<le> MAXFILE * BSIZE) \<and>
     0 < unat (freeinode m) \<and> unat (freeinode m) \<le> NINODES \<and> (\<forall>i. freeinode m \<le> i \<longrightarrow> unat i < NINODES \<longrightarrow> isize m i = 0)"

lemma data_frame:
  assumes ok: "files_ok D S m" and b: "\<And>x. unat x < FSSIZE \<Longrightarrow> nmeta \<le> unat x \<Longrightarrow> blk m' x = blk m x"
    and m': "img_len m' = img_len m" "freeblock m' = freeblock m"
  shows "files_ok D S m'" "unat j < NINODES \<Longrightarrow> off < S j \<Longrightarrow> S j \<le> MAXFILE * BSIZE \<Longrightarrow> file_byte m' (D j) off = file_byte m (D j) off"
proof -
  note ok' = files_okD [OF ok]
  have blk': "blk m' (slot_addr m (D j) k) = blk m (slot_addr m (D j) k)" if "unat j < NINODES" "k < NSLOT" "slot_addr m (D j) k \<noteq> 0" for j k
    using slots_okD (1,2) [OF ok'(2) that] ok'(4) by (intro b) simp_all
  have s: "slot_addr m' (D j) k = slot_addr m (D j) k" if "unat j < NINODES" for j k
  proof -
    have nd: "slot_addr m (D j) NDIRECT = di_addrs (D j) NDIRECT" "NDIRECT < NSLOT" by (simp_all add: slot_addr_def NSLOT_def MAXFILE_def)
    show ?thesis using blk' [OF that nd(2), unfolded nd(1)] by (simp add: slot_addr_def)
  qed
  have "blocks_ok m'" using ok'(1) b m' by (auto simp: blocks_ok_def word_le_nat_alt)
  then show "files_ok D S m'" using ok'(2) ok unfolding files_ok_def slots_ok_def m' by (simp add: s cong: conj_cong imp_cong)
  show "unat j < NINODES \<Longrightarrow> off < S j \<Longrightarrow> S j \<le> MAXFILE * BSIZE \<Longrightarrow> file_byte m' (D j) off = file_byte m (D j) off"
    using blk' s by (intro file_byte_kept [OF _ ok]) auto
qed

lemma iblock_meta: "unat i < NINODES \<Longrightarrow> unat (IBLOCK i layout) < nmeta" "unat i < NINODES \<Longrightarrow> unat (IBLOCK i layout) < FSSIZE"
  using iblock_range [of i] by (simp_all add: layout_values)

lemma map_upt_append:
  assumes "\<And>j. j < a \<Longrightarrow> f j = g j" "\<And>j. j < length p \<Longrightarrow> f (a + j) = p ! j"
  shows "map f [0..<a + length p] = map g [0..<a] @ p"
proof -
  have "map f [a..<a + length p] = p" using assms(2) by (intro nth_equalityI) auto
  then show ?thesis using assms(1) upt_add_eq_append [of 0 a "length p"] by simp
qed

definition appends :: "uint32 \<Rightarrow> uint8 list \<Rightarrow> mkfs \<Rightarrow> mkfs \<Rightarrow> bool" where
  "appends i p m m' \<longleftrightarrow> image_ok m' \<and> contents m' i = contents m i @ p \<and>
    (\<forall>j. unat j < NINODES \<longrightarrow> j \<noteq> i \<longrightarrow> contents m' j = contents m j) \<and>
    (\<forall>j. unat j < NINODES \<longrightarrow> di_type (dino m' j) = di_type (dino m j) \<and> di_nlink (dino m' j) = di_nlink (dino m j)) \<and>
    freeinode m' = freeinode m \<and> blk m' 1 = blk m 1 \<and>
    unat (freeblock m') + blocks_for (length (contents m i)) = unat (freeblock m) + blocks_for (length (contents m i) + length p)"

lemma length_contents [simp]: "length (contents m i) = isize m i"
  by (simp add: contents_def)

lemma appends_refl: "image_ok m \<Longrightarrow> appends i [] m m"
  by (simp add: appends_def)

lemma appends_trans: "appends i p m m' \<Longrightarrow> appends i q m' m'' \<Longrightarrow> appends i (p @ q) m m''"
  unfolding appends_def by (auto simp flip: length_contents simp: add.assoc)

lemma iappend_spec:
  assumes ok: "image_ok m" and i: "unat i < unat (freeinode m)" and lim: "isize m i + length p \<le> MAXFILE * BSIZE"
    and room: "unat (freeblock m) + blocks_for (isize m i + length p) \<le> FSSIZE + blocks_for (isize m i)"
  shows "\<exists>m'. iappend i p m = Some m' \<and> appends i p m m'"
proof -
  have fok: "files_ok (dino m) (isize m) m" and sb: "msb m = layout" and i': "unat i < NINODES" and free: "unat (freeinode m) \<le> NINODES" "0 < unat (freeinode m)"
    and sizes: "\<And>i. unat i < NINODES \<Longrightarrow> isize m i \<le> MAXFILE * BSIZE" and fresh: "\<And>i. freeinode m \<le> i \<Longrightarrow> unat i < NINODES \<Longrightarrow> isize m i = 0"
    using ok i by (auto simp: image_ok_def)
  define s where "s = isize m i + length p"
  obtain e where e: "rinode i m = Some e" "cut_addrs e = dino m i" using rinode_spec [OF files_okD(3) [OF fok] sb i'] by blast
  have eb: "slot_addr m e k = slot_addr m (dino m i) k" "file_byte m e k = file_byte m (dino m i) k" for k using e(2) slot_addr_cut file_byte_cut by metis+
  have es: "di_size e = di_size (dino m i)" using e(2) cut_fields(5) by metis
  let ?E = "(dino m)(i := e)"
  have "files_ok ?E (isize m) m" using fok files_ok_cong [of m ?E "dino m" "isize m" "isize m"] eb by simp
  from iappend_from_spec [OF this i' lim] room
  obtain d m1 where a: "iappend_from p (isize m i) e m = Some (s, d, m1)" and x: "extends ?E (isize m) i d s m m1"
    and new: "\<And>j. j < length p \<Longrightarrow> file_byte m1 d (isize m i + j) = p ! j" unfolding s_def by auto
  note x = extendsD [OF x, unfolded fun_upd_upd fun_upd_same]
  let ?d = "d\<lparr>di_size := word_of_nat s\<rparr>" and ?S = "(isize m)(i := s)"
  have d: "di_type d = di_type (dino m i)" "di_nlink d = di_nlink (dino m i)"
    using x(6) e(2) by (metis cut_fields(1) dinode.select_convs(1) dinode.surjective dinode.update_convs(6), metis cut_fields(4) dinode.select_convs(4) dinode.surjective dinode.update_convs(6))
  have len1: "img_len m1 = FSSIZE * BSIZE" by (rule files_okD(3) [OF x(1)])
  obtain m2 where w: "winode i ?d m1 = Some m2" "img_len m2 = img_len m1" "msb m2 = layout" "freeinode m2 = freeinode m" "freeblock m2 = freeblock m1"
    and wb: "\<And>x. unat x < FSSIZE \<Longrightarrow> unat x < 32 \<or> nmeta \<le> unat x \<Longrightarrow> blk m2 x = blk m1 x"
    and wd: "\<And>j. unat j < NINODES \<Longrightarrow> dino m2 j = (if j = i then cut_addrs ?d else dino m1 j)"
    using winode_spec [OF len1 _ i', of ?d] x(3,4) sb len1 by auto
  have dino: "dino m2 j = (if j = i then cut_addrs ?d else dino m j)" if "unat j < NINODES" for j
    unfolding wd [OF that] using x(5) [OF iblock_meta(1) [OF that]] by (simp add: dino_def)
  have slim: "s \<le> MAXFILE * BSIZE" "s < 2 ^ 32" using lim by (simp_all add: s_def MAXFILE_def NINDIRECT_def layout_values)
  have size: "isize m2 j = ?S j" if "unat j < NINODES" for j
    using dino [OF that] slim by (simp add: isize_def unat_of_nat)
  have "files_ok (dino m2) (isize m2) m2 = files_ok ((dino m)(i := d)) ?S m2"
    by (intro files_ok_cong) (auto simp: dino size)
  then have "files_ok (dino m2) (isize m2) m2" using data_frame(1) [OF x(1), of m2, OF wb w(2,5)] by simp
  moreover have "isize m2 j \<le> MAXFILE * BSIZE" if "unat j < NINODES" for j using size [OF that] sizes [OF that] slim by simp
  moreover have "isize m2 j = 0" if "freeinode m \<le> j" "unat j < NINODES" for j
    using size [OF that(2)] fresh [OF that] that i by (auto simp: word_le_nat_alt)
  ultimately have ok2: "image_ok m2" using w(3,4) free by (simp add: image_ok_def)
  have bytes: "file_byte m2 (dino m2 j) o' = file_byte m (dino m j) o'" if "unat j < NINODES" "o' < isize m j" for j o'
  proof -
    have l: "o' < ?S j" "?S j \<le> MAXFILE * BSIZE" using that x(2) sizes [OF that(1)] slim by auto
    have "file_byte m2 (((dino m)(i := d)) j) o' = file_byte m1 (((dino m)(i := d)) j) o'" by (rule data_frame(2) [OF x(1), of m2, OF wb w(2,5) that(1) l]) simp_all
    moreover have "file_byte m1 (((dino m)(i := d)) j) o' = file_byte m (?E j) o'" using x(8) [OF that sizes [OF that(1)]] by simp
    ultimately show ?thesis using dino [OF that(1)] eb by (simp split: if_splits)
  qed
  have newb: "file_byte m2 (dino m2 i) (isize m i + j) = p ! j" if "j < length p" for j
    using data_frame(2) [OF x(1), of m2, OF wb w(2,5) i', of "isize m i + j"] that slim new [OF that] dino [OF i'] by (simp add: s_def)
  have "contents m2 i = contents m i @ p"
    using map_upt_append [OF bytes [OF i'] newb] size [OF i'] by (simp add: contents_def s_def)
  moreover have "contents m2 j = contents m j" if "unat j < NINODES" "j \<noteq> i" for j
    using bytes [OF that(1)] size [OF that(1)] that by (simp add: contents_def)
  moreover have "iappend i p m = Some m2" using e a w(1) es by (simp add: iappend_def isize_def)
  moreover have "di_type (dino m2 j) = di_type (dino m j) \<and> di_nlink (dino m2 j) = di_nlink (dino m j)" if "unat j < NINODES" for j
    using dino [OF that] d by simp
  moreover have "blk m2 1 = blk m 1" using wb [of 1] x(5) [of 1] by (simp add: layout_values)
  ultimately show ?thesis using ok2 w(4,5) x(7) by (auto simp: s_def appends_def)
qed

section \<open>Whole files, directory entries and the bitmap\<close>

lemma ialloc_spec:
  assumes ok: "image_ok m" and i: "unat (freeinode m) < NINODES" and x: "i = freeinode m"
  shows "\<exists>m'. ialloc_m type m = Some (i, m') \<and> image_ok m' \<and> contents m' i = [] \<and> isize m i = 0 \<and>
    di_type (dino m' i) = type \<and> di_nlink (dino m' i) = 1 \<and>
    (\<forall>j. unat j < NINODES \<longrightarrow> j \<noteq> i \<longrightarrow> contents m' j = contents m j \<and> dino m' j = dino m j) \<and>
    unat (freeinode m') = unat (freeinode m) + 1 \<and> blk m' 1 = blk m 1 \<and> freeblock m' = freeblock m"
proof -
  have fok: "files_ok (dino m) (isize m) m" and sb: "msb m = layout" and i': "unat i < NINODES" and free: "0 < unat (freeinode m)"
    and sizes: "\<And>i. unat i < NINODES \<Longrightarrow> isize m i \<le> MAXFILE * BSIZE" and fresh: "\<And>i. freeinode m \<le> i \<Longrightarrow> unat i < NINODES \<Longrightarrow> isize m i = 0"
    using ok i x by (auto simp: image_ok_def)
  have fi: "unat (freeinode m + 1) = unat (freeinode m) + 1" using i by (simp add: NINODES_def unat_word_ariths)
  let ?d = "\<lparr>di_type = type, di_major = 0, di_minor = 0, di_nlink = 1, di_size = 0, di_addrs = (\<lambda>_. 0)\<rparr>" and ?m = "m\<lparr>freeinode := freeinode m + 1\<rparr>"
  obtain m2 where w: "winode i ?d ?m = Some m2" "img_len m2 = img_len m" "msb m2 = layout" "freeinode m2 = freeinode m + 1" "freeblock m2 = freeblock m"
    and wb: "\<And>x. unat x < FSSIZE \<Longrightarrow> unat x < 32 \<or> nmeta \<le> unat x \<Longrightarrow> blk m2 x = blk m x"
    and wd: "\<And>j. unat j < NINODES \<Longrightarrow> dino m2 j = (if j = i then cut_addrs ?d else dino ?m j)"
    using winode_spec [of ?m i ?d] files_okD(3) [OF fok] sb i' by auto
  have dino: "dino m2 j = (if j = i then cut_addrs ?d else dino m j)" if "unat j < NINODES" for j
    using wd [OF that] by (simp add: dino_def)
  have size: "isize m2 j = isize m j" if "unat j < NINODES" for j
    using dino [OF that] fresh [of i] i' x by (simp add: isize_def)
  have zero: "slot_addr m2 (dino m i) k = 0 \<and> slot_addr m2 ?d k = 0" if "k < NSLOT" for k
    using files_okD(5) [OF data_frame(1) [OF fok, of m2, OF wb w(2,5)] i' that] fresh [of i] i' x by (auto simp: needed_def slot_addr_def)
  have "files_ok (dino m2) (isize m2) m2 = files_ok (dino m) (isize m) m2"
    by (intro files_ok_cong) (use zero in \<open>auto simp: dino size\<close>)
  then have "files_ok (dino m2) (isize m2) m2" using data_frame(1) [OF fok, of m2, OF wb w(2,5)] by simp
  moreover have "isize m2 j = 0" if "freeinode m + 1 \<le> j" "unat j < NINODES" for j
    using size [OF that(2)] fresh [of j] that fi by (simp add: word_le_nat_alt)
  ultimately have "image_ok m2" using w(3,4) size sizes fi i by (simp add: image_ok_def)
  moreover have "contents m2 j = contents m j" if "unat j < NINODES" "j \<noteq> i" for j
  proof -
    have "file_byte m2 (dino m j) o' = file_byte m (dino m j) o'" if "o' < isize m j" for o'
      by (rule data_frame(2) [OF fok, of m2, OF wb w(2,5) \<open>unat j < NINODES\<close> that sizes [OF \<open>unat j < NINODES\<close>]]) simp_all
    then show ?thesis using dino [OF that(1)] size [OF that(1)] that(2) by (simp add: contents_def)
  qed
  ultimately show ?thesis
    using w dino [OF i'] dino size [OF i'] fresh [of i] i' x fi wb [of 1] by (auto simp: ialloc_m_def contents_def FSSIZE_def)
qed

lemma iappend_file_spec:
  assumes "image_ok m" "unat i < unat (freeinode m)" "isize m i + length p \<le> MAXFILE * BSIZE"
    and "unat (freeblock m) + blocks_for (isize m i + length p) \<le> FSSIZE + blocks_for (isize m i)"
  shows "\<exists>m'. iappend_file i p m = Some m' \<and> appends i p m m'"
  using assms
proof (induction "length p" arbitrary: p m rule: less_induct)
  case less
  show ?case
  proof (cases "p = []")
    case True
    then show ?thesis using appends_refl less.prems(1) by (auto simp: iappend_file.simps)
  next
    case False
    define c where "c = take BSIZE p"
    have c: "length c \<le> length p" "length c + length (drop BSIZE p) = length p" "length (drop BSIZE p) < length p"
      using False by (auto simp: c_def BSIZE_def)
    have "unat (freeblock m) + blocks_for (isize m i + length c) \<le> FSSIZE + blocks_for (isize m i)"
      using less.prems(4) blocks_for_mono [of "isize m i + length c" "isize m i + length p"] c by simp
    then obtain m1 where 1: "iappend i c m = Some m1" "appends i c m m1"
      using iappend_spec [OF less.prems(1,2), of c] less.prems(3) c by auto
    have s: "isize m1 i = isize m i + length c" using 1(2) by (simp add: appends_def flip: length_contents)
    then obtain m2 where 2: "iappend_file i (drop BSIZE p) m1 = Some m2" "appends i (drop BSIZE p) m1 m2"
      using less.hyps [OF c(3), of m1] less.prems(2-4) 1(2) c by (auto simp: appends_def add.assoc)
    have "iappend_file i p m = Some m2"
      using False 1 2 by (subst iappend_file.simps) (simp add: c_def)
    moreover have "appends i p m m2" using appends_trans [OF 1(2) 2(2)] by (simp add: c_def)
    ultimately show ?thesis by blast
  qed
qed

lemma length_dirent_bytes [simp]: "length (dirent_bytes i s) = sizeof_dirent"
  by (simp add: dirent_bytes_def sizeof_dirent_def)

text \<open>The directory entries and the space that the files of the command line take.\<close>

definition entry_name :: "uint8 list \<Rightarrow> uint8 list" where
  "entry_name name = skip_underscore (shortname name)"

fun dirents :: "nat \<Rightarrow> uint8 list list \<Rightarrow> uint8 list" where
  "dirents n [] = []"
| "dirents n (name # names) = dirent_bytes (word_of_nat n) (entry_name name) @ dirents (n + 1) names"

definition file_fits :: "(uint8 list \<Rightarrow> uint8 list option) \<Rightarrow> uint8 list \<Rightarrow> bool" where
  "file_fits host name \<longleftrightarrow> 47 \<notin> set (shortname name) \<and> length (entry_name name) \<le> DIRSIZ \<and>
     (case host name of Some c \<Rightarrow> length c \<le> MAXFILE * BSIZE | None \<Rightarrow> False)"

definition file_blocks :: "(uint8 list \<Rightarrow> uint8 list option) \<Rightarrow> uint8 list \<Rightarrow> nat" where
  "file_blocks host name = blocks_for (length (the (host name)))"

lemma length_dirents [simp]: "length (dirents n names) = sizeof_dirent * length names"
  by (induction n names rule: dirents.induct) simp_all

lemma add_one:
  assumes ok: "image_ok m" and r: "unat r < unat (freeinode m)" and fits: "file_fits host name" and c: "host name = Some c"
    and i: "unat (freeinode m) < NINODES" "i = freeinode m"
    and lim: "isize m r + sizeof_dirent \<le> MAXFILE * BSIZE"
    and room: "unat (freeblock m) + file_blocks host name + blocks_for (isize m r + sizeof_dirent) \<le> FSSIZE + blocks_for (isize m r)"
  shows "\<exists>m'. add_files host r (name # names) m = add_files host r names m' \<and> image_ok m' \<and>
    contents m' r = contents m r @ dirent_bytes (ucast i) (entry_name name) \<and>
    contents m' i = c \<and> di_type (dino m' i) = T_FILE \<and> di_nlink (dino m' i) = 1 \<and>
    (\<forall>j. unat j < unat i \<longrightarrow> di_type (dino m' j) = di_type (dino m j) \<and> di_nlink (dino m' j) = di_nlink (dino m j) \<and> (j \<noteq> r \<longrightarrow> contents m' j = contents m j)) \<and>
    unat (freeinode m') = unat (freeinode m) + 1 \<and> blk m' 1 = blk m 1 \<and>
    unat (freeblock m') + blocks_for (isize m r) = unat (freeblock m) + file_blocks host name + blocks_for (isize m r + sizeof_dirent)"
proof -
  have ri: "r \<noteq> i" "unat r < NINODES" "unat i < NINODES" using r i by auto
  obtain m1 where 1: "ialloc_m T_FILE m = Some (i, m1)" "image_ok m1" "contents m1 i = []"
      "di_type (dino m1 i) = T_FILE" "di_nlink (dino m1 i) = 1" "unat (freeinode m1) = unat (freeinode m) + 1" "blk m1 1 = blk m 1" "freeblock m1 = freeblock m"
    and 1: "\<And>j. unat j < NINODES \<Longrightarrow> j \<noteq> i \<Longrightarrow> contents m1 j = contents m j \<and> dino m1 j = dino m j"
    using ialloc_spec [OF ok i] by blast
  note 1 = \<open>ialloc_m T_FILE m = Some (i, m1)\<close> \<open>image_ok m1\<close> \<open>contents m1 i = []\<close> \<open>di_type (dino m1 i) = T_FILE\<close> \<open>di_nlink (dino m1 i) = 1\<close>
    \<open>unat (freeinode m1) = unat (freeinode m) + 1\<close> \<open>blk m1 1 = blk m 1\<close> \<open>freeblock m1 = freeblock m\<close> 1
  have s1: "isize m1 r = isize m r" "isize m1 i = 0" using 1(9) [OF ri(2,1)] 1(3) by (simp_all flip: length_contents)
  have "unat (freeblock m1) + blocks_for (isize m1 r + sizeof_dirent) \<le> FSSIZE + blocks_for (isize m1 r)" using room s1 1(8) by simp
  then obtain m2 where 2: "iappend r (dirent_bytes (ucast i) (entry_name name)) m1 = Some m2" "appends r (dirent_bytes (ucast i) (entry_name name)) m1 m2"
    using iappend_spec [OF 1(2), of r "dirent_bytes (ucast i) (entry_name name)"] r 1(6) lim s1 by auto
  note a2 = 2(2) [unfolded appends_def]
  have s2: "isize m2 i = 0" using a2 ri 1(3) by (simp flip: length_contents)
  have fb: "blocks_for 0 = 0" by (simp add: blocks_for_def BSIZE_def)
  have "unat (freeblock m2) + blocks_for (length c) \<le> FSSIZE"
    using a2 s1 1(8) room c by (simp add: file_blocks_def)
  then obtain m3 where 3: "iappend_file i c m2 = Some m3" "appends i c m2 m3"
    using iappend_file_spec [of m2 i c] a2 1(6) i s2 fits c fb by (auto simp: file_fits_def)
  note a3 = 3(2) [unfolded appends_def]
  have "add_files host r (name # names) m = add_files host r names m3"
    using fits c 1(1) 2(1) 3(1) by (simp add: file_fits_def entry_name_def)
  moreover have "contents m3 i = c" using a3 a2 ri 1(3) by simp
  moreover have "contents m3 r = contents m r @ dirent_bytes (ucast i) (entry_name name)" using a3 a2 ri 1(9) by simp
  moreover have "di_type (dino m3 j) = di_type (dino m j) \<and> di_nlink (dino m3 j) = di_nlink (dino m j) \<and> (j \<noteq> r \<longrightarrow> contents m3 j = contents m j)"
    if "unat j < unat i" for j
  proof -
    have "unat j < NINODES" "j \<noteq> i" using that ri by auto
    then show ?thesis using a2 a3 1(9) [of j] by simp
  qed
  moreover have "unat (freeblock m3) + blocks_for (isize m r) = unat (freeblock m) + file_blocks host name + blocks_for (isize m r + sizeof_dirent)"
    using a2 a3 s1 s2 1(8) c fb by (simp add: file_blocks_def)
  ultimately show ?thesis using a2 a3 1(4-7) ri by (intro exI [of _ m3]) simp
qed

definition files_added :: "(uint8 list \<Rightarrow> uint8 list option) \<Rightarrow> uint32 \<Rightarrow> uint8 list list \<Rightarrow> mkfs \<Rightarrow> mkfs \<Rightarrow> bool" where
  "files_added host r names m m' \<longleftrightarrow> image_ok m' \<and> contents m' r = contents m r @ dirents (unat (freeinode m)) names \<and>
    (\<forall>k < length names. let i = word_of_nat (unat (freeinode m) + k) in
       host (names ! k) = Some (contents m' i) \<and> di_type (dino m' i) = T_FILE \<and> di_nlink (dino m' i) = 1) \<and>
    (\<forall>j. unat j < unat (freeinode m) \<longrightarrow> di_type (dino m' j) = di_type (dino m j) \<and> di_nlink (dino m' j) = di_nlink (dino m j) \<and> (j \<noteq> r \<longrightarrow> contents m' j = contents m j)) \<and>
    unat (freeinode m') = unat (freeinode m) + length names \<and> blk m' 1 = blk m 1 \<and>
    unat (freeblock m') + blocks_for (isize m r) =
      unat (freeblock m) + sum_list (map (file_blocks host) names) + blocks_for (isize m r + sizeof_dirent * length names)"

lemma add_files_spec:
  assumes "image_ok m" "unat r < unat (freeinode m)" "list_all (file_fits host) names" "unat (freeinode m) + length names \<le> NINODES"
    and "isize m r + sizeof_dirent * length names \<le> MAXFILE * BSIZE"
    and "unat (freeblock m) + sum_list (map (file_blocks host) names) + blocks_for (isize m r + sizeof_dirent * length names) \<le> FSSIZE + blocks_for (isize m r)"
  shows "\<exists>m'. add_files host r names m = Some m' \<and> files_added host r names m m'"
  using assms
proof (induction names arbitrary: m)
  case (Cons name names)
  obtain c where c: "host name = Some c" using Cons.prems(3) by (auto simp: file_fits_def split: option.splits)
  define i where "i = freeinode m"
  have mono: "blocks_for (isize m r + sizeof_dirent) \<le> blocks_for (isize m r + sizeof_dirent * length (name # names))"
    by (rule blocks_for_mono) simp
  have pre: "file_fits host name" "unat (freeinode m) < NINODES" "isize m r + sizeof_dirent \<le> MAXFILE * BSIZE"
    "unat (freeblock m) + file_blocks host name + blocks_for (isize m r + sizeof_dirent) \<le> FSSIZE + blocks_for (isize m r)"
    using Cons.prems(3-6) mono by simp_all
  from add_one [OF Cons.prems(1,2) pre(1) c pre(2) i_def pre(3,4), of names]
  obtain m1 where 1: "add_files host r (name # names) m = add_files host r names m1" "image_ok m1"
    "contents m1 r = contents m r @ dirent_bytes (ucast i) (entry_name name)" "contents m1 i = c" "di_type (dino m1 i) = T_FILE" "di_nlink (dino m1 i) = 1"
    "unat (freeinode m1) = unat (freeinode m) + 1" "blk m1 1 = blk m 1"
    "unat (freeblock m1) + blocks_for (isize m r) = unat (freeblock m) + file_blocks host name + blocks_for (isize m r + sizeof_dirent)"
    "\<forall>j. unat j < unat i \<longrightarrow> di_type (dino m1 j) = di_type (dino m j) \<and> di_nlink (dino m1 j) = di_nlink (dino m j) \<and> (j \<noteq> r \<longrightarrow> contents m1 j = contents m j)"
    by blast
  have s: "isize m1 r = isize m r + sizeof_dirent" using 1(3) by (simp flip: length_contents)
  have "\<exists>m'. add_files host r names m1 = Some m' \<and> files_added host r names m1 m'"
    using Cons.prems(2-6) 1(2,7,9) s by (intro Cons.IH) (simp_all add: algebra_simps)
  then obtain m2 where m2: "add_files host r names m1 = Some m2" "files_added host r names m1 m2" by blast
  note 2 = m2(2) [unfolded files_added_def]
  have ri: "r \<noteq> i" using Cons.prems(2) by (auto simp: i_def)
  have iw: "word_of_nat (unat i) = i" "(ucast i :: uint16) = word_of_nat (unat i)" by (simp_all add: unsigned_of_nat)
  have "let i = word_of_nat (unat (freeinode m) + k) in
       host ((name # names) ! k) = Some (contents m2 i) \<and> di_type (dino m2 i) = T_FILE \<and> di_nlink (dino m2 i) = 1" if "k < length (name # names)" for k
  proof (cases k)
    case 0
    then show ?thesis using 2 1(4-7) c ri iw by (simp add: i_def)
  next
    case (Suc k')
    then show ?thesis using 2 1(7) that by (simp add: Let_def)
  qed
  moreover have "contents m2 r = contents m r @ dirents (unat (freeinode m)) (name # names)"
    using 2 1(3,7) iw by (simp add: i_def)
  ultimately have "files_added host r (name # names) m m2"
    unfolding files_added_def using 1(7-10) 2 s by (simp add: i_def algebra_simps)
  then show ?case using 1(1) m2(1) by auto
qed (simp add: files_added_def)

section \<open>The finished image\<close>

lemma zero_sectors:
  "n \<le> FSSIZE \<Longrightarrow> fold (\<lambda>i. wsect (word_of_nat i) (\<lambda>_. 0)) [0..<n] \<lparr>img = (\<lambda>_ _. 0), img_len = 0, msb = s, freeinode = a, freeblock = b\<rparr> =
    \<lparr>img = (\<lambda>_ _. 0), img_len = n * BSIZE, msb = s, freeinode = a, freeblock = b\<rparr>"
proof (induction n)
  case (Suc n)
  then have "sect_off (word_of_nat n) = n * BSIZE" by (subst sect_off_eq) (simp_all add: FSSIZE_def unat_of_nat)
  then show ?case using Suc by (simp add: wsect_def fun_eq_iff)
qed simp

lemma mkfs_empty_eq:
  "img_len mkfs_empty = FSSIZE * BSIZE" "msb mkfs_empty = layout" "freeinode mkfs_empty = 1" "freeblock mkfs_empty = word_of_nat nmeta"
  "unat x < FSSIZE \<Longrightarrow> blk mkfs_empty x = (if x = 1 then put_superblock layout (\<lambda>_. 0) else (\<lambda>_. 0))"
proof -
  let ?m = "\<lparr>img = (\<lambda>_ _. 0), img_len = FSSIZE * BSIZE, msb = layout, freeinode = 1, freeblock = word_of_nat nmeta\<rparr>"
  have *: "mkfs_empty = wsect 1 (put_superblock layout (\<lambda>_. 0)) ?m" by (simp add: mkfs_empty_def zero_sectors)
  show "img_len mkfs_empty = FSSIZE * BSIZE" unfolding * by (rule img_len_wsect) (simp_all add: FSSIZE_def)
  show "msb mkfs_empty = layout" "freeinode mkfs_empty = 1" "freeblock mkfs_empty = word_of_nat nmeta" unfolding * by simp_all
  show "unat x < FSSIZE \<Longrightarrow> blk mkfs_empty x = (if x = 1 then put_superblock layout (\<lambda>_. 0) else (\<lambda>_. 0))"
    unfolding * by (simp add: blk_wsect FSSIZE_def) (simp add: blk_def)
qed

lemma get_put_superblock: "get_superblock (put_superblock s f) = s"
proof -
  have o: "get32 (put32 k v f) l = get32 f l" if "k + 4 \<le> l \<or> l + 4 \<le> k" for k l v f using that by (intro get32_cong) (auto simp: put32_def)
  show ?thesis by (rule superblock.equality) (simp_all add: get_superblock_def put_superblock_def get32_put32 o)
qed

lemma dino_empty: "unat i < NINODES \<Longrightarrow> dino mkfs_empty i = \<lparr>di_type = 0, di_major = 0, di_minor = 0, di_nlink = 0, di_size = 0, di_addrs = (\<lambda>_. 0)\<rparr>"
proof -
  assume i: "unat i < NINODES"
  have "get16 (\<lambda>_. 0) k = 0" "get32 (\<lambda>_. 0) k = 0" for k unfolding get16_def get32_def by (rule le_word_zero, simp)+
  moreover have "IBLOCK i layout \<noteq> 1" using iblock_range [OF i] by (metis le_add1 not_less numeral_One numeral_less_iff semiring_norm(76) unat_1)
  ultimately have "blk mkfs_empty (IBLOCK i layout) = (\<lambda>_. 0)" "cut_addrs (get_dinode (\<lambda>_. 0) k) = \<lparr>di_type = 0, di_major = 0, di_minor = 0, di_nlink = 0, di_size = 0, di_addrs = (\<lambda>_. 0)\<rparr>" for k
    using mkfs_empty_eq(5) [OF iblock_meta(2) [OF i]] by (simp_all add: cut_addrs_def get_dinode_def fun_eq_iff)
  then show ?thesis by (simp add: dino_def)
qed

lemma image_ok_empty: "image_ok mkfs_empty"
proof -
  have z: "slot_addr mkfs_empty (dino mkfs_empty i) k = 0" "isize mkfs_empty i = 0" if "unat i < NINODES" for i k
    using dino_empty [OF that] by (simp_all add: slot_addr_def isize_def)
  have fb: "unat (freeblock mkfs_empty) = 46" by (simp add: mkfs_empty_eq nmeta_eq)
  have "blocks_ok mkfs_empty"
    unfolding blocks_ok_def using fb by (auto simp: mkfs_empty_eq(1) mkfs_empty_eq(5) nmeta_eq FSSIZE_def word_le_nat_alt)
  moreover have "slots_ok (\<lambda>i. slot_addr mkfs_empty (dino mkfs_empty i)) b" for b by (auto simp: slots_ok_def z)
  ultimately show ?thesis
    by (auto simp: image_ok_def files_ok_def z needed_def mkfs_empty_eq NINODES_def)
qed

lemma bit_balloc_buf: "j < 8 \<Longrightarrow> bit (balloc_buf n x) j \<longleftrightarrow> 8 * x + j < n"
proof (induction n)
  case (Suc n)
  have *: "balloc_buf (Suc n) x = (if x = n div 8 then balloc_buf n x OR push_bit (n mod 8) 1 else balloc_buf n x)" by (simp add: balloc_buf_def)
  have "n = 8 * x + j \<longleftrightarrow> x = n div 8 \<and> j = n mod 8" using Suc.prems by auto
  then show ?case unfolding * using Suc by (auto simp: bit_or_iff bit_exp_iff less_Suc_eq)
qed (simp add: balloc_buf_def)

text \<open>The test of the kernel's \<^verbatim>\<open>balloc\<close> and \<^verbatim>\<open>bfree\<close>.\<close>

lemma bit_mask_test: "w AND bit_mask b = 0 \<longleftrightarrow> \<not> bit w (b mod 8)"
proof
  assume "w AND bit_mask b = 0"
  then have "\<not> bit (w AND bit_mask b) (b mod 8)" by simp
  then show "\<not> bit w (b mod 8)" by (simp add: bit_mask_def bit_and_iff bit_exp_iff)
next
  assume "\<not> bit w (b mod 8)"
  then show "w AND bit_mask b = 0" by (intro bit_word_eqI) (auto simp: bit_mask_def bit_and_iff bit_exp_iff)
qed

lemma fix_root_spec:
  assumes ok: "image_ok m" and i: "unat i < NINODES"
  shows "\<exists>m'. fix_root_size i m = Some m' \<and> img_len m' = FSSIZE * BSIZE \<and> msb m' = layout \<and> freeblock m' = freeblock m \<and>
    (\<forall>j. unat j < NINODES \<longrightarrow> di_type (dino m' j) = di_type (dino m j) \<and> di_nlink (dino m' j) = di_nlink (dino m j) \<and>
       (\<forall>x k. slot_addr x (dino m' j) k = slot_addr x (dino m j) k) \<and>
       isize m' j = (if j = i then (isize m i div BSIZE + 1) * BSIZE else isize m j)) \<and>
    (\<forall>x. unat x < FSSIZE \<longrightarrow> unat x < 32 \<or> nmeta \<le> unat x \<longrightarrow> blk m' x = blk m x)"
proof -
  have m: "img_len m = FSSIZE * BSIZE" "msb m = layout" and s: "isize m i \<le> MAXFILE * BSIZE"
    using ok i files_okD(3) by (auto simp: image_ok_def)
  obtain e where e: "rinode i m = Some e" "cut_addrs e = dino m i" using rinode_spec [OF m i] by blast
  have e': "di_size e = di_size (dino m i)" "di_type e = di_type (dino m i)" "di_nlink e = di_nlink (dino m i)" "slot_addr x e k = slot_addr x (dino m i) k" for x k
    using e(2) cut_fields slot_addr_cut by metis+
  define off where "off = (di_size e div word_of_nat BSIZE + 1) * word_of_nat BSIZE"
  have "unat off = (isize m i div BSIZE + 1) * BSIZE"
  proof -
    have "unat (di_size e) = isize m i" using e'(1) by (simp add: isize_def)
    moreover have "isize m i div 1024 \<le> 268" using s by (simp add: MAXFILE_def NINDIRECT_def NDIRECT_def BSIZE_def)
    ultimately show ?thesis by (simp add: off_def BSIZE_def unat_word_ariths unat_div)
  qed
  moreover obtain m' where w: "winode i (e\<lparr>di_size := off\<rparr>) m = Some m'" "img_len m' = FSSIZE * BSIZE" "msb m' = layout" "freeblock m' = freeblock m"
    "\<forall>x. unat x < FSSIZE \<longrightarrow> unat x < 32 \<or> nmeta \<le> unat x \<longrightarrow> blk m' x = blk m x"
    and d: "\<And>j. unat j < NINODES \<Longrightarrow> dino m' j = (if j = i then cut_addrs (e\<lparr>di_size := off\<rparr>) else dino m j)"
    using winode_spec [OF m i, of "e\<lparr>di_size := off\<rparr>"] by blast
  moreover from w have "fix_root_size i m = Some m'" using e(1) by (simp add: fix_root_size_def off_def)
  ultimately show ?thesis
    using e' by (intro exI [of _ m']) (auto simp: d isize_def)
qed

lemma sint_small: "unat (x :: uint32) \<le> 2000 \<Longrightarrow> sint x = int (unat x)"
proof -
  assume "unat x \<le> 2000"
  then have "uint x < 2147483648" using uint_nat [of x] by linarith
  then show ?thesis unfolding sint_of_uint by simp
qed

lemma balloc_frame:
  assumes "img_len m = FSSIZE * BSIZE" "msb m = layout" "unat (freeblock m) \<le> FSSIZE"
  shows "\<exists>m'. balloc_m (sint (freeblock m)) m = Some m' \<and> freeblock m' = freeblock m \<and> img_len m' = FSSIZE * BSIZE \<and>
    blk m' (sb_bmapstart layout) = balloc_buf (unat (freeblock m)) \<and>
    (\<forall>x. unat x < FSSIZE \<longrightarrow> x \<noteq> sb_bmapstart layout \<longrightarrow> blk m' x = blk m x)"
proof -
  have s: "sint (freeblock m) = int (unat (freeblock m))" using assms(3) by (simp add: sint_small FSSIZE_def)
  have b: "unat (sb_bmapstart layout) < FSSIZE" by (simp add: layout_def layout_values)
  have "int (unat (freeblock m)) < int BPB" using assms(3) by (simp only: of_nat_less_iff BPB_def BSIZE_def FSSIZE_def)
  then have "balloc_m (sint (freeblock m)) m = Some (wsect (sb_bmapstart layout) (balloc_buf (unat (freeblock m))) m)"
    using assms(2) unfolding balloc_m_def s by simp
  then show ?thesis using b assms(1) by (simp add: blk_wsect img_len_wsect)
qed

definition root_entries :: "uint8 list list \<Rightarrow> uint8 list" where
  "root_entries names = dirent_bytes 1 (map of_char ''.'') @ dirent_bytes 1 (map of_char ''..'') @ dirents 2 names"

lemma root_dir_spec:
  assumes "list_all (file_fits host) names" "length names + 2 \<le> NINODES"
    and "nmeta + sum_list (map (file_blocks host) names) + blocks_for (sizeof_dirent * (length names + 2)) \<le> FSSIZE"
  shows "\<exists>m0 m1 m2 m3. ialloc_m T_DIR mkfs_empty = Some (1, m0) \<and> iappend 1 (dirent_bytes 1 (map of_char ''.'')) m0 = Some m1 \<and>
    iappend 1 (dirent_bytes 1 (map of_char ''..'')) m1 = Some m2 \<and> add_files host 1 names m2 = Some m3 \<and>
    image_ok m3 \<and> contents m3 1 = root_entries names \<and> di_type (dino m3 1) = T_DIR \<and> get_superblock (blk m3 1) = layout \<and>
    (\<forall>k < length names. host (names ! k) = Some (contents m3 (word_of_nat (k + 2))) \<and> di_type (dino m3 (word_of_nat (k + 2))) = T_FILE) \<and>
    unat (freeblock m3) = nmeta + sum_list (map (file_blocks host) names) + blocks_for (sizeof_dirent * (length names + 2))"
proof -
  have fb0: "unat (freeblock mkfs_empty) = nmeta" by (simp add: mkfs_empty_eq nmeta_eq)
  have b0: "blocks_for 0 = 0" by (simp add: blocks_for_def BSIZE_def)
  have s: "sizeof_dirent = 16" "MAXFILE * BSIZE = 274432" by (simp_all add: sizeof_dirent_def DIRSIZ_def MAXFILE_def NINDIRECT_def NDIRECT_def BSIZE_def)
  obtain m0 where 0: "ialloc_m T_DIR mkfs_empty = Some (1, m0)" "image_ok m0" "contents m0 1 = []" "di_type (dino m0 1) = T_DIR"
    "unat (freeinode m0) = 2" "blk m0 1 = blk mkfs_empty 1" "freeblock m0 = freeblock mkfs_empty"
    using ialloc_spec [OF image_ok_empty _ refl, of T_DIR] by (auto simp: mkfs_empty_eq(3) NINODES_def)
  let ?a = "dirent_bytes 1 (map of_char ''.'')" and ?b = "dirent_bytes 1 (map of_char ''..'')"
  have z0: "isize m0 1 = 0" using 0(3) by (simp flip: length_contents)
  have small: "blocks_for (sizeof_dirent * k) \<le> blocks_for (sizeof_dirent * (length names + 2))" if "k \<le> 2" for k
    using that by (intro blocks_for_mono mult_le_mono2) simp
  have "unat (freeblock m0) + blocks_for (isize m0 1 + length ?a) \<le> FSSIZE + blocks_for (isize m0 1)"
    using assms(3) small [of 1] 0(7) fb0 z0 by simp
  then obtain m1 where 1: "iappend 1 ?a m0 = Some m1" "appends 1 ?a m0 m1"
    using iappend_spec [OF 0(2), of 1 ?a] 0(5) z0 s by auto
  note a1 = 1(2) [unfolded appends_def]
  have z1: "isize m1 1 = sizeof_dirent" using a1 0(3) by (simp flip: length_contents)
  have "unat (freeblock m1) + blocks_for (isize m1 1 + length ?b) \<le> FSSIZE + blocks_for (isize m1 1)"
    using assms(3) small [of 2] 0(7) fb0 z0 z1 a1 b0 by (simp add: mult_2_right)
  then obtain m2 where 2: "iappend 1 ?b m1 = Some m2" "appends 1 ?b m1 m2"
    using iappend_spec [of m1 1 ?b] a1 0(5) z1 s by auto
  note a2 = 2(2) [unfolded appends_def]
  have z2: "isize m2 1 = sizeof_dirent * 2" using a2 a1 0(3) by (simp add: mult_2_right flip: length_contents)
  have f2: "unat (freeblock m2) = nmeta + blocks_for (isize m2 1)" using a1 a2 0(7) fb0 z0 z1 z2 b0 by (simp add: mult_2_right)
  have len: "isize m2 1 + sizeof_dirent * length names = sizeof_dirent * (length names + 2)" using z2 by simp
  have "\<exists>m3. add_files host 1 names m2 = Some m3 \<and> files_added host 1 names m2 m3"
  proof (rule add_files_spec)
    show "image_ok m2" "unat (1 :: uint32) < unat (freeinode m2)" using a1 a2 0(5) by simp_all
    show "unat (freeinode m2) + length names \<le> NINODES" using a1 a2 0(5) assms(2) by simp
    show "isize m2 1 + sizeof_dirent * length names \<le> MAXFILE * BSIZE" unfolding z2 s using assms(2) by (simp add: NINODES_def)
    show "unat (freeblock m2) + sum_list (map (file_blocks host) names) + blocks_for (isize m2 1 + sizeof_dirent * length names) \<le> FSSIZE + blocks_for (isize m2 1)"
      unfolding len f2 using assms(3) by simp
  qed (rule assms(1))
  then obtain m3 where 3: "add_files host 1 names m2 = Some m3" "files_added host 1 names m2 m3" by blast
  note a3 = 3(2) [unfolded files_added_def]
  have "contents m3 1 = root_entries names" using a3 a2 a1 0(3,5) by (simp add: root_entries_def)
  moreover have "di_type (dino m3 1) = T_DIR" using a3 a2 a1 0(4,5) by (simp add: NINODES_def)
  moreover have "get_superblock (blk m3 1) = layout"
    using a3 a2 a1 0(6) mkfs_empty_eq(5) [of 1] by (simp add: get_put_superblock FSSIZE_def)
  moreover have "host (names ! k) = Some (contents m3 (word_of_nat (k + 2))) \<and> di_type (dino m3 (word_of_nat (k + 2))) = T_FILE" if "k < length names" for k
  proof -
    have "unat (freeinode m2) + k = k + 2" using a1 a2 0(5) by simp
    then show ?thesis using a3 that unfolding Let_def by metis
  qed
  moreover have "unat (freeblock m3) = nmeta + sum_list (map (file_blocks host) names) + blocks_for (sizeof_dirent * (length names + 2))"
    using a3 f2 len by simp
  ultimately show ?thesis using 0(1) 1(1) 2(1) 3(1) a3 by blast
qed

lemma bmap_block: "unat (sb_bmapstart layout) = 45"
  by (simp add: layout_def layout_values)

lemma finish_spec:
  assumes ok: "image_ok m"
  shows "\<exists>m1 m'. fix_root_size 1 m = Some m1 \<and> balloc_m (sint (freeblock m1)) m1 = Some m' \<and> freeblock m' = freeblock m \<and> blk m' 1 = blk m 1 \<and>
    (\<forall>j. unat j < NINODES \<longrightarrow> di_type (dino m' j) = di_type (dino m j) \<and> (j \<noteq> 1 \<longrightarrow> contents m' j = contents m j)) \<and>
    take (isize m 1) (contents m' 1) = contents m 1 \<and>
    slots_ok (\<lambda>i. slot_addr m' (dino m' i)) (unat (freeblock m')) \<and>
    blk m' (sb_bmapstart layout) = balloc_buf (unat (freeblock m))"
proof -
  have fok: "files_ok (dino m) (isize m) m" and sizes: "\<And>i. unat i < NINODES \<Longrightarrow> isize m i \<le> MAXFILE * BSIZE" using ok by (auto simp: image_ok_def)
  have one: "unat (1 :: uint32) < NINODES" by (simp add: NINODES_def)
  obtain m1 where 1: "fix_root_size 1 m = Some m1" "img_len m1 = FSSIZE * BSIZE" "msb m1 = layout" "freeblock m1 = freeblock m"
    and d: "\<forall>j. unat j < NINODES \<longrightarrow> di_type (dino m1 j) = di_type (dino m j) \<and> di_nlink (dino m1 j) = di_nlink (dino m j) \<and>
       (\<forall>x k. slot_addr x (dino m1 j) k = slot_addr x (dino m j) k) \<and> isize m1 j = (if j = 1 then (isize m 1 div BSIZE + 1) * BSIZE else isize m j)"
    and b1: "\<forall>x. unat x < FSSIZE \<longrightarrow> unat x < 32 \<or> nmeta \<le> unat x \<longrightarrow> blk m1 x = blk m x"
    using fix_root_spec [OF ok one] by blast
  obtain m2 where 2: "balloc_m (sint (freeblock m1)) m1 = Some m2" "freeblock m2 = freeblock m1" "img_len m2 = FSSIZE * BSIZE"
    "blk m2 (sb_bmapstart layout) = balloc_buf (unat (freeblock m1))" and b2: "\<forall>x. unat x < FSSIZE \<longrightarrow> x \<noteq> sb_bmapstart layout \<longrightarrow> blk m2 x = blk m1 x"
    using balloc_frame [OF 1(2,3)] files_okD(4) [OF fok] 1(4) by auto
  have data: "blk m2 x = blk m x" if "unat x < FSSIZE" "unat x < 32 \<or> nmeta \<le> unat x" for x
    using that b1 b2 bmap_block by (auto simp: nmeta_eq)
  have dino2: "dino m2 j = dino m1 j" if "unat j < NINODES" for j
  proof -
    have "IBLOCK j layout \<noteq> sb_bmapstart layout" using iblock_range [OF that] that bmap_block by (auto simp: NINODES_def)
    then show ?thesis using b2 iblock_meta(2) [OF that] by (simp add: dino_def)
  qed
  have "files_ok (dino m) (isize m) m2" by (rule data_frame(1) [OF fok data]) (use 1 2 files_okD(3) [OF fok] in simp_all)
  note frame = this
  have slots: "slot_addr m2 (dino m2 j) k = slot_addr m2 (dino m j) k" if "unat j < NINODES" for j k
    using d that dino2 [OF that] by simp
  have "slots_ok (\<lambda>i. slot_addr m2 (dino m2 i)) (unat (freeblock m2))"
    using files_okD(2) [OF frame] unfolding slots_ok_def by (simp add: slots cong: conj_cong imp_cong)
  moreover have bytes: "file_byte m2 (dino m2 j) o' = file_byte m (dino m j) o'" if "unat j < NINODES" "o' < isize m j" for j o'
  proof -
    have "file_byte m2 (dino m j) o' = file_byte m (dino m j) o'"
      by (rule data_frame(2) [OF fok data _ _ that sizes [OF that(1)]]) (use 1 2 files_okD(3) [OF fok] in simp_all)
    then show ?thesis using slots [OF that(1)] by (simp add: file_byte_def)
  qed
  have size: "isize m2 j = (if j = 1 then (isize m 1 div BSIZE + 1) * BSIZE else isize m j)" if "unat j < NINODES" for j
    using d that dino2 [OF that] by (simp add: isize_def)
  have "contents m2 j = contents m j" if "unat j < NINODES" "j \<noteq> 1" for j
    using bytes [OF that(1)] size [OF that(1)] that(2) by (simp add: contents_def)
  moreover have "take (isize m 1) (contents m2 1) = contents m 1"
  proof -
    have "isize m 1 \<le> isize m2 1" unfolding size [OF one] by (simp add: BSIZE_def)
    then show ?thesis using bytes [OF one] by (simp add: contents_def take_map)
  qed
  moreover have "blk m2 1 = blk m 1" using data [of 1] by (simp add: FSSIZE_def)
  moreover have "di_type (dino m2 j) = di_type (dino m j)" if "unat j < NINODES" for j using d dino2 [OF that] that by simp
  ultimately show ?thesis using 1(1,4) 2(1,2,4) by auto
qed

text \<open>
  C34. \<^verbatim>\<open>mkfs\<close> builds the file system that the kernel expects. If there are at most 198 files, every file name is
  legal, every file fits and the blocks suffice, it succeeds; the image then has the superblock of the layout, the file of each
  argument with exactly its contents, a root directory that starts with the entries of \<^verbatim>\<open>.\<close>, \<^verbatim>\<open>..\<close> and
  all files, no block in two places, and a bitmap in which the kernel's test finds exactly the blocks
  from \<^verbatim>\<open>freeblock\<close> on to be free, all blocks of files being below it.
\<close>

theorem mkfs_builds_image:
  assumes "creates fsimg" "list_all (file_fits host) names" "length names + 2 \<le> NINODES"
    and "nmeta + sum_list (map (file_blocks host) names) + blocks_for (sizeof_dirent * (length names + 2)) \<le> FSSIZE"
  shows "\<exists>m. mkfs_main creates host (self # fsimg # names) = Some m \<and>
    get_superblock (blk m 1) = layout \<and>
    (\<forall>k < length names. host (names ! k) = Some (contents m (word_of_nat (k + 2))) \<and> di_type (dino m (word_of_nat (k + 2))) = T_FILE) \<and>
    di_type (dino m ROOTINO) = T_DIR \<and> take (sizeof_dirent * (length names + 2)) (contents m ROOTINO) = root_entries names \<and>
    slots_ok (\<lambda>i. slot_addr m (dino m i)) (unat (freeblock m)) \<and>
    unat (freeblock m) = nmeta + sum_list (map (file_blocks host) names) + blocks_for (sizeof_dirent * (length names + 2)) \<and>
    (\<forall>b < FSSIZE. blk m (BBLOCK (word_of_nat b) layout) (b div 8) AND bit_mask b = 0 \<longleftrightarrow> unat (freeblock m) \<le> b)"
proof -
  obtain m0 m1 m2 m3 where run: "ialloc_m T_DIR mkfs_empty = Some (1, m0)" "iappend 1 (dirent_bytes 1 (map of_char ''.'')) m0 = Some m1"
      "iappend 1 (dirent_bytes 1 (map of_char ''..'')) m1 = Some m2" "add_files host 1 names m2 = Some m3"
    and 3: "image_ok m3" "contents m3 1 = root_entries names" "di_type (dino m3 1) = T_DIR" "get_superblock (blk m3 1) = layout"
      "\<forall>k < length names. host (names ! k) = Some (contents m3 (word_of_nat (k + 2))) \<and> di_type (dino m3 (word_of_nat (k + 2))) = T_FILE"
      "unat (freeblock m3) = nmeta + sum_list (map (file_blocks host) names) + blocks_for (sizeof_dirent * (length names + 2))"
    using root_dir_spec [OF assms(2-4)] by blast
  obtain m4 m where 4: "fix_root_size 1 m3 = Some m4" "balloc_m (sint (freeblock m4)) m4 = Some m" "freeblock m = freeblock m3" "blk m 1 = blk m3 1"
      "take (isize m3 1) (contents m 1) = contents m3 1" "slots_ok (\<lambda>i. slot_addr m (dino m i)) (unat (freeblock m))"
      "blk m (sb_bmapstart layout) = balloc_buf (unat (freeblock m3))"
    and d: "\<And>j. unat j < NINODES \<Longrightarrow> di_type (dino m j) = di_type (dino m3 j) \<and> (j \<noteq> 1 \<longrightarrow> contents m j = contents m3 j)"
    using finish_spec [OF 3(1)] by blast
  have "isize m3 1 = length (root_entries names)" using 3(2) by (simp flip: length_contents)
  also have "\<dots> = sizeof_dirent * (length names + 2)" by (simp add: root_entries_def)
  finally have size: "isize m3 1 = sizeof_dirent * (length names + 2)" .
  have "mkfs_main creates host (self # fsimg # names) = Some m"
    using assms(1) run 4(1,2) by (simp add: ROOTINO_def)
  moreover have "host (names ! k) = Some (contents m (word_of_nat (k + 2))) \<and> di_type (dino m (word_of_nat (k + 2))) = T_FILE" if "k < length names" for k
  proof -
    have u: "unat (word_of_nat (k + 2) :: uint32) = k + 2" using that assms(3) by (subst unat_of_nat) (simp add: NINODES_def)
    then have "unat (word_of_nat (k + 2) :: uint32) < NINODES" "(word_of_nat (k + 2) :: uint32) \<noteq> 1" using that assms(3) by (simp, metis One_nat_def add_2_eq_Suc' old.nat.distinct(2) old.nat.inject unat_1)
    then show ?thesis using 3(5) that d by metis
  qed
  moreover have "di_type (dino m ROOTINO) = T_DIR" using d [of 1] 3(3) by (simp add: ROOTINO_def NINODES_def)
  moreover have "blk m (BBLOCK (word_of_nat b) layout) (b div 8) AND bit_mask b = 0 \<longleftrightarrow> unat (freeblock m) \<le> b" if "b < FSSIZE" for b
  proof -
    have "(word_of_nat b :: uint32) div word_of_nat BPB = 0"
      using that by (simp add: word_unat_eq_iff unat_div unat_of_nat FSSIZE_def BPB_def BSIZE_def)
    then have "BBLOCK (word_of_nat b) layout = sb_bmapstart layout" by (simp add: BBLOCK_def)
    moreover have "8 * (b div 8) + b mod 8 = b" by simp
    ultimately show ?thesis using 4(3,7) by (simp add: bit_mask_test bit_balloc_buf not_less del: mult_div_mod_eq)
  qed
  ultimately show ?thesis using 3(2,4,6) 4(3-6) size by (intro exI [of _ m]) (simp add: ROOTINO_def)
qed

theorem mkfs_builds_image_witness:
  "\<exists>m. mkfs_main (\<lambda>_. True) (\<lambda>_. Some [7, 8]) [[109], [105], [95, 97]] = Some m \<and> contents m 2 = [7, 8] \<and>
    take 48 (contents m ROOTINO) = root_entries [[95, 97]] \<and> unat (freeblock m) = 48"
proof -
  have f: "file_fits (\<lambda>_. Some [7, 8]) [95, 97]" "entry_name [95, 97] = [97]"
    by (simp_all add: file_fits_def entry_name_def shortname_def skip_underscore_def DIRSIZ_def MAXFILE_def BSIZE_def NDIRECT_def)
  have b: "file_blocks (\<lambda>_. Some [7, 8]) [95, 97] = 1" "blocks_for 48 = 1"
    by (simp_all add: file_blocks_def blocks_for_def BSIZE_def NDIRECT_def)
  show ?thesis
    using mkfs_builds_image [of "\<lambda>_. True" "[105]" "\<lambda>_. Some [7, 8]" "[[95, 97]]" "[109]"] f b
    by (auto simp: NINODES_def nmeta_eq FSSIZE_def sizeof_dirent_def DIRSIZ_def)
qed

end
