(* ===== verification/Spec2Isabelle.thy ===== *)
theory Spec2Isabelle
  imports LockProtocol Trap InodeDisk PipeMemory Grep Coreutils Sh Umalloc Boot Mkfs
begin

text \<open>
  A verification library for the xv6 teaching system: the kernel under \<^verbatim>\<open>src/kernel\<close>, the user programs
  under \<^verbatim>\<open>src/user\<close> and \<^verbatim>\<open>mkfs\<close>, which builds the disk image.

  \<^bold>\<open>The program.\<close> xv6 is a small Unix for RISC-V multiprocessors. Spin locks and interrupt nesting
  are at the bottom; above them come the page allocator, Sv39 virtual memory, processes with
  scheduling and sleep locks, the console, the disk driver, a buffer cache, a write-ahead log,
  the file system, open files and pipes, program loading, system calls and traps. Each layer
  calls the ones below it and adds its own global variables. The user programs reach the kernel
  through system calls only.

  \<^bold>\<open>State and outcomes.\<close> The global variables of a layer are the fields of a record that extends the
  record of the layer below: \<open>machine\<close> (\<open>Machine\<close>), \<open>phys\<close> (\<open>Kalloc\<close>), \<open>kvm\<close> (\<open>Vm\<close>), \<open>ksched\<close> (\<open>Sched\<close>),
  \<open>kio\<close> (\<open>Console\<close>), \<open>vdisk\<close> (\<open>Virtio\<close>), \<open>klog\<close> (\<open>Log\<close>), \<open>fsys\<close> (\<open>Fs\<close>), \<open>kfile\<close> (\<open>File\<close>) and \<open>kproc\<close> (\<open>Proc\<close>).
  A C function is a function of such a record; it returns \<open>Inr\<close> with its result and the new state, or
  \<open>Inl\<close> with a panic, a spin lock that no one will release (\<open>Spins\<close>), a call of \<^verbatim>\<open>sleep\<close> (\<open>Sleeps\<close>) or an
  access that C leaves undefined (\<open>Fault\<close>). Machine integers keep their width; memory is a function
  from 64-bit addresses to bytes. The hardware outside the CPU (UART, disk, interrupt controller)
  is a function field of the state, so that every statement holds for every behaviour of it that
  the statement's hypotheses allow. The user programs work on their own memory and on a record of
  functions for the system calls (\<open>Ulib\<close>), a parameter because the stubs are generated by the
  build; \<^verbatim>\<open>sbrk\<close> is a parameter of \<open>Umalloc\<close>, and the host's files are one of \<open>Mkfs\<close>. Helper definitions, such as
  the body of a loop, belong to the lines of the function they are part of.

  \<^bold>\<open>The theories.\<close>
  \<^item> \<open>Prelude\<close>: words, outcomes, table searches. \<open>Ring\<close>: ring buffers with wrapping counters as queues.
  \<^item> \<open>ListHead\<close>: \<^verbatim>\<open>list.h\<close>. Operations on pointers are related to operations on lists of nodes;
    loops over a list end and visit its nodes.
  \<^item> \<open>Machine\<close>: \<^verbatim>\<open>spinlock.c\<close> as one CPU executes it. \<open>LockProtocol\<close>: the same code cut at its atomic
    instructions, interleaved by any number of CPUs; mutual exclusion, and that the history of events of every
    schedule is a history of an abstract mutex.
  \<^item> \<open>CString\<close>: \<^verbatim>\<open>string.c\<close>. \<open>Riscv\<close>: the macros of \<^verbatim>\<open>riscv.h\<close> and \<^verbatim>\<open>memlayout.h\<close>.
  \<^item> \<open>Kalloc\<close>: \<^verbatim>\<open>kalloc.c\<close>, with the free list in the free pages; the contract of a page allocator.
  \<^item> \<open>Vm\<close>: \<^verbatim>\<open>vm.c\<close>. \<open>PageTable\<close> and \<open>UserMemory\<close>: page tables as trees, mapping and unmapping, growing
    with rollback when memory is short, checked copying to and from user space.
  \<^item> \<open>Sched\<close>: \<^verbatim>\<open>sleep\<close>, \<^verbatim>\<open>wakeup\<close>, switching and \<^verbatim>\<open>sleeplock.c\<close>. Code around \<^verbatim>\<open>swtch\<close> is in two parts.
  \<^item> \<open>Console\<close>: \<^verbatim>\<open>uart.c\<close>, \<^verbatim>\<open>console.c\<close>, \<^verbatim>\<open>printf.c\<close>, \<^verbatim>\<open>debug.c\<close>. Output keeps its order, line input refines an
    abstract line editor, numbers are printed correctly.
  \<^item> \<open>Virtio\<close>: \<^verbatim>\<open>virtio_disk.c\<close> and the device's side of the queue. \<open>Bio\<close>: \<^verbatim>\<open>bio.c\<close>. \<open>Log\<close>: \<^verbatim>\<open>log.c\<close>. \<open>Fs\<close>: \<^verbatim>\<open>fs.c\<close>;
    paths are split into their elements. \<open>InodeDisk\<close>: an inode written back by \<^verbatim>\<open>iupdate\<close> is the inode that \<^verbatim>\<open>ilock\<close>
    reads, through the buffer cache and the log.
  \<^item> \<open>File\<close>: \<^verbatim>\<open>file.c\<close> and \<^verbatim>\<open>pipe.c\<close>; pipes as queues of bytes. \<open>PipeMemory\<close>: \<^verbatim>\<open>piperead\<close> delivers
    the bytes of the queue to user memory. \<open>Proc\<close>: the rest of \<^verbatim>\<open>proc.c\<close>. \<open>Exec\<close>:
    \<^verbatim>\<open>exec.c\<close>. \<open>Syscall\<close>: \<^verbatim>\<open>syscall.c\<close>, \<^verbatim>\<open>sysproc.c\<close>, \<^verbatim>\<open>sysfile.c\<close>. \<open>Trap\<close>: \<^verbatim>\<open>trap.c\<close>, \<^verbatim>\<open>trampoline.S\<close>,
    \<^verbatim>\<open>kernelvec.S\<close>, \<^verbatim>\<open>plic.c\<close> and \<^verbatim>\<open>main.c\<close>; registers survive a trap. \<open>Boot\<close>: \<^verbatim>\<open>entry.S\<close>, \<^verbatim>\<open>start.c\<close> and the
    control registers, up to the entry of \<^verbatim>\<open>main\<close> in supervisor mode; also \<^verbatim>\<open>slab.c\<close>.
  \<^item> \<open>Ulib\<close>: \<^verbatim>\<open>ulib.c\<close> and the user's \<^verbatim>\<open>printf.c\<close>. \<open>Grep\<close>: \<^verbatim>\<open>grep.c\<close>; the matcher decides the language of its
    pattern and the program prints the matching lines. \<open>Coreutils\<close>: the other small programs, with the counts
    of \<^verbatim>\<open>wc\<close>. \<open>Sh\<close>: \<^verbatim>\<open>sh.c\<close>; parsing always returns and the words are those of the line. \<open>Umalloc\<close>: \<^verbatim>\<open>umalloc.c\<close>,
    definitions only.
  \<^item> \<open>Mkfs\<close>: \<^verbatim>\<open>mkfs.c\<close>; the image has the files, the root directory and the bitmap that the kernel expects.

  \<^bold>\<open>Bounds and fuel.\<close> Loops over fixed tables are recursions over the table. \<^verbatim>\<open>freewalk\<close> has a depth
  argument; three is the depth of every page table. The shell's parser has a
  depth argument as well, \<open>parse_depth\<close>, four for each character of the line and four more, which is shown to be enough. Loops that a damaged structure could
  prolong for ever, and the loops of user programs over the results of \<^verbatim>\<open>read\<close>, are partial functions
  whose result \<open>None\<close> is not returning.

  \<^bold>\<open>Not modelled.\<close> The programs \<^verbatim>\<open>usertests.c\<close>, \<^verbatim>\<open>grind.c\<close>, \<^verbatim>\<open>forktest.c\<close> and \<^verbatim>\<open>stressfs.c\<close> are tests of the
  kernel and have no contract of their own. \<^verbatim>\<open>initcode.S\<close> appears as the array of bytes that \<^verbatim>\<open>proc.c\<close> has of it. A
  crash between two disk writes and memory reordering between CPUs are not modelled: steps
  of different CPUs interleave one after the other. Linker scripts, build files and the graders under \<^verbatim>\<open>test\<close> and \<^verbatim>\<open>scripts\<close> are not
  part of the program.
\<close>

end
